(* ===== verification/Ucsma_Prelude.thy ===== *)
theory Ucsma_Prelude
  imports Main "HOL-Library.Word" "HOL-Library.State_Monad"
begin

text \<open>
  Shared by every component: the machine types of the C sources, the kernel's time values,
  lock histories, and a small calculus for handlers written in the state monad (what a
  handler returns and leaves behind, which fields it keeps, by how much it shifts a counter,
  and which locks it holds).
\<close>

unbundle bit_operations_syntax

section \<open>Machine types\<close>

type_synonym u8 = "8 word"
type_synonym u16 = "16 word"
type_synonym u32 = "32 word"

text \<open>
  \<open>timespec\<close> of \<open>linux/time.h\<close> as the modules use it: seconds and nanoseconds, always
  normalised by the kernel so that \<open>0 \<le> tv_nsec < 10^9\<close>. \<open>timespec_sub\<close> is the kernel's
  normalised difference.
\<close>

record timespec =
  tv_sec :: int
  tv_nsec :: int

definition nsec_per_sec :: int where
  "nsec_per_sec = 1000000000"

definition timespec_ns :: "timespec \<Rightarrow> int" where
  "timespec_ns t = tv_sec t * nsec_per_sec + tv_nsec t"

definition timespec_of_ns :: "int \<Rightarrow> timespec" where
  "timespec_of_ns n = \<lparr>tv_sec = n div nsec_per_sec, tv_nsec = n mod nsec_per_sec\<rparr>"

definition timespec_sub :: "timespec \<Rightarrow> timespec \<Rightarrow> timespec" where
  "timespec_sub a b = timespec_of_ns (timespec_ns a - timespec_ns b)"

lemma timespec_ns_of_ns [simp]: "timespec_ns (timespec_of_ns n) = n"
  by (simp add: timespec_ns_def timespec_of_ns_def nsec_per_sec_def)

lemma timespec_ns_sub [simp]: "timespec_ns (timespec_sub a b) = timespec_ns a - timespec_ns b"
  by (simp add: timespec_sub_def)

lemma tv_nsec_sub_range:
  "0 \<le> tv_nsec (timespec_sub a b)" "tv_nsec (timespec_sub a b) < nsec_per_sec"
  by (simp_all add: timespec_sub_def timespec_of_ns_def nsec_per_sec_def)

lemma tv_sec_sub: "tv_sec (timespec_sub a b) = (timespec_ns a - timespec_ns b) div nsec_per_sec"
  by (simp add: timespec_sub_def timespec_of_ns_def)

lemma tv_sec_sub_zero_iff:
  "tv_sec (timespec_sub a b) = 0 \<longleftrightarrow>
     0 \<le> timespec_ns a - timespec_ns b \<and> timespec_ns a - timespec_ns b < nsec_per_sec"
  by (auto simp: tv_sec_sub nsec_per_sec_def zdiv_eq_0_iff)

lemma tv_nsec_sub_same_sec:
  "tv_sec (timespec_sub a b) = 0 \<Longrightarrow> tv_nsec (timespec_sub a b) = timespec_ns a - timespec_ns b"
  using tv_sec_sub_zero_iff [of a b] by (simp add: timespec_sub_def timespec_of_ns_def)

text \<open>Error numbers of \<open>errno.h\<close>; the code returns them negated.\<close>

definition ENOENT :: int where "ENOENT = 2"
definition EIO :: int where "EIO = 5"
definition ENOMEM :: int where "ENOMEM = 12"
definition EFAULT :: int where "EFAULT = 14"
definition ENODEV :: int where "ENODEV = 19"
definition EINVAL :: int where "EINVAL = 22"
definition ENOSPC :: int where "ENOSPC = 28"
definition EOPNOTSUPP :: int where "EOPNOTSUPP = 95"
definition EINPROGRESS :: int where "EINPROGRESS = 115"

section \<open>Facts on words\<close>

lemma unat_bound: "unat (w :: 'a::len word) < 2 ^ LENGTH('a)"
  by (rule unsigned_less)

lemma unat_mult_small:
  fixes a b :: "'a::len word"
  shows "unat a * unat b < 2 ^ LENGTH('a) \<Longrightarrow> unat (a * b) = unat a * unat b"
  by (simp add: unat_word_ariths)

lemma unat_add_small:
  fixes a b :: "'a::len word"
  shows "unat a + unat b < 2 ^ LENGTH('a) \<Longrightarrow> unat (a + b) = unat a + unat b"
  by (simp add: unat_word_ariths)

lemma unat_sub_le:
  fixes a b :: "'a::len word"
  shows "b \<le> a \<Longrightarrow> unat (a - b) = unat a - unat b"
  by (simp add: unat_sub)

lemma unat_mod_less: "(0::'a::len word) < m \<Longrightarrow> unat (x mod m) < unat m"
  by (simp add: word_less_nat_alt unat_mod)

lemma bit_and_not_self: "(x AND NOT m) AND m = (0::'a::len word)"
  by (rule bit_word_eqI) (auto simp: bit_simps)

lemma or_and_self: "(x OR m) AND m = (m::'a::len word)"
  by (rule bit_word_eqI) (auto simp: bit_simps)

lemma or_and_not: "(x OR m) AND NOT m = x AND NOT (m::'a::len word)"
  by (rule bit_word_eqI) (auto simp: bit_simps)

section \<open>Lock histories\<close>

text \<open>
  A component's trace holds its events, the newest first. \<open>held\<close> replays the lock events of
  a trace: \<open>None\<close> once a lock is taken twice (a deadlock of the spin locks and mutexes used
  here) or released without being held, else the locks held now.
\<close>

datatype 'l lock_ev = Acquire 'l | Release 'l

fun held :: "'l lock_ev list \<Rightarrow> 'l list option" where
  "held [] = Some []"
| "held (Acquire l # es) =
     (case held es of None \<Rightarrow> None
      | Some L \<Rightarrow> if l \<in> set L then None else Some (l # L))"
| "held (Release l # es) =
     (case held es of None \<Rightarrow> None
      | Some L \<Rightarrow> if l \<in> set L then Some (remove1 l L) else None)"

lemma held_append:
  "held ys = Some [] \<Longrightarrow> held (xs @ ys) = held xs"
  by (induction xs rule: held.induct) (auto split: option.splits)

lemma held_distinct: "held es = Some L \<Longrightarrow> distinct L"
  by (induction es arbitrary: L rule: held.induct) (auto split: option.splits if_splits)

section \<open>Runs\<close>

text \<open>A run of a step that may fault, over a list of inputs.\<close>

fun run_steps :: "('i \<Rightarrow> 's \<Rightarrow> 's option) \<Rightarrow> 'i list \<Rightarrow> 's \<Rightarrow> 's option" where
  "run_steps f [] s = Some s"
| "run_steps f (i # is) s = (case f i s of None \<Rightarrow> None | Some s' \<Rightarrow> run_steps f is s')"

section \<open>Handlers in the state monad\<close>

abbreviation (input) ret :: "'a \<Rightarrow> ('s, 'a) state" where
  "ret \<equiv> State_Monad.return"

definition res :: "('s, 'a) state \<Rightarrow> 's \<Rightarrow> 'a" where
  "res m s = fst (run_state m s)"

definition exec :: "('s, 'a) state \<Rightarrow> 's \<Rightarrow> 's" where
  "exec m s = snd (run_state m s)"

definition gets :: "('s \<Rightarrow> 'a) \<Rightarrow> ('s, 'a) state" where
  "gets f = State (\<lambda>s. (f s, s))"

definition modify :: "('s \<Rightarrow> 's) \<Rightarrow> ('s, unit) state" where
  "modify f = State (\<lambda>s. ((), f s))"

definition only_if :: "bool \<Rightarrow> ('s, unit) state \<Rightarrow> ('s, unit) state" where
  "only_if b m = (if b then m else ret ())"

fun for_each :: "('a \<Rightarrow> ('s, unit) state) \<Rightarrow> 'a list \<Rightarrow> ('s, unit) state" where
  "for_each f [] = ret ()"
| "for_each f (x # xs) = do { f x; for_each f xs }"

lemma exec_simps [simp]:
  "exec (State_Monad.return a) s = s"
  "exec (State_Monad.bind m f) s = exec (f (res m s)) (exec m s)"
  "exec (gets g) s = s"
  "exec (modify h) s = h s"
  "exec (if b then m else n) s = (if b then exec m s else exec n s)"
  by (simp_all add: exec_def res_def gets_def modify_def split: prod.split)

lemma res_simps [simp]:
  "res (State_Monad.return a) s = a"
  "res (State_Monad.bind m f) s = res (f (res m s)) (exec m s)"
  "res (gets g) s = g s"
  "res (modify h) s = ()"
  "res (if b then m else n) s = (if b then res m s else res n s)"
  by (simp_all add: exec_def res_def gets_def modify_def split: prod.split)

lemma exec_case_sum [simp]:
  "exec (case v of Inl e \<Rightarrow> m e | Inr x \<Rightarrow> f x) s =
     (case v of Inl e \<Rightarrow> exec (m e) s | Inr x \<Rightarrow> exec (f x) s)"
  "exec (case w of None \<Rightarrow> n | Some x \<Rightarrow> h x) s =
     (case w of None \<Rightarrow> exec n s | Some x \<Rightarrow> exec (h x) s)"
  by (simp_all split: sum.split option.split)

lemma res_case_sum [simp]:
  "res (case v of Inl e \<Rightarrow> m e | Inr x \<Rightarrow> f x) s =
     (case v of Inl e \<Rightarrow> res (m e) s | Inr x \<Rightarrow> res (f x) s)"
  "res (case w of None \<Rightarrow> n | Some x \<Rightarrow> h x) s =
     (case w of None \<Rightarrow> res n s | Some x \<Rightarrow> res (h x) s)"
  by (simp_all split: sum.split option.split)

lemma exec_only_if [simp]: "exec (only_if b m) s = (if b then exec m s else s)"
  by (simp add: only_if_def)

lemma exec_for_each [simp]:
  "exec (for_each f []) s = s"
  "exec (for_each f (x # xs)) s = exec (for_each f xs) (exec (f x) s)"
  by simp_all

subsection \<open>Fields a handler keeps, counters it shifts\<close>

named_theorems keeps_intros \<open>frame rules: the handler leaves a projection of the state alone\<close>
named_theorems shifts_intros \<open>counter rules: the handler adds a constant to a counter\<close>

definition keeps :: "('s \<Rightarrow> 'b) \<Rightarrow> ('s, 'a) state \<Rightarrow> bool" where
  "keeps g m \<longleftrightarrow> (\<forall>s. g (exec m s) = g s)"

definition shifts :: "('s \<Rightarrow> 'n::ab_group_add) \<Rightarrow> 'n \<Rightarrow> ('s, 'a) state \<Rightarrow> bool" where
  "shifts g d m \<longleftrightarrow> (\<forall>s. g (exec m s) = g s + d)"

lemma keepsD: "keeps g m \<Longrightarrow> g (exec m s) = g s"
  by (simp add: keeps_def)

lemma shiftsD: "shifts g d m \<Longrightarrow> g (exec m s) = g s + d"
  by (simp add: shifts_def)

lemma keeps_rules [keeps_intros]:
  "keeps g (State_Monad.return a)"
  "keeps g (gets k)"
  "keeps g m \<Longrightarrow> (\<And>x. keeps g (f x)) \<Longrightarrow> keeps g (State_Monad.bind m f)"
  "(b \<Longrightarrow> keeps g m) \<Longrightarrow> (\<not> b \<Longrightarrow> keeps g n) \<Longrightarrow> keeps g (if b then m else n)"
  "(b \<Longrightarrow> keeps g u) \<Longrightarrow> keeps g (only_if b u)"
  "(\<And>s. g (h s) = g s) \<Longrightarrow> keeps g (modify h)"
  by (simp_all add: keeps_def only_if_def)

lemma keeps_case_option [keeps_intros]:
  "(v = None \<Longrightarrow> keeps g m) \<Longrightarrow> (\<And>x. v = Some x \<Longrightarrow> keeps g (f x)) \<Longrightarrow>
   keeps g (case v of None \<Rightarrow> m | Some x \<Rightarrow> f x)"
  by (cases v) auto

lemma keeps_for_each [keeps_intros]: "(\<And>x. x \<in> set xs \<Longrightarrow> keeps g (f x)) \<Longrightarrow> keeps g (for_each f xs)"
  by (induction xs) (auto intro: keeps_rules)

lemma shifts_keeps [shifts_intros]: "keeps g m \<Longrightarrow> shifts g 0 m"
  by (simp add: keeps_def shifts_def)

lemma keeps_shifts: "shifts g 0 m \<longleftrightarrow> keeps g m"
  by (simp add: keeps_def shifts_def)

lemma shifts_bind:
  "shifts g a m \<Longrightarrow> (\<And>x. shifts g b (f x)) \<Longrightarrow> shifts g (a + b) (State_Monad.bind m f)"
  by (simp add: shifts_def add.assoc)

text \<open>A bracket: what the first step adds and the last one takes back is not seen outside.\<close>

lemma keeps_bracket:
  "shifts g d a \<Longrightarrow> (\<And>x. keeps g (m x)) \<Longrightarrow> (\<And>x y. shifts g (- d) (b x y)) \<Longrightarrow>
   keeps g (State_Monad.bind a (\<lambda>x. State_Monad.bind (m x) (\<lambda>y. b x y)))"
  by (simp add: keeps_def shifts_def)

end
