(* ===== verification/Registers.thy ===== *)
theory Registers
  imports Ucsma_Prelude
begin

text \<open>
  Register access of the driver (\<open>ath9k/init.c\<close>): the read, write and read-modify-write
  hooks that \<open>ath9k_init_softc\<close> installs in \<open>ah->reg_ops\<close> and through which the unlock
  modules reach the chip. The memory-mapped registers are a map from offsets to values; on
  a machine with several processors and a serialising chip every access is bracketed by
  the spin lock \<open>sc_serial_rw\<close>.
\<close>

datatype serial_lock = Sc_serial_rw

record reg_bus =
  mem :: "u32 \<Rightarrow> u32"
  nr_cpus :: nat
  ser_reg_mode_on :: bool
  serial_trace :: "serial_lock lock_ev list"

definition ioread32 :: "u32 \<Rightarrow> ('a reg_bus_scheme, u32) state" where
  "ioread32 off = gets (\<lambda>s. mem s off)"

definition iowrite32 :: "u32 \<Rightarrow> u32 \<Rightarrow> ('a reg_bus_scheme, unit) state" where
  "iowrite32 val off = modify (\<lambda>s. s\<lparr>mem := (mem s)(off := val)\<rparr>)"

definition serial_ev :: "serial_lock lock_ev \<Rightarrow> ('a reg_bus_scheme, unit) state" where
  "serial_ev e = modify (\<lambda>s. s\<lparr>serial_trace := e # serial_trace s\<rparr>)"

definition serialized :: "'a reg_bus_scheme \<Rightarrow> bool" where
  "serialized s \<longleftrightarrow> nr_cpus s > 1 \<and> ser_reg_mode_on s"

definition ath9k_iowrite32 :: "u32 \<Rightarrow> u32 \<Rightarrow> ('a reg_bus_scheme, unit) state" where
  "ath9k_iowrite32 val reg_offset = do {
     ser \<leftarrow> gets serialized;
     if ser then do {
       serial_ev (Acquire Sc_serial_rw);
       iowrite32 val reg_offset;
       serial_ev (Release Sc_serial_rw)
     } else iowrite32 val reg_offset
   }"

definition ath9k_ioread32 :: "u32 \<Rightarrow> ('a reg_bus_scheme, u32) state" where
  "ath9k_ioread32 reg_offset = do {
     ser \<leftarrow> gets serialized;
     if ser then do {
       serial_ev (Acquire Sc_serial_rw);
       val \<leftarrow> ioread32 reg_offset;
       serial_ev (Release Sc_serial_rw);
       ret val
     } else do {
       val \<leftarrow> ioread32 reg_offset;
       ret val
     }
   }"

definition ath9k_reg_rmw_unlocked ::
  "u32 \<Rightarrow> u32 \<Rightarrow> u32 \<Rightarrow> ('a reg_bus_scheme, u32) state" where
  "ath9k_reg_rmw_unlocked reg_offset st clr = do {
     val \<leftarrow> ioread32 reg_offset;
     let val = val AND NOT clr;
     let val = val OR st;
     iowrite32 val reg_offset;
     ret val
   }"

definition ath9k_reg_rmw :: "u32 \<Rightarrow> u32 \<Rightarrow> u32 \<Rightarrow> ('a reg_bus_scheme, u32) state" where
  "ath9k_reg_rmw reg_offset st clr = do {
     ser \<leftarrow> gets serialized;
     if ser then do {
       serial_ev (Acquire Sc_serial_rw);
       val \<leftarrow> ath9k_reg_rmw_unlocked reg_offset st clr;
       serial_ev (Release Sc_serial_rw);
       ret val
     } else do {
       val \<leftarrow> ath9k_reg_rmw_unlocked reg_offset st clr;
       ret val
     }
   }"

lemmas reg_access_defs =
  ath9k_iowrite32_def ath9k_ioread32_def ath9k_reg_rmw_def ath9k_reg_rmw_unlocked_def
  ioread32_def iowrite32_def serial_ev_def serialized_def

text \<open>
  The macros \<open>REG_SET_BIT\<close> and \<open>REG_CLR_BIT\<close> the modules use go through the
  read-modify-write hook: set the bits \<open>f\<close>, or clear them.
\<close>

definition reg_set_bit :: "u32 \<Rightarrow> u32 \<Rightarrow> ('a reg_bus_scheme, unit) state" where
  "reg_set_bit r f = do { _ \<leftarrow> ath9k_reg_rmw r f 0; ret () }"

definition reg_clr_bit :: "u32 \<Rightarrow> u32 \<Rightarrow> ('a reg_bus_scheme, unit) state" where
  "reg_clr_bit r f = do { _ \<leftarrow> ath9k_reg_rmw r 0 f; ret () }"

section \<open>The register interface\<close>

text \<open>
  What a user of the three hooks relies on: a read returns the stored value and changes no
  register, a write stores its value in its register only, and a read-modify-write clears
  \<open>clr\<close>, sets \<open>set\<close> and returns the value it wrote.
\<close>

locale register_bus =
  fixes peek :: "'s \<Rightarrow> u32 \<Rightarrow> u32"
    and rd :: "u32 \<Rightarrow> ('s, u32) state"
    and wr :: "u32 \<Rightarrow> u32 \<Rightarrow> ('s, unit) state"
    and rmw :: "u32 \<Rightarrow> u32 \<Rightarrow> u32 \<Rightarrow> ('s, u32) state"
  assumes rd_res: "res (rd r) s = peek s r"
    and rd_peek: "peek (exec (rd r) s) = peek s"
    and wr_peek: "peek (exec (wr v r) s) = (peek s)(r := v)"
    and rmw_peek: "peek (exec (rmw r st cl) s) = (peek s)(r := (peek s r AND NOT cl) OR st)"
    and rmw_res: "res (rmw r st cl) s = (peek s r AND NOT cl) OR st"
begin

lemma write_read: "res (do { wr v r; rd r' }) s = (if r' = r then v else peek s r')"
  by (simp add: rd_res wr_peek)

lemma write_write: "peek (exec (do { wr v r; wr v' r }) s) = peek (exec (wr v' r) s)"
  by (simp add: wr_peek)

lemma rmw_is_read_write:
  "peek (exec (rmw r st cl) s) = peek (exec (do { v \<leftarrow> rd r; wr ((v AND NOT cl) OR st) r }) s)"
  by (simp add: rmw_peek wr_peek rd_peek rd_res)

lemma rmw_sets: "peek (exec (rmw r st cl) s) r AND st = st"
  by (simp add: rmw_peek or_and_self)

lemma rmw_clears: "peek (exec (rmw r 0 cl) s) r AND cl = 0"
  by (simp add: rmw_peek bit_and_not_self)

lemma rmw_keeps_other_bits: "peek (exec (rmw r st cl) s) r AND NOT (st OR cl) = peek s r AND NOT (st OR cl)"
  unfolding rmw_peek by (rule bit_word_eqI) (auto simp: bit_simps)

lemma set_then_clear:
  "peek (exec (do { _ \<leftarrow> rmw r f 0; rmw r 0 f }) s) = (peek s)(r := peek s r AND NOT f)"
proof -
  have "((x AND NOT 0) OR f) AND NOT f OR 0 = x AND NOT f" for x :: u32
    by (rule bit_word_eqI) (auto simp: bit_simps)
  then show ?thesis by (simp add: rmw_peek)
qed

end

interpretation ath_bus: register_bus
  "mem :: 'a reg_bus_scheme \<Rightarrow> u32 \<Rightarrow> u32" ath9k_ioread32 ath9k_iowrite32 ath9k_reg_rmw
  by unfold_locales (simp_all add: reg_access_defs Let_def)

lemma serial_balanced_write:
  "held (serial_trace s) = Some [] \<Longrightarrow> held (serial_trace (exec (ath9k_iowrite32 v r) s)) = Some []"
  by (simp add: reg_access_defs)

lemma serial_balanced_read:
  "held (serial_trace s) = Some [] \<Longrightarrow> held (serial_trace (exec (ath9k_ioread32 r) s)) = Some []"
  by (simp add: reg_access_defs)

lemma serial_balanced_rmw:
  "held (serial_trace s) = Some [] \<Longrightarrow> held (serial_trace (exec (ath9k_reg_rmw r st cl) s)) = Some []"
  by (simp add: reg_access_defs Let_def)

lemma mem_reg_set_bit [simp]:
  "mem (exec (reg_set_bit r f) s) = (mem s)(r := mem s r OR f)"
  by (simp add: reg_set_bit_def ath_bus.rmw_peek)

lemma mem_reg_clr_bit [simp]:
  "mem (exec (reg_clr_bit r f) s) = (mem s)(r := mem s r AND NOT f)"
  by (simp add: reg_clr_bit_def ath_bus.rmw_peek)

lemma mem_iowrite [simp]: "mem (exec (ath9k_iowrite32 v r) s) = (mem s)(r := v)"
  by (rule ath_bus.wr_peek)

lemma more_iowrite [simp]:
  "reg_bus.more (exec (ath9k_iowrite32 v r) s) = reg_bus.more s"
  "reg_bus.more (exec (ath9k_reg_rmw r st cl) s) = reg_bus.more s"
  "reg_bus.more (exec (reg_set_bit r f) s) = reg_bus.more s"
  "reg_bus.more (exec (reg_clr_bit r f) s) = reg_bus.more s"
  by (simp_all add: reg_access_defs reg_set_bit_def reg_clr_bit_def Let_def)

section \<open>Registers of the chip\<close>

text \<open>
  Register offsets and masks are defined by the chip's headers, which are not part of this
  repository: they are the parameter \<open>K\<close> of the definitions that use them. \<open>chip_ok\<close> says
  that distinct registers have distinct offsets.
\<close>

record chip =
  AR_PCU_MISC :: u32
  AR_PCU_FORCE_QUIET_COLL :: u32
  AR_DLCL_IFS :: "u32 \<Rightarrow> u32"
  AR_DMISC :: "u32 \<Rightarrow> u32"
  AR_D_GBL_IFS_SLOT :: u32
  AR_D_GBL_IFS_SIFS :: u32
  AR_D_GBL_IFS_EIFS :: u32
  LCL_IFS_CWMIN :: u32
  LCL_IFS_CWMIN_S :: nat
  LCL_IFS_CWMAX :: u32
  LCL_IFS_CWMAX_S :: nat
  LCL_IFS_AIFS :: u32
  LCL_IFS_AIFS_S :: nat

definition dcu_queues :: "u32 list" where
  "dcu_queues = [0, 1, 2, 3, 4, 5, 6, 7, 8, 9]"

definition chip_ok :: "chip \<Rightarrow> bool" where
  "chip_ok K \<longleftrightarrow>
     distinct (map (AR_DLCL_IFS K) dcu_queues @ map (AR_DMISC K) dcu_queues @
       [AR_PCU_MISC K, AR_D_GBL_IFS_SLOT K, AR_D_GBL_IFS_SIFS K, AR_D_GBL_IFS_EIFS K])"

definition ar9331 :: chip where
  "ar9331 = \<lparr>AR_PCU_MISC = 0x8120, AR_PCU_FORCE_QUIET_COLL = 0x40000,
     AR_DLCL_IFS = (\<lambda>q. 0x1040 + 4 * q), AR_DMISC = (\<lambda>q. 0x1100 + 4 * q),
     AR_D_GBL_IFS_SLOT = 0x1070, AR_D_GBL_IFS_SIFS = 0x1030, AR_D_GBL_IFS_EIFS = 0x10b0,
     LCL_IFS_CWMIN = 0x3ff, LCL_IFS_CWMIN_S = 0, LCL_IFS_CWMAX = 0xffc00, LCL_IFS_CWMAX_S = 10,
     LCL_IFS_AIFS = 0xff00000, LCL_IFS_AIFS_S = 20\<rparr>"

lemma chip_ok_ar9331: "chip_ok ar9331"
  by (simp add: chip_ok_def ar9331_def dcu_queues_def)

end
