(* ===== verification/Contention.thy ===== *)
theory Contention
  imports Registers
begin

text \<open>
  Contention windows: the ladder of \<open>unlock.c\<close> that turns the transmit buffer's length into
  a contention window, the ladder of \<open>ath_cw_update\<close> in \<open>ath9k/main.c\<close>, and the loop
  \<open>edit_contentionWindow\<close> of \<open>unlock.c\<close> that writes the window into the interframe-space
  register of the transmit queues. Both ladders meet one contract, the locale
  \<open>cw_policy\<close>.
\<close>

section \<open>The two ladders\<close>

text \<open>\<open>int buf_size\<close> is compared as a signed 32-bit integer in \<open>unlock.c\<close>.\<close>

definition cw_val_of :: "u32 \<Rightarrow> u32" where
  "cw_val_of buf_size =
     (if sint buf_size > 70 then 1023
      else if sint buf_size > 65 then 511
      else if sint buf_size > 60 then 511
      else if sint buf_size > 50 then 255
      else if sint buf_size > 40 then 63
      else if sint buf_size > 20 then 15
      else if sint buf_size > 10 then 7
      else if sint buf_size > 5 then 3
      else 1)"

text \<open>\<open>u32 buf_size\<close> is compared as an unsigned 32-bit integer in \<open>ath_cw_update\<close>.\<close>

definition tqi_cw_of :: "u32 \<Rightarrow> u32" where
  "tqi_cw_of buf_size =
     (if buf_size > 40 then 511
      else if buf_size > 65 then 255
      else if buf_size > 60 then 255
      else if buf_size > 50 then 255
      else if buf_size > 40 then 63
      else if buf_size > 20 then 15
      else if buf_size > 10 then 7
      else if buf_size > 5 then 3
      else 1)"

text \<open>
  The contract: a window is one less than a power of two and fits the ten-bit field of the
  register; a longer buffer never gets a smaller window. \<open>rd\<close> is how the code compares the
  buffer's length.
\<close>

locale cw_policy =
  fixes cw :: "u32 \<Rightarrow> u32"
    and rd :: "u32 \<Rightarrow> int"
  assumes cw_range: "cw n \<in> {1, 3, 7, 15, 63, 255, 511, 1023}"
    and cw_mono: "rd m \<le> rd n \<Longrightarrow> cw m \<le> cw n"
begin

lemma cw_pos: "1 \<le> cw n"
  using cw_range [of n] by auto

lemma cw_fits: "cw n < 1024"
  using cw_range [of n] by auto

lemma cw_all_ones: "cw n AND (cw n + 1) = 0"
  using cw_range [of n] by auto

lemma cw_least: "(\<And>m. rd z \<le> rd m) \<Longrightarrow> cw z \<le> cw n"
  by (rule cw_mono)

end

interpretation unlock_cw: cw_policy cw_val_of "sint :: u32 \<Rightarrow> int"
  by unfold_locales (auto simp: cw_val_of_def)

interpretation driver_cw: cw_policy tqi_cw_of "uint :: u32 \<Rightarrow> int"
  by unfold_locales (auto simp: tqi_cw_of_def word_less_def word_le_def)

section \<open>Writing the window\<close>

text \<open>
  \<open>edit_contentionWindow\<close>: the loop carries \<open>window_size\<close> from one queue to the next, and
  each pass ors it with itself shifted by ten bits before masking it to twenty bits.
\<close>

fun edit_cw_loop :: "chip \<Rightarrow> u32 list \<Rightarrow> u32 \<Rightarrow> ('a reg_bus_scheme, unit) state" where
  "edit_cw_loop K [] window_size = ret ()"
| "edit_cw_loop K (qnum # qs) window_size = do {
     let set' = 0x000fffff;
     let tmp = push_bit 10 window_size;
     let window_size = window_size OR tmp;
     let set' = set' AND window_size;
     ath9k_iowrite32 set' (AR_DLCL_IFS K qnum);
     edit_cw_loop K qs window_size
   }"

text \<open>The queues the loop visits, \<open>for (qnum = 0; qnum < 8; qnum = qnum+1)\<close>.\<close>

definition cw_queues :: "u32 list" where
  "cw_queues = [0, 1, 2, 3, 4, 5, 6, 7]"

definition edit_contentionWindow :: "chip \<Rightarrow> u32 \<Rightarrow> ('a reg_bus_scheme, unit) state" where
  "edit_contentionWindow K window_size = edit_cw_loop K cw_queues window_size"

declare edit_cw_loop.simps [simp del]

text \<open>The value a queue's register is meant to get: the window as minimum and as maximum.\<close>

definition ifs_value :: "u32 \<Rightarrow> u32" where
  "ifs_value w = w OR push_bit 10 w"

definition cw_carry :: "u32 \<Rightarrow> u32 \<Rightarrow> bool" where
  "cw_carry w x \<longleftrightarrow>
     (\<forall>i < 10. bit x i = bit w i) \<and> (\<forall>i. 10 \<le> i \<and> i < 20 \<and> bit x i \<longrightarrow> bit w (i - 10))"

lemma less_1024_bits: "w < 1024 \<Longrightarrow> bit (w :: u32) i \<Longrightarrow> i < 10"
proof (rule ccontr)
  assume "w < 1024" and i: "bit w i" "\<not> i < 10"
  then have "unat w < 1024" by (simp add: word_less_nat_alt)
  moreover have "(1024::nat) \<le> 2 ^ i"
    using i(2) power_increasing [of 10 i "2::nat"] by simp
  ultimately have "unat w < 2 ^ i" by linarith
  then have "unat w div 2 ^ i = 0" by simp
  then have "\<not> bit (unat w) i" by (simp add: bit_iff_odd)
  with i(1) show False by (simp add: bit_unsigned_iff)
qed

lemma bit_0xfffff: "bit (0xfffff :: int) i \<longleftrightarrow> i < 20"
proof -
  have m: "(0xfffff :: int) = mask 20" by (simp add: mask_eq_exp_minus_1)
  show ?thesis unfolding m bit_mask_iff by auto
qed

lemma cw_carry_start: "w < 1024 \<Longrightarrow> cw_carry w w"
  by (auto simp: cw_carry_def dest: less_1024_bits)

lemma cw_carry_step: "cw_carry w x \<Longrightarrow> cw_carry w (x OR push_bit 10 x)"
  by (auto simp: cw_carry_def bit_simps)

lemma cw_carry_value:
  assumes w: "w < 1024" and x: "cw_carry w x"
  shows "0xfffff AND (x OR push_bit 10 x) = ifs_value w"
proof (rule bit_word_eqI)
  fix i assume "i < LENGTH(32)"
  then show "bit (0xfffff AND (x OR push_bit 10 x)) i = bit (ifs_value w) i"
    using x less_1024_bits [OF w, of i] less_1024_bits [OF w, of "i - 10"]
    by (cases "i < 10"; cases "i < 20") (auto simp: ifs_value_def cw_carry_def bit_simps bit_0xfffff)
qed

lemma edit_cw_loop_mem:
  "w < 1024 \<Longrightarrow> cw_carry w x \<Longrightarrow>
   mem (exec (edit_cw_loop K qs x) s) r =
     (if r \<in> AR_DLCL_IFS K ` set qs then ifs_value w else mem s r)"
  by (induction qs arbitrary: x s)
     (auto simp: edit_cw_loop.simps Let_def cw_carry_step cw_carry_value)

lemma mem_edit_contentionWindow:
  assumes "w < 1024"
  shows "mem (exec (edit_contentionWindow K w) s) r =
    (if r \<in> AR_DLCL_IFS K ` set cw_queues then ifs_value w else mem s r)"
  unfolding edit_contentionWindow_def edit_cw_loop_mem [OF assms cw_carry_start [OF assms]]
  by simp

lemma edit_cw_loop_more [simp]:
  "reg_bus.more (exec (edit_cw_loop K qs w) s) = reg_bus.more s"
  by (induction qs arbitrary: w s) (simp_all add: edit_cw_loop.simps Let_def)

lemma more_edit_contentionWindow [simp]:
  "reg_bus.more (exec (edit_contentionWindow K w) s) = reg_bus.more s"
  by (simp add: edit_contentionWindow_def)

text \<open>Reading the register back, field by field.\<close>

definition ifs_cwmin :: "u32 \<Rightarrow> u32" where "ifs_cwmin v = v AND 0x3ff"
definition ifs_cwmax :: "u32 \<Rightarrow> u32" where "ifs_cwmax v = drop_bit 10 v AND 0x3ff"
definition ifs_aifs :: "u32 \<Rightarrow> u32" where "ifs_aifs v = drop_bit 20 v"

lemma bit_0x3ff: "bit (0x3ff :: int) i \<longleftrightarrow> i < 10"
proof -
  have m: "(0x3ff :: int) = mask 10" by (simp add: mask_eq_exp_minus_1)
  show ?thesis unfolding m bit_mask_iff by auto
qed

lemma ifs_value_fields:
  assumes w: "w < 1024"
  shows "ifs_cwmin (ifs_value w) = w" "ifs_cwmax (ifs_value w) = w" "ifs_aifs (ifs_value w) = 0"
proof -
  note b = less_1024_bits [OF w]
  note d = ifs_cwmin_def ifs_cwmax_def ifs_aifs_def ifs_value_def bit_simps bit_0x3ff
  show "ifs_cwmin (ifs_value w) = w"
    by (rule bit_word_eqI) (auto simp: d dest: b)
  show "ifs_cwmax (ifs_value w) = w"
    by (rule bit_word_eqI) (auto simp: d dest: b)
  show "ifs_aifs (ifs_value w) = 0"
    by (rule bit_word_eqI) (auto simp: d dest: b)
qed

end
