(* ===== verification/Unlock_Timing.thy ===== *)
theory Unlock_Timing
  imports Ucsma_Prelude
begin

text \<open>
  The arithmetic that \<open>unlock.c\<close> and \<open>unlock_with_log.c\<close> share: the test that drops an unlock
  signal, the random back-off, and the next period of the unlock timer. All of it is on
  unsigned 32-bit integers; \<open>tv_nsec\<close>, a \<open>long\<close>, is converted to unsigned for the
  comparisons, as C does on the 32-bit target.
\<close>

definition nsec_word :: "timespec \<Rightarrow> u32" where
  "nsec_word d = word_of_int (tv_nsec d)"

definition dropped :: "u32 \<Rightarrow> timespec \<Rightarrow> bool" where
  "dropped T diff \<longleftrightarrow> tv_sec diff \<noteq> 0 \<or> nsec_word diff < T * 500"

definition next_period :: "u32 \<Rightarrow> u32 \<Rightarrow> timespec \<Rightarrow> u32" where
  "next_period T rng diff =
     (if tv_sec diff \<noteq> 0 \<or> nsec_word diff \<le> T * 1000 then T + rng else T - rng)"

definition timer_delay :: "u32 \<Rightarrow> u32 \<Rightarrow> u32" where
  "timer_delay next_timer backoff =
     (let next_timer = next_timer - backoff
      in if next_timer < 0 then 0 else next_timer)"

lemma uint_nsec_word:
  "0 \<le> tv_nsec d \<Longrightarrow> tv_nsec d < nsec_per_sec \<Longrightarrow> uint (nsec_word d) = tv_nsec d"
  by (simp add: nsec_word_def nsec_per_sec_def uint_word_of_int)

lemma dropped_iff:
  assumes "unat T * 500 < 2 ^ 32"
  shows "dropped T (timespec_sub now prev) \<longleftrightarrow>
    timespec_ns now - timespec_ns prev < 0 \<or> nsec_per_sec \<le> timespec_ns now - timespec_ns prev \<or>
    timespec_ns now - timespec_ns prev < uint T * 500"
proof -
  have u: "uint (T * 500) = uint T * 500"
    using unat_mult_small [of T 500] assms by (simp only: uint_nat) simp
  have "uint (nsec_word (timespec_sub now prev)) = tv_nsec (timespec_sub now prev)"
    by (rule uint_nsec_word) (rule tv_nsec_sub_range)+
  then show ?thesis
    unfolding dropped_def word_less_def u
    by (cases "tv_sec (timespec_sub now prev) = 0")
       (auto simp: tv_nsec_sub_same_sec tv_sec_sub_zero_iff)
qed

text \<open>The guard against a negative delay is on an unsigned value: it never changes it.\<close>

lemma timer_delay_eq: "timer_delay n b = n - b"
  by (simp add: timer_delay_def)

lemma timer_delay_bounds:
  assumes D: "unat rng < 2 * d" "unat backoff < 2 * d"
    and T: "4 * d \<le> unat T" "unat T + 2 * d < 2 ^ 32"
  shows "unat T \<le> unat (timer_delay (next_period T rng diff) backoff) + 4 * d"
    and "unat (timer_delay (next_period T rng diff) backoff) < unat T + 2 * d"
proof -
  have p: "unat T \<le> unat (next_period T rng diff) + 2 * d \<and>
           unat (next_period T rng diff) < unat T + 2 * d"
  proof (cases "tv_sec diff \<noteq> 0 \<or> nsec_word diff \<le> T * 1000")
    case True
    then show ?thesis using D T by (simp add: next_period_def unat_add_small)
  next
    case False
    moreover have "rng \<le> T" using D T by (simp add: word_le_nat_alt)
    ultimately show ?thesis using D T by (simp add: next_period_def unat_sub_le) linarith
  qed
  then have "backoff \<le> next_period T rng diff" using D T by (simp add: word_le_nat_alt)
  then show "unat T \<le> unat (timer_delay (next_period T rng diff) backoff) + 4 * d"
    and "unat (timer_delay (next_period T rng diff) backoff) < unat T + 2 * d"
    using p D T unat_sub_le [of backoff "next_period T rng diff"]
    by (simp_all add: timer_delay_eq) linarith+
qed

lemma unat_mod_double:
  "unat D + unat D < 2 ^ 32 \<Longrightarrow> 0 < D \<Longrightarrow> unat (x mod (D + D)) < 2 * unat (D :: u32)"
proof -
  assume "unat D + unat D < 2 ^ 32" and D: "0 < D"
  then have "unat (D + D) = 2 * unat D" by (simp add: unat_word_ariths)
  then show ?thesis
    using D by (simp only: unat_mod) (simp add: word_less_nat_alt)
qed

end
