(* ===== verification/Unlock.thy ===== *)
theory Unlock
  imports Contention Unlock_Timing
begin

text \<open>
  The unlock module (\<open>kernel-module/unlock.c\<close>). Its state is the chip's registers, the two
  module parameters, the driver's exported transmit buffer list and counters, the times of
  the last two unlock signals, the unlock timer, the GPIO and interrupt resources it holds,
  and a trace of the pulses and delays it makes. The handlers take what the kernel gives
  them (the time, random words, results of requests) as arguments.
\<close>

datatype unlock_ev =
    Gpio_set u32 bool    \<comment> \<open>\<open>gpio_set_value\<close>\<close>
  | Udelay u32
  | Ndelay u32 u32       \<comment> \<open>the delay, and the value of \<open>AR_PCU_MISC\<close> while it lasts\<close>

record unlock_state = reg_bus +
  par_Delta :: u32
  par_T :: u32
  txbuf_fff :: "nat list option"     \<comment> \<open>\<open>None\<close> is the NULL pointer\<close>
  buf_counter :: u32
  has_changed :: u32
  last_unlock :: timespec
  last_unlock_2nd :: timespec
  unlock_timer :: "u32 option"       \<comment> \<open>armed, with the nanoseconds given to \<open>ktime_set\<close>\<close>
  driver_lock :: bool
  ah_unlocked :: bool
  ah_last_force_quiet_restore :: timespec
  ah_unlocking_logging :: bool
  ah_force_quiet_bit_restore :: bool
  ah_max_timing_count :: u32
  slottime_clock :: u32
  sifs_clock :: u32
  eifs_clock :: u32
  unlock_irq :: int
  gpios_held :: bool
  irq_held :: bool
  utrace :: "unlock_ev list"

lemma unlock_fields_more:
  assumes "reg_bus.more s = reg_bus.more t"
  shows "par_Delta s = par_Delta t" "par_T s = par_T t" "txbuf_fff s = txbuf_fff t"
    "buf_counter s = buf_counter t" "has_changed s = has_changed t"
    "last_unlock s = last_unlock t" "last_unlock_2nd s = last_unlock_2nd t"
    "unlock_timer s = unlock_timer t" "driver_lock s = driver_lock t"
    "ah_unlocked s = ah_unlocked t"
    "ah_last_force_quiet_restore s = ah_last_force_quiet_restore t"
    "gpios_held s = gpios_held t" "irq_held s = irq_held t" "utrace s = utrace t"
    "ah_unlocking_logging s = ah_unlocking_logging t"
    "ah_force_quiet_bit_restore s = ah_force_quiet_bit_restore t"
    "ah_max_timing_count s = ah_max_timing_count t"
  using assms by (cases s; cases t; simp)+

lemmas unlock_frame [simp] =
  unlock_fields_more [OF more_edit_contentionWindow]
  unlock_fields_more [OF more_iowrite(3)] unlock_fields_more [OF more_iowrite(4)]

section \<open>Counting the transmit buffer\<close>

fun get_buf_size_loop :: "nat list \<Rightarrow> u32 \<Rightarrow> u32" where
  "get_buf_size_loop [] sz = sz"
| "get_buf_size_loop (p # ps) sz = get_buf_size_loop ps (sz + 1)"

definition get_buf_size :: "nat list \<Rightarrow> u32" where
  "get_buf_size txbuf = get_buf_size_loop txbuf 0"

lemma get_buf_size_eq: "get_buf_size b = of_nat (length b)"
proof -
  have "get_buf_size_loop b n = n + of_nat (length b)" for n
    by (induction b arbitrary: n) simp_all
  then show ?thesis by (simp add: get_buf_size_def)
qed

section \<open>Handlers\<close>

datatype fault = Deadlock | Div_by_zero | Out_of_bounds

text \<open>\<open>No_value\<close>: the function executes \<open>return;\<close> and its caller reads an indeterminate value.\<close>

datatype irqreturn = IRQ_HANDLED | Irq_no_value
datatype hrtimer_restart = HRTIMER_RESTART | HRTIMER_NORESTART | Timer_no_value

record irq_input =
  in_now :: timespec       \<comment> \<open>\<open>getnstimeofday\<close>\<close>
  in_restore :: timespec   \<comment> \<open>\<open>getnstimeofday\<close> after the back-off\<close>
  in_rng :: u32            \<comment> \<open>\<open>get_random_bytes\<close>\<close>
  in_backoff :: u32

definition emit :: "unlock_ev \<Rightarrow> (unlock_state, unit) state" where
  "emit e = modify (\<lambda>s. s\<lparr>utrace := e # utrace s\<rparr>)"

definition unlock_pulse :: "(unlock_state, unit) state" where
  "unlock_pulse = do { emit (Gpio_set 21 True); emit (Udelay 1); emit (Gpio_set 21 False) }"

definition unlock_timer_handler :: "chip \<Rightarrow> (unlock_state, hrtimer_restart) state" where
  "unlock_timer_handler K = do {
     unlock_pulse;
     txbuf \<leftarrow> gets txbuf_fff;
     case txbuf of
       None \<Rightarrow> ret Timer_no_value
     | Some b \<Rightarrow> do {
         let buf_size = get_buf_size b;
         modify (\<lambda>s. s\<lparr>buf_counter := buf_size\<rparr>);
         edit_contentionWindow K (cw_val_of buf_size);
         modify (\<lambda>s. s\<lparr>has_changed := 1\<rparr>);
         modify (\<lambda>s. s\<lparr>unlock_timer := Some (par_T s * 1000)\<rparr>);
         ret HRTIMER_RESTART
       }
   }"

definition relay_and_schedule ::
  "chip \<Rightarrow> irq_input \<Rightarrow> (unlock_state, fault + irqreturn) state" where
  "relay_and_schedule K I = do {
     modify (\<lambda>s. s\<lparr>unlock_timer := None\<rparr>);
     unlock_pulse;
     modify (\<lambda>s. s\<lparr>has_changed := 1\<rparr>);
     Delta \<leftarrow> gets par_Delta;
     if Delta + Delta = 0 then ret (Inl Div_by_zero)
     else do {
       let rng = in_rng I mod (Delta + Delta);
       diff \<leftarrow> gets (\<lambda>s. timespec_sub (last_unlock s) (last_unlock_2nd s));
       T \<leftarrow> gets par_T;
       let next_timer = next_period T rng diff;
       modify (\<lambda>s. s\<lparr>last_unlock_2nd := last_unlock s\<rparr>);
       modify (\<lambda>s. s\<lparr>last_unlock := in_now I\<rparr>);
       let backoff = in_backoff I mod (Delta + Delta);
       reg_set_bit (AR_PCU_MISC K) (AR_PCU_FORCE_QUIET_COLL K);
       pcu \<leftarrow> gets (\<lambda>s. mem s (AR_PCU_MISC K));
       emit (Ndelay (backoff * 1000) pcu);
       modify (\<lambda>s. s\<lparr>ah_unlocked := True, ah_last_force_quiet_restore := in_restore I\<rparr>);
       reg_clr_bit (AR_PCU_MISC K) (AR_PCU_FORCE_QUIET_COLL K);
       let next_timer = timer_delay next_timer backoff;
       modify (\<lambda>s. s\<lparr>unlock_timer := Some (next_timer * 1000)\<rparr>);
       modify (\<lambda>s. s\<lparr>driver_lock := False\<rparr>);
       ret (Inr IRQ_HANDLED)
     }
   }"

definition unlock_r_irq_handler ::
  "chip \<Rightarrow> irq_input \<Rightarrow> (unlock_state, fault + irqreturn) state" where
  "unlock_r_irq_handler K I = do {
     locked \<leftarrow> gets driver_lock;
     if locked then ret (Inl Deadlock)
     else do {
       modify (\<lambda>s. s\<lparr>driver_lock := True\<rparr>);
       txbuf \<leftarrow> gets txbuf_fff;
       case txbuf of
         None \<Rightarrow> ret (Inr Irq_no_value)
       | Some b \<Rightarrow> do {
           let buf_size = get_buf_size b;
           modify (\<lambda>s. s\<lparr>buf_counter := buf_size\<rparr>);
           edit_contentionWindow K (cw_val_of buf_size);
           diff \<leftarrow> gets (\<lambda>s. timespec_sub (in_now I) (last_unlock s));
           T \<leftarrow> gets par_T;
           if dropped T diff then do {
             modify (\<lambda>s. s\<lparr>driver_lock := False\<rparr>);
             ret (Inr IRQ_HANDLED)
           } else relay_and_schedule K I
         }
     }
   }"

section \<open>What the interrupt handler does\<close>

lemma emit_simps [simp]:
  "exec (emit e) s = s\<lparr>utrace := e # utrace s\<rparr>"
  by (simp add: emit_def)

lemma exec_unlock_pulse [simp]:
  "exec unlock_pulse s =
     s\<lparr>utrace := Gpio_set 21 False # Udelay 1 # Gpio_set 21 True # utrace s\<rparr>"
  by (simp add: unlock_pulse_def)

definition accepts :: "irq_input \<Rightarrow> unlock_state \<Rightarrow> bool" where
  "accepts I s \<longleftrightarrow> \<not> dropped (par_T s) (timespec_sub (in_now I) (last_unlock s))"

definition backoff_of :: "irq_input \<Rightarrow> unlock_state \<Rightarrow> u32" where
  "backoff_of I s = in_backoff I mod (par_Delta s + par_Delta s)"

text \<open>\<open>rng %= (Delta + Delta)\<close> has a divisor.\<close>

definition delta_ok :: "unlock_state \<Rightarrow> bool" where
  "delta_ok s \<longleftrightarrow> par_Delta s + par_Delta s \<noteq> 0"

definition delay_of :: "irq_input \<Rightarrow> unlock_state \<Rightarrow> u32" where
  "delay_of I s = timer_delay
     (next_period (par_T s) (in_rng I mod (par_Delta s + par_Delta s))
        (timespec_sub (last_unlock s) (last_unlock_2nd s)))
     (backoff_of I s)"

lemma irq_deadlock:
  "driver_lock s \<Longrightarrow> res (unlock_r_irq_handler K I) s = Inl Deadlock"
  "driver_lock s \<Longrightarrow> exec (unlock_r_irq_handler K I) s = s"
  by (simp_all add: unlock_r_irq_handler_def)

lemma irq_null:
  assumes "\<not> driver_lock s" "txbuf_fff s = None"
  shows "res (unlock_r_irq_handler K I) s = Inr Irq_no_value"
    "exec (unlock_r_irq_handler K I) s = s\<lparr>driver_lock := True\<rparr>"
  using assms by (simp_all add: unlock_r_irq_handler_def)

text \<open>The part of the handler before the debounce test, which every signal runs.\<close>

definition after_cw :: "chip \<Rightarrow> nat list \<Rightarrow> unlock_state \<Rightarrow> unlock_state" where
  "after_cw K b s = exec (edit_contentionWindow K (cw_val_of (get_buf_size b)))
     (s\<lparr>driver_lock := True, buf_counter := get_buf_size b\<rparr>)"

lemma after_cw_fields [simp]:
  "par_Delta (after_cw K b s) = par_Delta s" "par_T (after_cw K b s) = par_T s"
  "delta_ok (after_cw K b s) = delta_ok s"
  "txbuf_fff (after_cw K b s) = txbuf_fff s" "buf_counter (after_cw K b s) = get_buf_size b"
  "has_changed (after_cw K b s) = has_changed s" "last_unlock (after_cw K b s) = last_unlock s"
  "last_unlock_2nd (after_cw K b s) = last_unlock_2nd s" "unlock_timer (after_cw K b s) = unlock_timer s"
  "driver_lock (after_cw K b s)" "ah_unlocked (after_cw K b s) = ah_unlocked s"
  "ah_last_force_quiet_restore (after_cw K b s) = ah_last_force_quiet_restore s"
  "gpios_held (after_cw K b s) = gpios_held s" "irq_held (after_cw K b s) = irq_held s"
  "utrace (after_cw K b s) = utrace s"
  by (simp_all add: after_cw_def delta_ok_def)

lemma mem_after_cw:
  "mem (after_cw K b s) r =
     (if r \<in> AR_DLCL_IFS K ` set cw_queues
      then ifs_value (cw_val_of (get_buf_size b)) else mem s r)"
  by (simp add: after_cw_def mem_edit_contentionWindow unlock_cw.cw_fits)

lemma irq_split:
  assumes "\<not> driver_lock s" "txbuf_fff s = Some b"
  shows "exec (unlock_r_irq_handler K I) s =
      (if accepts I s then exec (relay_and_schedule K I) (after_cw K b s)
       else (after_cw K b s)\<lparr>driver_lock := False\<rparr>)"
    "res (unlock_r_irq_handler K I) s =
      (if accepts I s then res (relay_and_schedule K I) (after_cw K b s) else Inr IRQ_HANDLED)"
  using assms
  by (simp_all add: unlock_r_irq_handler_def accepts_def after_cw_def Let_def)

lemma res_relay:
  "res (relay_and_schedule K I) s =
     (if delta_ok s then Inr IRQ_HANDLED else Inl Div_by_zero)"
  by (simp add: relay_and_schedule_def Let_def delta_ok_def)

lemma relay_effect:
  assumes "delta_ok s"
  shows "last_unlock (exec (relay_and_schedule K I) s) = in_now I"
    "last_unlock_2nd (exec (relay_and_schedule K I) s) = last_unlock s"
    "unlock_timer (exec (relay_and_schedule K I) s) = Some (delay_of I s * 1000)"
    "driver_lock (exec (relay_and_schedule K I) s) = False"
    "ah_unlocked (exec (relay_and_schedule K I) s) = True"
    "has_changed (exec (relay_and_schedule K I) s) = 1"
    "ah_last_force_quiet_restore (exec (relay_and_schedule K I) s) = in_restore I"
    "txbuf_fff (exec (relay_and_schedule K I) s) = txbuf_fff s"
    "par_T (exec (relay_and_schedule K I) s) = par_T s"
    "par_Delta (exec (relay_and_schedule K I) s) = par_Delta s"
    "buf_counter (exec (relay_and_schedule K I) s) = buf_counter s"
    "mem (exec (relay_and_schedule K I) s) =
       (mem s)(AR_PCU_MISC K := mem s (AR_PCU_MISC K) AND NOT (AR_PCU_FORCE_QUIET_COLL K))"
    "utrace (exec (relay_and_schedule K I) s) =
       Ndelay (backoff_of I s * 1000) (mem s (AR_PCU_MISC K) OR AR_PCU_FORCE_QUIET_COLL K) #
       Gpio_set 21 False # Udelay 1 # Gpio_set 21 True # utrace s"
  using assms
  by (simp_all add: relay_and_schedule_def Let_def delay_of_def backoff_of_def or_and_not
      delta_ok_def)

end
