(* ===== verification/Unlock_Module.thy ===== *)
theory Unlock_Module
  imports Unlock
begin

text \<open>
  Loading and unloading of the unlock module, and its life in between: a step relation whose
  steps are an unlock interrupt, the unlock timer, a change of the driver's transmit buffer
  and a write of the module parameters, with the invariant of the reachable states; and runs
  of interrupts, with the debounce property.
\<close>

section \<open>Loading and unloading\<close>

record init_input =
  ii_now :: timespec
  ii_gpio_request :: int   \<comment> \<open>result of \<open>gpio_request_array\<close>\<close>
  ii_gpio_to_irq :: int    \<comment> \<open>result of \<open>gpio_to_irq\<close>\<close>
  ii_request_irq :: int    \<comment> \<open>result of \<open>request_irq\<close>\<close>

text \<open>\<open>unlock_irq\<close> is a \<open>short int\<close>.\<close>

definition to_short :: "int \<Rightarrow> int" where
  "to_short i = signed_take_bit 15 i"

definition unlock_init :: "chip \<Rightarrow> init_input \<Rightarrow> (unlock_state, int) state" where
  "unlock_init K I = do {
     modify (\<lambda>s. s\<lparr>ah_unlocking_logging := True, ah_force_quiet_bit_restore := True,
       ah_max_timing_count := 10\<rparr>);
     slot \<leftarrow> ath9k_ioread32 (AR_D_GBL_IFS_SLOT K);
     modify (\<lambda>s. s\<lparr>slottime_clock := slot\<rparr>);
     sifs \<leftarrow> ath9k_ioread32 (AR_D_GBL_IFS_SIFS K);
     modify (\<lambda>s. s\<lparr>sifs_clock := sifs\<rparr>);
     eifs \<leftarrow> ath9k_ioread32 (AR_D_GBL_IFS_EIFS K);
     modify (\<lambda>s. s\<lparr>eifs_clock := eifs\<rparr>);
     modify (\<lambda>s. s\<lparr>unlock_timer := None\<rparr>);
     modify (\<lambda>s. s\<lparr>last_unlock := ii_now I\<rparr>);
     if ii_gpio_request I \<noteq> 0 then ret (ii_gpio_request I)
     else do {
       modify (\<lambda>s. s\<lparr>gpios_held := True\<rparr>);
       modify (\<lambda>s. s\<lparr>unlock_irq := to_short (ii_gpio_to_irq I)\<rparr>);
       irq \<leftarrow> gets unlock_irq;
       if irq < 0 then do {
         modify (\<lambda>s. s\<lparr>gpios_held := False\<rparr>);
         ret irq
       } else if ii_request_irq I \<noteq> 0 then do {
         modify (\<lambda>s. s\<lparr>gpios_held := False\<rparr>);
         ret (ii_request_irq I)
       } else do {
         modify (\<lambda>s. s\<lparr>irq_held := True\<rparr>);
         modify (\<lambda>s. s\<lparr>unlock_timer := Some (par_T s * 1000)\<rparr>);
         edit_contentionWindow K 15;
         ret 0
       }
     }
   }"

definition unlock_exit :: "(unlock_state, unit) state" where
  "unlock_exit = do {
     modify (\<lambda>s. s\<lparr>unlock_timer := None\<rparr>);
     modify (\<lambda>s. s\<lparr>irq_held := False\<rparr>);
     modify (\<lambda>s. s\<lparr>gpios_held := False\<rparr>);
     modify (\<lambda>s. s\<lparr>ah_unlocking_logging := False, ah_unlocked := False,
       ah_force_quiet_bit_restore := False, ah_max_timing_count := 0\<rparr>)
   }"

lemma more_ioread [simp]: "reg_bus.more (exec (ath9k_ioread32 r) s) = reg_bus.more s"
  by (simp add: reg_access_defs)

lemma mem_ioread [simp]: "mem (exec (ath9k_ioread32 r) s) = mem s"
  by (rule ath_bus.rd_peek)

lemmas unlock_read_frame [simp] = unlock_fields_more [OF more_ioread]

lemma unlock_init_fields [simp]:
  "driver_lock (exec (unlock_init K I) s) = driver_lock s"
  "txbuf_fff (exec (unlock_init K I) s) = txbuf_fff s"
  by (simp_all add: unlock_init_def)

lemma unlock_init_ok_iff:
  "res (unlock_init K I) s = 0 \<longleftrightarrow>
     ii_gpio_request I = 0 \<and> 0 \<le> to_short (ii_gpio_to_irq I) \<and> ii_request_irq I = 0"
  by (auto simp: unlock_init_def)

lemma unlock_init_ok:
  assumes "res (unlock_init K I) s = 0"
  shows "gpios_held (exec (unlock_init K I) s)" "irq_held (exec (unlock_init K I) s)"
    "unlock_timer (exec (unlock_init K I) s) = Some (par_T s * 1000)"
    "last_unlock (exec (unlock_init K I) s) = ii_now I"
    "mem (exec (unlock_init K I) s) r =
       (if r \<in> AR_DLCL_IFS K ` set cw_queues then ifs_value 15 else mem s r)"
  using assms unfolding unlock_init_ok_iff
  by (simp_all add: unlock_init_def mem_edit_contentionWindow)

lemma unlock_init_fail:
  assumes "res (unlock_init K I) s \<noteq> 0" "\<not> gpios_held s" "\<not> irq_held s"
  shows "\<not> gpios_held (exec (unlock_init K I) s)" "\<not> irq_held (exec (unlock_init K I) s)"
    "unlock_timer (exec (unlock_init K I) s) = None"
  using assms unfolding unlock_init_ok_iff
  by (auto simp: unlock_init_def)

section \<open>Steps and reachable states\<close>

definition timer_fires :: "chip \<Rightarrow> unlock_state \<Rightarrow> unlock_state" where
  "timer_fires K s =
     (let s0 = s\<lparr>unlock_timer := None\<rparr>; s' = exec (unlock_timer_handler K) s0
      in if res (unlock_timer_handler K) s0 = HRTIMER_RESTART then s'
         else s'\<lparr>unlock_timer := None\<rparr>)"

inductive ustep :: "chip \<Rightarrow> unlock_state \<Rightarrow> unlock_state \<Rightarrow> bool" for K where
  irq: "irq_held s \<Longrightarrow> res (unlock_r_irq_handler K I) s = Inr r \<Longrightarrow>
     ustep K s (exec (unlock_r_irq_handler K I) s)"
| timer: "unlock_timer s = Some n \<Longrightarrow> ustep K s (timer_fires K s)"
| tx: "ustep K s (s\<lparr>txbuf_fff := Some b\<rparr>)"
| sysfs: "ustep K s (s\<lparr>par_T := t, par_Delta := d\<rparr>)"

inductive ureach :: "chip \<Rightarrow> unlock_state \<Rightarrow> unlock_state \<Rightarrow> bool" for K s where
  start: "ureach K s s"
| step: "ureach K s t \<Longrightarrow> ustep K t u \<Longrightarrow> ureach K s u"

definition cw_written :: "chip \<Rightarrow> unlock_state \<Rightarrow> bool" where
  "cw_written K s \<longleftrightarrow>
     (\<exists>w \<in> {1, 3, 7, 15, 63, 255, 511, 1023}.
        \<forall>q \<in> set cw_queues. mem s (AR_DLCL_IFS K q) = ifs_value w)"

definition quiet_clear :: "chip \<Rightarrow> unlock_state \<Rightarrow> bool" where
  "quiet_clear K s \<longleftrightarrow> mem s (AR_PCU_MISC K) AND AR_PCU_FORCE_QUIET_COLL K = 0"

definition unlock_inv :: "chip \<Rightarrow> unlock_state \<Rightarrow> bool" where
  "unlock_inv K s \<longleftrightarrow>
     txbuf_fff s \<noteq> None \<and> \<not> driver_lock s \<and> unlock_timer s \<noteq> None \<and>
     cw_written K s \<and> quiet_clear K s"

lemma chip_pcu_dlcl:
  assumes "chip_ok K" "q \<in> set dcu_queues"
  shows "AR_DLCL_IFS K q \<noteq> AR_PCU_MISC K"
proof -
  have "set (map (AR_DLCL_IFS K) dcu_queues) \<inter> set (map (AR_DMISC K) dcu_queues @
       [AR_PCU_MISC K, AR_D_GBL_IFS_SLOT K, AR_D_GBL_IFS_SIFS K, AR_D_GBL_IFS_EIFS K]) = {}"
    using assms(1) unfolding chip_ok_def distinct_append by blast
  moreover have "AR_DLCL_IFS K q \<in> set (map (AR_DLCL_IFS K) dcu_queues)"
    using assms(2) by (simp only: set_map) (rule imageI)
  ultimately show ?thesis unfolding set_append by auto
qed

lemma cw_queues_subset: "set cw_queues \<subseteq> set dcu_queues"
  by (simp add: dcu_queues_def cw_queues_def)

lemma chip_pcu_notin:
  assumes "chip_ok K"
  shows "AR_PCU_MISC K \<notin> AR_DLCL_IFS K ` set cw_queues"
    and "q \<in> set cw_queues \<Longrightarrow> AR_DLCL_IFS K q \<noteq> AR_PCU_MISC K"
proof -
  have *: "AR_DLCL_IFS K q \<noteq> AR_PCU_MISC K" if "q \<in> set cw_queues" for q
    using chip_pcu_dlcl [OF assms] cw_queues_subset that by blast
  show "AR_PCU_MISC K \<notin> AR_DLCL_IFS K ` set cw_queues" using * by force
  show "q \<in> set cw_queues \<Longrightarrow> AR_DLCL_IFS K q \<noteq> AR_PCU_MISC K" by (rule *)
qed

lemma timer_handler_some:
  assumes "txbuf_fff s = Some b"
  shows "res (unlock_timer_handler K) s = HRTIMER_RESTART"
    "unlock_timer (exec (unlock_timer_handler K) s) = Some (par_T s * 1000)"
    "driver_lock (exec (unlock_timer_handler K) s) = driver_lock s"
    "txbuf_fff (exec (unlock_timer_handler K) s) = Some b"
    "buf_counter (exec (unlock_timer_handler K) s) = get_buf_size b"
    "has_changed (exec (unlock_timer_handler K) s) = 1"
    "mem (exec (unlock_timer_handler K) s) r =
       (if r \<in> AR_DLCL_IFS K ` set cw_queues
        then ifs_value (cw_val_of (get_buf_size b)) else mem s r)"
  using assms
  by (simp_all add: unlock_timer_handler_def Let_def mem_edit_contentionWindow unlock_cw.cw_fits)

lemma timer_handler_null:
  assumes "txbuf_fff s = None"
  shows "res (unlock_timer_handler K) s = Timer_no_value"
    "unlock_timer (exec (unlock_timer_handler K) s) = unlock_timer s"
  using assms by (simp_all add: unlock_timer_handler_def)

lemma cw_writtenI:
  "(\<And>q. q \<in> set cw_queues \<Longrightarrow> mem s (AR_DLCL_IFS K q) = ifs_value (cw_val_of n)) \<Longrightarrow>
   cw_written K s"
  unfolding cw_written_def using unlock_cw.cw_range [of n] by blast

lemma inv_after_cw:
  assumes "chip_ok K" "unlock_inv K s"
  shows "cw_written K (after_cw K b s)" "quiet_clear K (after_cw K b s)"
  using assms chip_pcu_notin
  by (auto intro!: cw_writtenI [of _ _ "get_buf_size b"] simp: mem_after_cw quiet_clear_def unlock_inv_def)

lemma inv_relay:
  assumes "chip_ok K" "delta_ok s" "cw_written K s" "txbuf_fff s \<noteq> None"
  shows "unlock_inv K (exec (relay_and_schedule K I) s)"
proof -
  have "cw_written K (exec (relay_and_schedule K I) s)"
    using assms(2,3) chip_pcu_notin(2) [OF assms(1)] by (auto simp: cw_written_def relay_effect)
  moreover have "quiet_clear K (exec (relay_and_schedule K I) s)"
    by (simp add: quiet_clear_def relay_effect assms(2) bit_and_not_self)
  ultimately show ?thesis using assms by (simp add: unlock_inv_def relay_effect)
qed

lemma inv_irq:
  assumes K: "chip_ok K" and inv: "unlock_inv K s" and r: "res (unlock_r_irq_handler K I) s = Inr r"
  shows "unlock_inv K (exec (unlock_r_irq_handler K I) s)"
proof -
  from inv obtain b where b: "txbuf_fff s = Some b" and nl: "\<not> driver_lock s"
    by (auto simp: unlock_inv_def)
  note sp = irq_split [OF nl b] and cw = inv_after_cw [OF K inv, of b]
  show ?thesis
  proof (cases "accepts I s")
    case True
    with r have "delta_ok s"
      by (auto simp: sp res_relay split: if_splits)
    with cw b True show ?thesis by (simp add: sp inv_relay [OF K])
  next
    case False
    with cw b inv show ?thesis by (simp add: sp unlock_inv_def cw_written_def quiet_clear_def)
  qed
qed

lemma inv_timer:
  assumes K: "chip_ok K" and inv: "unlock_inv K s"
  shows "unlock_inv K (timer_fires K s)"
proof -
  from inv obtain b where b: "txbuf_fff (s\<lparr>unlock_timer := None\<rparr>) = Some b"
    by (auto simp: unlock_inv_def)
  note t = timer_handler_some [OF b]
  have "cw_written K (exec (unlock_timer_handler K) (s\<lparr>unlock_timer := None\<rparr>))"
    by (rule cw_writtenI [of _ _ "get_buf_size b"]) (auto simp: t)
  then show ?thesis
    using inv chip_pcu_notin(1) [OF K] by (simp add: timer_fires_def Let_def t unlock_inv_def quiet_clear_def)
qed

lemma ustep_inv: "ustep K s t \<Longrightarrow> chip_ok K \<Longrightarrow> unlock_inv K s \<Longrightarrow> unlock_inv K t"
proof (induction rule: ustep.induct)
  case (irq s I r)
  then show ?case by (intro inv_irq)
next
  case (timer s n)
  then show ?case by (intro inv_timer)
qed (simp_all add: unlock_inv_def cw_written_def quiet_clear_def)

lemma ureach_inv: "ureach K s t \<Longrightarrow> chip_ok K \<Longrightarrow> unlock_inv K s \<Longrightarrow> unlock_inv K t"
  by (induction rule: ureach.induct) (auto intro: ustep_inv)

lemma init_inv:
  assumes "chip_ok K" "res (unlock_init K I) s = 0"
    "txbuf_fff s \<noteq> None" "\<not> driver_lock s" "quiet_clear K s"
  shows "unlock_inv K (exec (unlock_init K I) s)"
  using assms(2-) chip_pcu_notin [OF assms(1)]
  by (auto simp: unlock_inv_def cw_written_def quiet_clear_def unlock_init_ok)

section \<open>Runs of unlock signals\<close>

fun accepted_times :: "chip \<Rightarrow> irq_input list \<Rightarrow> unlock_state \<Rightarrow> int list" where
  "accepted_times K [] s = []"
| "accepted_times K (I # Is) s =
     (if accepts I s then [timespec_ns (in_now I)] else []) @
     accepted_times K Is (exec (unlock_r_irq_handler K I) s)"

fun irq_run :: "chip \<Rightarrow> irq_input list \<Rightarrow> unlock_state \<Rightarrow> unlock_state" where
  "irq_run K [] s = s"
| "irq_run K (I # Is) s = irq_run K Is (exec (unlock_r_irq_handler K I) s)"

definition ready :: "unlock_state \<Rightarrow> bool" where
  "ready s \<longleftrightarrow> txbuf_fff s \<noteq> None \<and> \<not> driver_lock s \<and> delta_ok s"

lemma irq_ready:
  assumes "ready s"
  shows "ready (exec (unlock_r_irq_handler K I) s)"
    "par_T (exec (unlock_r_irq_handler K I) s) = par_T s"
    "last_unlock (exec (unlock_r_irq_handler K I) s) =
       (if accepts I s then in_now I else last_unlock s)"
proof -
  from assms obtain b where b: "txbuf_fff s = Some b" and nl: "\<not> driver_lock s"
    and D: "delta_ok (after_cw K b s)"
    by (auto simp: ready_def)
  show "ready (exec (unlock_r_irq_handler K I) s)"
    "par_T (exec (unlock_r_irq_handler K I) s) = par_T s"
    "last_unlock (exec (unlock_r_irq_handler K I) s) =
       (if accepts I s then in_now I else last_unlock s)"
    using b D by (simp_all add: irq_split [OF nl b] relay_effect [OF D] ready_def delta_ok_def)
qed

lemma accepts_window:
  assumes "unat (par_T s) * 500 < 2 ^ 32"
  shows "accepts I s \<longleftrightarrow>
    0 \<le> timespec_ns (in_now I) - timespec_ns (last_unlock s) \<and>
    uint (par_T s) * 500 \<le> timespec_ns (in_now I) - timespec_ns (last_unlock s) \<and>
    timespec_ns (in_now I) - timespec_ns (last_unlock s) < nsec_per_sec"
  unfolding accepts_def dropped_iff [OF assms] by linarith

lemma accepted_spaced:
  "ready s \<Longrightarrow> unat (par_T s) * 500 < 2 ^ 32 \<Longrightarrow>
   successively (\<lambda>a b. uint (par_T s) * 500 \<le> b - a \<and> b - a < nsec_per_sec)
     (timespec_ns (last_unlock s) # accepted_times K Is s)"
proof (induction Is arbitrary: s)
  case Nil
  then show ?case by simp
next
  case (Cons I Is)
  note r = irq_ready [OF Cons.prems(1), of K I]
  from Cons.IH [OF r(1)] Cons.prems(2) show ?case
    by (auto simp: r(2,3) accepts_window)
qed

text \<open>A gap of a second is for ever: no later signal is accepted, none is relayed.\<close>

lemma late_dropped:
  assumes "nsec_per_sec \<le> timespec_ns (in_now I) - timespec_ns (last_unlock s)"
  shows "\<not> accepts I s"
proof -
  have "tv_sec (timespec_sub (in_now I) (last_unlock s)) \<noteq> 0"
    using assms by (simp add: tv_sec_sub_zero_iff)
  then show ?thesis by (simp add: accepts_def dropped_def)
qed

lemma dropped_utrace:
  assumes "ready s" "\<not> accepts I s"
  shows "utrace (exec (unlock_r_irq_handler K I) s) = utrace s"
    "unlock_timer (exec (unlock_r_irq_handler K I) s) = unlock_timer s"
proof -
  from assms(1) obtain b where b: "txbuf_fff s = Some b" "\<not> driver_lock s"
    by (auto simp: ready_def)
  show "utrace (exec (unlock_r_irq_handler K I) s) = utrace s"
    "unlock_timer (exec (unlock_r_irq_handler K I) s) = unlock_timer s"
    using assms(2) by (simp_all add: irq_split [OF b(2,1)])
qed

lemma late_run:
  "ready s \<Longrightarrow> (\<And>I. I \<in> set Is \<Longrightarrow> timespec_ns (last_unlock s) + nsec_per_sec \<le> timespec_ns (in_now I)) \<Longrightarrow>
   accepted_times K Is s = [] \<and> utrace (irq_run K Is s) = utrace s \<and>
   last_unlock (irq_run K Is s) = last_unlock s"
proof (induction Is arbitrary: s)
  case Nil
  then show ?case by simp
next
  case (Cons I Is)
  have na: "\<not> accepts I s" using Cons.prems(2) [of I] by (intro late_dropped) simp
  note r = irq_ready [OF Cons.prems(1), of K I] and d = dropped_utrace [OF Cons.prems(1) na, of K]
  from na r have "last_unlock (exec (unlock_r_irq_handler K I) s) = last_unlock s" by simp
  with Cons.IH [OF r(1)] Cons.prems(2) na d show ?case by simp
qed

section \<open>A concrete node\<close>

text \<open>
  A node of the experiment, used by the witnesses: the module parameters' initial values, a
  transmit buffer of twenty-five frames, nothing held.
\<close>

definition zero_time :: timespec where
  "zero_time = \<lparr>tv_sec = 0, tv_nsec = 0\<rparr>"

definition node0 :: unlock_state where
  "node0 = \<lparr>mem = (\<lambda>_. 0), nr_cpus = 1, ser_reg_mode_on = False, serial_trace = [],
     par_Delta = 100, par_T = 20000, txbuf_fff = Some (replicate 25 0), buf_counter = 0,
     has_changed = 0, last_unlock = zero_time, last_unlock_2nd = zero_time,
     unlock_timer = None, driver_lock = False, ah_unlocked = False,
     ah_last_force_quiet_restore = zero_time, ah_unlocking_logging = False,
     ah_force_quiet_bit_restore = True, ah_max_timing_count = 0, slottime_clock = 0,
     sifs_clock = 0, eifs_clock = 0, unlock_irq = 0, gpios_held = False, irq_held = False,
     utrace = []\<rparr>"

definition init0 :: init_input where
  "init0 = \<lparr>ii_now = zero_time, ii_gpio_request = 0, ii_gpio_to_irq = 54, ii_request_irq = 0\<rparr>"

definition signal_at :: "int \<Rightarrow> irq_input" where
  "signal_at ns = \<lparr>in_now = timespec_of_ns ns, in_restore = zero_time, in_rng = 30, in_backoff = 40\<rparr>"

lemma node0_simps [simp]:
  "par_Delta node0 = 100" "par_T node0 = 20000" "txbuf_fff node0 = Some (replicate 25 0)"
  "last_unlock node0 = zero_time" "\<not> driver_lock node0" "mem node0 r = 0" "ready node0"
  "delta_ok node0" "quiet_clear K node0" "\<not> gpios_held node0" "\<not> irq_held node0"
  "timespec_ns zero_time = 0"
  by (simp_all add: node0_def ready_def delta_ok_def quiet_clear_def zero_time_def timespec_ns_def)

lemma init0_ok: "res (unlock_init K init0) s = 0"
  by (simp add: unlock_init_ok_iff init0_def to_short_def)

section \<open>Properties\<close>

text \<open>
  C1: Once the module has loaded on a node whose transmit buffer the driver has exported, with
  the driver lock free and the quiet bit clear, every state that unlock interrupts, the unlock
  timer, the driver and parameter writes can reach has the driver lock free, the unlock timer
  armed, one contention window of the ladder in the registers of all eight queues, and
  \<open>AR_PCU_FORCE_QUIET_COLL\<close> clear, so the node may transmit.
\<close>

theorem unlock_reachable_invariant:
  assumes "chip_ok K" "res (unlock_init K I) s = 0"
    and "txbuf_fff s \<noteq> None" "\<not> driver_lock s" "quiet_clear K s"
    and "ureach K (exec (unlock_init K I) s) t"
  shows "\<not> driver_lock t \<and> unlock_timer t \<noteq> None \<and> cw_written K t \<and>
    mem t (AR_PCU_MISC K) AND AR_PCU_FORCE_QUIET_COLL K = 0"
  using ureach_inv [OF assms(6,1) init_inv [OF assms(1-5)]]
  by (simp add: unlock_inv_def quiet_clear_def)

theorem unlock_reachable_invariant_witness:
  "unlock_timer (timer_fires ar9331 (exec (unlock_init ar9331 init0) node0)) \<noteq> None"
proof -
  let ?s = "exec (unlock_init ar9331 init0) node0"
  have "unlock_timer ?s = Some (20000 * 1000)" by (simp add: unlock_init_ok [OF init0_ok])
  then have "ureach ar9331 ?s (timer_fires ar9331 ?s)"
    by (intro ureach.step [OF ureach.start] ustep.timer)
  from unlock_reachable_invariant [OF chip_ok_ar9331 init0_ok _ _ _ this] show ?thesis by simp
qed

text \<open>
  C12: Debounce: over any run of unlock signals on a ready node, the signals that are accepted
  (and relayed) are at least half an unlocking period apart, and less than a second.
\<close>

theorem unlock_debounce:
  assumes "ready s" "unat (par_T s) * 500 < 2 ^ 32"
  shows "successively (\<lambda>a b. uint (par_T s) * 500 \<le> b - a \<and> b - a < nsec_per_sec)
    (timespec_ns (last_unlock s) # accepted_times K Is s)"
  using assms by (rule accepted_spaced)

theorem unlock_debounce_witness:
  "successively (\<lambda>a b. 10000000 \<le> b - a \<and> b - a < nsec_per_sec)
    (0 # accepted_times ar9331 [signal_at 12000000, signal_at 13000000, signal_at 30000000] node0)"
  using unlock_debounce [of node0 ar9331 "[signal_at 12000000, signal_at 13000000, signal_at 30000000]"]
  by (simp del: accepted_times.simps)

text \<open>
  C40: A silence of one second is for ever: if every later signal comes a second or more after
  the last accepted one (as it does when time goes on), none is accepted, nothing is pulsed to
  the neighbours, and the time of the last accepted signal never changes.
\<close>

theorem unlock_gap_starves:
  assumes "ready s"
    and "\<And>I. I \<in> set Is \<Longrightarrow> timespec_ns (last_unlock s) + nsec_per_sec \<le> timespec_ns (in_now I)"
  shows "accepted_times K Is s = [] \<and> utrace (irq_run K Is s) = utrace s \<and>
    last_unlock (irq_run K Is s) = last_unlock s"
  using assms by (rule late_run)

theorem unlock_gap_starves_witness:
  "accepted_times ar9331 [signal_at 1000000000, signal_at 1020000000, signal_at 1040000000] node0 = []"
proof -
  have "timespec_ns (last_unlock node0) + nsec_per_sec \<le> timespec_ns (in_now I)"
    if "I \<in> set [signal_at 1000000000, signal_at 1020000000, signal_at 1040000000]" for I
    using that by (auto simp: signal_at_def nsec_per_sec_def)
  from unlock_gap_starves [OF node0_simps(7) this, of _ ar9331] show ?thesis by blast
qed

text \<open>
  C17: An accepted signal with a non-zero \<open>Delta + Delta\<close>: the handler returns
  \<open>IRQ_HANDLED\<close>, counts the buffer, shifts the times of the last two signals, relays one
  pulse and then waits out the back-off with the quiet bit set, clears that bit and no other,
  sets the contention registers from the buffer's length, marks the hardware unlocked, restarts
  the timer and releases the lock.
\<close>

theorem unlock_irq_accepted:
  assumes "\<not> driver_lock s" "txbuf_fff s = Some b" "accepts I s" "delta_ok s" "chip_ok K"
    and t: "t = exec (unlock_r_irq_handler K I) s"
  shows "res (unlock_r_irq_handler K I) s = Inr IRQ_HANDLED \<and>
    last_unlock t = in_now I \<and> last_unlock_2nd t = last_unlock s \<and> ah_unlocked t \<and>
    \<not> driver_lock t \<and> buf_counter t = get_buf_size b \<and>
    unlock_timer t = Some (delay_of I s * 1000) \<and>
    utrace t = Ndelay (backoff_of I s * 1000) (mem s (AR_PCU_MISC K) OR AR_PCU_FORCE_QUIET_COLL K) #
      Gpio_set 21 False # Udelay 1 # Gpio_set 21 True # utrace s \<and>
    mem t = (\<lambda>r. if r \<in> AR_DLCL_IFS K ` set cw_queues
      then ifs_value (cw_val_of (get_buf_size b))
      else if r = AR_PCU_MISC K then mem s r AND NOT (AR_PCU_FORCE_QUIET_COLL K) else mem s r)"
proof -
  have d: "delta_ok (after_cw K b s)" using assms(4) by simp
  have "res (unlock_r_irq_handler K I) s = Inr IRQ_HANDLED"
    using assms by (simp add: irq_split(2) res_relay)
  then show ?thesis
    using assms(1-3) chip_pcu_notin(1) [OF assms(5)]
    by (auto simp: t irq_split relay_effect [OF d] mem_after_cw delay_of_def backoff_of_def fun_eq_iff)
qed

theorem unlock_irq_accepted_witness:
  "unlock_timer (exec (unlock_r_irq_handler ar9331 (signal_at 12000000)) node0) = Some (19990 * 1000)"
proof -
  have a: "accepts (signal_at 12000000) node0"
    using accepts_window [of node0 "signal_at 12000000"] by (simp add: signal_at_def nsec_per_sec_def)
  have "delay_of (signal_at 12000000) node0 = 19990"
    by (simp add: delay_of_def backoff_of_def signal_at_def node0_def zero_time_def timer_delay_def
        next_period_def timespec_sub_def timespec_of_ns_def timespec_ns_def nsec_per_sec_def nsec_word_def)
  then show ?thesis
    using unlock_irq_accepted [OF node0_simps(5,3) a node0_simps(8) chip_ok_ar9331 refl] by simp
qed

text \<open>
  C18: The delay the handler arms the timer with lies between \<open>T - 4 Delta\<close> and
  \<open>T + 2 Delta\<close> microseconds, and its nanoseconds do not wrap, whenever
  \<open>4 Delta \<le> T\<close> and \<open>T + 2 Delta\<close> stays below \<open>4294967\<close> microseconds.
\<close>

theorem unlock_timer_delay_bounds:
  assumes "0 < par_Delta s" "4 * unat (par_Delta s) \<le> unat (par_T s)"
    and "unat (par_T s) + 2 * unat (par_Delta s) \<le> 4294967"
  shows "unat (par_T s) \<le> unat (delay_of I s) + 4 * unat (par_Delta s) \<and>
    unat (delay_of I s) < unat (par_T s) + 2 * unat (par_Delta s) \<and>
    unat (delay_of I s * 1000) = unat (delay_of I s) * 1000"
proof -
  have D: "unat (x mod (par_Delta s + par_Delta s)) < 2 * unat (par_Delta s)" for x
    using assms by (intro unat_mod_double) simp_all
  have b: "unat (par_T s) \<le> unat (delay_of I s) + 4 * unat (par_Delta s)"
    "unat (delay_of I s) < unat (par_T s) + 2 * unat (par_Delta s)"
    unfolding delay_of_def backoff_of_def
    using timer_delay_bounds [OF D D, of "par_T s"] assms by simp_all
  moreover have "unat (delay_of I s * 1000) = unat (delay_of I s) * 1000"
    using unat_mult_small [of "delay_of I s" 1000] b assms by simp
  ultimately show ?thesis by simp
qed

theorem unlock_timer_delay_bounds_witness:
  "unat (delay_of (signal_at 12000000) node0) < 20200"
  using unlock_timer_delay_bounds [of node0 "signal_at 12000000"] by simp

text \<open>
  With a short period the unsigned subtraction wraps: for \<open>T = 300\<close> and
  \<open>Delta = 100\<close> a signal whose random words are 199 arms the timer with a delay of over
  4294 seconds (reduced modulo 2^32 in nanoseconds); the test \<open>next_timer < 0\<close> of the
  code never holds.
\<close>

theorem unlock_delay_underflow:
  "delay_of ((signal_at 12000000)\<lparr>in_rng := 199, in_backoff := 199\<rparr>)
     (node0\<lparr>par_T := 300, last_unlock := timespec_of_ns 500000\<rparr>) = 4294967198 \<and>
   (\<forall>n b. timer_delay n b = n - b)"
  by (simp add: timer_delay_eq delay_of_def backoff_of_def node0_def zero_time_def
      next_period_def timespec_sub_def timespec_of_ns_def timespec_ns_def nsec_per_sec_def nsec_word_def)

text \<open>
  If a signal comes before the driver has exported its buffer list, the handler returns no
  value and leaves the driver lock taken: the next signal deadlocks.
\<close>

theorem unlock_null_leaks_lock:
  assumes "\<not> driver_lock s" "txbuf_fff s = None"
  shows "res (unlock_r_irq_handler K I) s = Inr Irq_no_value \<and>
    res (unlock_r_irq_handler K J) (exec (unlock_r_irq_handler K I) s) = Inl Deadlock"
  using assms by (simp add: irq_null irq_deadlock)

theorem unlock_null_leaks_lock_witness:
  "res (unlock_r_irq_handler ar9331 (signal_at 2))
     (exec (unlock_r_irq_handler ar9331 (signal_at 1)) (node0\<lparr>txbuf_fff := None\<rparr>)) = Inl Deadlock"
  using unlock_null_leaks_lock [of "node0\<lparr>txbuf_fff := None\<rparr>" ar9331 "signal_at 1" "signal_at 2"]
  by (simp add: node0_def)

text \<open>
  Both handlers program, for each of the eight queues, one window as minimum and maximum
  with an interframe space of zero: reading the register back field by field gives the window
  of the ladder for the buffer's length, and every other register keeps its value.
\<close>

theorem unlock_contention_registers:
  assumes "q \<in> set cw_queues" and "w = cw_val_of n"
  shows "ifs_cwmin (mem (exec (edit_contentionWindow K w) s) (AR_DLCL_IFS K q)) = w \<and>
    ifs_cwmax (mem (exec (edit_contentionWindow K w) s) (AR_DLCL_IFS K q)) = w \<and>
    ifs_aifs (mem (exec (edit_contentionWindow K w) s) (AR_DLCL_IFS K q)) = 0 \<and>
    (\<forall>r. r \<notin> AR_DLCL_IFS K ` set cw_queues \<longrightarrow>
      mem (exec (edit_contentionWindow K w) s) r = mem s r)"
  using assms
  by (simp add: mem_edit_contentionWindow unlock_cw.cw_fits ifs_value_fields)

theorem unlock_contention_registers_witness:
  "ifs_cwmax (mem (exec (edit_contentionWindow ar9331 (cw_val_of 25)) node0) (AR_DLCL_IFS ar9331 7)) =
     cw_val_of 25"
  using unlock_contention_registers [of 7 "cw_val_of 25" 25 ar9331 node0] by (simp add: cw_queues_def)

text \<open>
  Loading and unloading: a failed \<open>unlock_init\<close> leaves no pins, no interrupt and no timer
  behind, a successful one holds pins and interrupt and arms the timer, and
  \<open>unlock_exit\<close> gives all of them back.
\<close>

theorem unlock_load_unload:
  assumes "\<not> gpios_held s" "\<not> irq_held s" and t: "t = exec (unlock_init K I) s"
  shows "(if res (unlock_init K I) s = 0
       then gpios_held t \<and> irq_held t \<and> unlock_timer t = Some (par_T s * 1000)
       else \<not> gpios_held t \<and> \<not> irq_held t \<and> unlock_timer t = None) \<and>
     \<not> gpios_held (exec unlock_exit t) \<and> \<not> irq_held (exec unlock_exit t) \<and>
     unlock_timer (exec unlock_exit t) = None \<and> \<not> ah_unlocked (exec unlock_exit t)"
  using assms(1,2) by (simp add: t unlock_init_ok unlock_init_fail unlock_exit_def)

theorem unlock_load_unload_witness:
  "irq_held (exec (unlock_init ar9331 init0) node0) \<and>
   \<not> irq_held (exec unlock_exit (exec (unlock_init ar9331 init0) node0))"
  using unlock_load_unload [of node0 "exec (unlock_init ar9331 init0) node0" ar9331 init0] by (simp add: init0_ok)

end
