(* ===== verification/Event_Log.thy ===== *)
theory Event_Log
  imports Unlock_Module
begin

text \<open>
  The two modules that log events into an array of a thousand entries and print it once it is
  full: \<open>kernel-module/record_gpio_event.c\<close>, which logs the time of every falling edge, and
  \<open>kernel-module/unlock_with_log.c\<close>, the unlock protocol with a log of what triggered each
  relayed signal. Both keep the contract of the locale \<open>recorder\<close>. A write outside the array
  is the fault \<open>Out_of_bounds\<close>.
\<close>

section \<open>The contract of a bounded recorder\<close>

text \<open>
  \<open>entries\<close> are the entries logged so far, \<open>dumps\<close> the printed logs. A step logs its entry
  while there is room and prints the log when it has just become full.
\<close>

locale recorder =
  fixes step :: "'i \<Rightarrow> 's \<Rightarrow> 's option"
    and entry :: "'i \<Rightarrow> 'e"
    and entries :: "'s \<Rightarrow> 'e list"
    and dumps :: "'s \<Rightarrow> 'e list list"
    and ok :: "'s \<Rightarrow> bool"
    and cap :: nat
  assumes entries_le: "ok s \<Longrightarrow> length (entries s) \<le> cap"
    and step_ok: "ok s \<Longrightarrow> \<exists>s'. step i s = Some s' \<and> ok s' \<and>
      entries s' = take cap (entries s @ [entry i]) \<and>
      dumps s' = dumps s @ (if Suc (length (entries s)) = cap then [entries s @ [entry i]] else [])"
begin

lemma run_log:
  "ok s \<Longrightarrow> \<exists>s'. run_steps step is s = Some s' \<and> ok s' \<and>
     entries s' = take cap (entries s @ map entry is) \<and>
     dumps s' = dumps s @
       (if length (entries s) < cap \<and> cap \<le> length (entries s) + length is
        then [take cap (entries s @ map entry is)] else [])"
proof (induction "is" arbitrary: s)
  case Nil
  then show ?case using entries_le [of s] by auto
next
  case (Cons i "is")
  obtain s1 where s1: "step i s = Some s1" "ok s1" "entries s1 = take cap (entries s @ [entry i])"
    "dumps s1 = dumps s @ (if Suc (length (entries s)) = cap then [entries s @ [entry i]] else [])"
    using step_ok [OF Cons.prems] by blast
  from Cons.IH [OF s1(2)] obtain s' where s': "run_steps step is s1 = Some s'" "ok s'"
    "entries s' = take cap (entries s1 @ map entry is)"
    "dumps s' = dumps s1 @ (if length (entries s1) < cap \<and> cap \<le> length (entries s1) + length is
        then [take cap (entries s1 @ map entry is)] else [])" by blast
  have le: "length (entries s) \<le> cap" by (rule entries_le) (rule Cons.prems)
  consider "Suc (length (entries s)) < cap" | "Suc (length (entries s)) = cap"
    | "length (entries s) = cap" using le by linarith
  then show ?case using s1 s' by cases auto
qed

end

section \<open>\<open>record_gpio_event.c\<close>\<close>

definition RECORD_COUNT :: u32 where
  "RECORD_COUNT = 1000"

record rec_state =
  rec_records :: "timespec list"
  rec_count :: u32
  rec_printed :: "timespec list list"
  rec_lock :: bool

text \<open>An array store: \<open>None\<close> outside the array.\<close>

definition array_set :: "'a list \<Rightarrow> nat \<Rightarrow> 'a \<Rightarrow> 'a list option" where
  "array_set xs i x = (if i < length xs then Some (xs[i := x]) else None)"

definition record_irq_handler :: "timespec \<Rightarrow> (rec_state, fault + irqreturn) state" where
  "record_irq_handler now = do {
     locked \<leftarrow> gets rec_lock;
     if locked then ret (Inl Deadlock)
     else do {
       modify (\<lambda>s. s\<lparr>rec_lock := True\<rparr>);
       c \<leftarrow> gets rec_count;
       rs \<leftarrow> gets rec_records;
       if c < RECORD_COUNT then
         (case array_set rs (unat c) now of
            None \<Rightarrow> ret (Inl Out_of_bounds)
          | Some rs' \<Rightarrow> do {
              modify (\<lambda>s. s\<lparr>rec_records := rs', rec_count := c + 1\<rparr>);
              only_if (c + 1 = RECORD_COUNT)
                (modify (\<lambda>s. s\<lparr>rec_printed := rec_printed s @ [rec_records s]\<rparr>));
              modify (\<lambda>s. s\<lparr>rec_lock := False\<rparr>);
              ret (Inr IRQ_HANDLED)
            })
       else do {
         modify (\<lambda>s. s\<lparr>rec_lock := False\<rparr>);
         ret (Inr IRQ_HANDLED)
       }
     }
   }"

definition rec_entries :: "rec_state \<Rightarrow> timespec list" where
  "rec_entries s = take (unat (rec_count s)) (rec_records s)"

definition rec_ok :: "rec_state \<Rightarrow> bool" where
  "rec_ok s \<longleftrightarrow> length (rec_records s) = 1000 \<and> unat (rec_count s) \<le> 1000 \<and> \<not> rec_lock s"

definition rec_step :: "timespec \<Rightarrow> rec_state \<Rightarrow> rec_state option" where
  "rec_step now s = (case res (record_irq_handler now) s of
     Inl f \<Rightarrow> None | Inr r \<Rightarrow> Some (exec (record_irq_handler now) s))"

lemma count_less_iff: "(c :: u32) < RECORD_COUNT \<longleftrightarrow> unat c < 1000"
  by (simp add: RECORD_COUNT_def word_less_nat_alt)

lemma unat_RECORD_COUNT [simp]: "unat RECORD_COUNT = 1000"
  by (simp add: RECORD_COUNT_def)

lemma count_suc: "unat (c :: u32) < 1000 \<Longrightarrow> unat (c + 1) = Suc (unat c)"
  using unat_add_small [of c 1] by simp

lemma count_full_iff: "unat (c :: u32) < 1000 \<Longrightarrow> c + 1 = RECORD_COUNT \<longleftrightarrow> Suc (unat c) = 1000"
  unfolding word_unat_eq_iff count_suc RECORD_COUNT_def by (simp add: count_suc)

lemma take_array_set:
  "i < length xs \<Longrightarrow> take (Suc i) (xs[i := x]) = take i xs @ [x]"
  by (simp add: take_Suc_conv_app_nth)

lemma take_list_update_full:
  "length xs = Suc i \<Longrightarrow> xs[i := x] = take i xs @ [x]"
  using take_array_set [of i xs x] by simp

interpretation edge_log: recorder rec_step "\<lambda>now. now" rec_entries rec_printed rec_ok 1000
proof
  fix s assume "rec_ok s"
  then show "length (rec_entries s) \<le> 1000" by (simp add: rec_ok_def rec_entries_def)
next
  fix s now assume ok: "rec_ok s"
  then have len: "length (rec_entries s) = unat (rec_count s)" by (simp add: rec_ok_def rec_entries_def)
  show "\<exists>s'. rec_step now s = Some s' \<and> rec_ok s' \<and>
      rec_entries s' = take 1000 (rec_entries s @ [now]) \<and>
      rec_printed s' = rec_printed s @
        (if Suc (length (rec_entries s)) = 1000 then [rec_entries s @ [now]] else [])"
  proof (cases "unat (rec_count s) < 1000")
    case True
    with ok len show ?thesis
      by (auto simp: rec_step_def record_irq_handler_def array_set_def rec_ok_def rec_entries_def
          count_less_iff count_suc count_full_iff take_array_set take_list_update_full)
  next
    case False
    with ok len show ?thesis
      by (auto simp: rec_step_def record_irq_handler_def rec_ok_def rec_entries_def count_less_iff)
  qed
qed

section \<open>\<open>gpio_timeline.c\<close>\<close>

text \<open>The handler prints, under the driver lock, which edge of which pin it saw.\<close>

datatype tl_edge = Rising nat | Falling nat

record tl_state =
  tl_lock :: bool
  tl_printed :: "tl_edge list"

definition txinfo_r_irq_handler :: "nat \<Rightarrow> bool \<Rightarrow> (tl_state, fault + irqreturn) state" where
  "txinfo_r_irq_handler pin rising = do {
     locked \<leftarrow> gets tl_lock;
     if locked then ret (Inl Deadlock)
     else do {
       modify (\<lambda>s. s\<lparr>tl_lock := True\<rparr>);
       (if rising then modify (\<lambda>s. s\<lparr>tl_printed := tl_printed s @ [Rising pin]\<rparr>)
        else modify (\<lambda>s. s\<lparr>tl_printed := tl_printed s @ [Falling pin]\<rparr>));
       modify (\<lambda>s. s\<lparr>tl_lock := False\<rparr>);
       ret (Inr IRQ_HANDLED)
     }
   }"

section \<open>\<open>unlock_with_log.c\<close>\<close>

record ulog_state = reg_bus +
  w_Delta :: u32
  w_T :: u32
  w_last_unlock :: timespec
  w_last_unlock_2nd :: timespec
  w_timer :: "u32 option"    \<comment> \<open>the delay the queued timer was started with\<close>
  w_forwarded :: u32         \<comment> \<open>by how much the timer handler last moved the expiry time\<close>
  w_lock :: bool
  w_log :: "(timespec \<times> bool) list"   \<comment> \<open>time, and whether the timer triggered it\<close>
  w_count :: u32
  w_printed :: "(timespec \<times> bool) list list"
  w_trace :: "unlock_ev list"

definition w_emit :: "unlock_ev \<Rightarrow> (ulog_state, unit) state" where
  "w_emit e = modify (\<lambda>s. s\<lparr>w_trace := e # w_trace s\<rparr>)"

definition print_log :: "(ulog_state, unit) state" where
  "print_log = modify (\<lambda>s. s\<lparr>w_printed := w_printed s @ [w_log s]\<rparr>)"

text \<open>
  The block both handlers have: log the event if there is room, pulse, print a log that has
  just become full.
\<close>

definition log_event :: "timespec \<Rightarrow> bool \<Rightarrow> (ulog_state, fault option) state" where
  "log_event t by_timer = do {
     cur_count \<leftarrow> gets w_count;
     l \<leftarrow> gets w_log;
     if cur_count < RECORD_COUNT then
       (case array_set l (unat cur_count) (t, by_timer) of
          None \<Rightarrow> ret (Some Out_of_bounds)
        | Some l' \<Rightarrow> do {
            modify (\<lambda>s. s\<lparr>w_log := l', w_count := cur_count + 1\<rparr>);
            w_emit (Gpio_set 21 True);
            w_emit (Udelay 1);
            w_emit (Gpio_set 21 False);
            only_if (cur_count + 1 = RECORD_COUNT) print_log;
            ret None
          })
     else ret None
   }"

text \<open>
  The timer handler. A running timer is not queued; \<open>hrtimer_forward_now\<close> moves only its expiry
  time, by \<open>T * 1000\<close>, and the answer \<open>HRTIMER_NORESTART\<close> leaves it out of the queue.
\<close>

definition log_timer_handler :: "timespec \<Rightarrow> (ulog_state, fault + hrtimer_restart) state" where
  "log_timer_handler t = do {
     modify (\<lambda>s. s\<lparr>w_timer := None\<rparr>);
     f \<leftarrow> log_event t True;
     case f of
       Some e \<Rightarrow> ret (Inl e)
     | None \<Rightarrow> do {
         modify (\<lambda>s. s\<lparr>w_forwarded := w_T s * 1000\<rparr>);
         ret (Inr HRTIMER_NORESTART)
       }
   }"

definition log_schedule ::
  "chip \<Rightarrow> irq_input \<Rightarrow> (ulog_state, fault + irqreturn) state" where
  "log_schedule K I = do {
     Delta \<leftarrow> gets w_Delta;
     if Delta + Delta = 0 then ret (Inl Div_by_zero)
     else do {
       let rng = in_rng I mod (Delta + Delta);
       diff \<leftarrow> gets (\<lambda>s. timespec_sub (w_last_unlock s) (w_last_unlock_2nd s));
       T \<leftarrow> gets w_T;
       let next_timer = next_period T rng diff;
       modify (\<lambda>s. s\<lparr>w_last_unlock_2nd := w_last_unlock s\<rparr>);
       modify (\<lambda>s. s\<lparr>w_last_unlock := in_now I\<rparr>);
       let backoff = in_backoff I mod (Delta + Delta);
       reg_set_bit (AR_PCU_MISC K) (AR_PCU_FORCE_QUIET_COLL K);
       pcu \<leftarrow> gets (\<lambda>s. mem s (AR_PCU_MISC K));
       w_emit (Ndelay (backoff * 1000) pcu);
       reg_clr_bit (AR_PCU_MISC K) (AR_PCU_FORCE_QUIET_COLL K);
       let next_timer = timer_delay next_timer backoff;
       modify (\<lambda>s. s\<lparr>w_timer := Some (next_timer * 1000)\<rparr>);
       modify (\<lambda>s. s\<lparr>w_lock := False\<rparr>);
       ret (Inr IRQ_HANDLED)
     }
   }"

text \<open>\<open>in_restore\<close> is the time read for the log entry here.\<close>

definition log_irq_handler ::
  "chip \<Rightarrow> irq_input \<Rightarrow> (ulog_state, fault + irqreturn) state" where
  "log_irq_handler K I = do {
     locked \<leftarrow> gets w_lock;
     if locked then ret (Inl Deadlock)
     else do {
       modify (\<lambda>s. s\<lparr>w_lock := True\<rparr>);
       diff \<leftarrow> gets (\<lambda>s. timespec_sub (in_now I) (w_last_unlock s));
       T \<leftarrow> gets w_T;
       if dropped T diff then do {
         modify (\<lambda>s. s\<lparr>w_lock := False\<rparr>);
         ret (Inr IRQ_HANDLED)
       } else do {
         modify (\<lambda>s. s\<lparr>w_timer := None\<rparr>);
         f \<leftarrow> log_event (in_restore I) False;
         case f of
           Some e \<Rightarrow> ret (Inl e)
         | None \<Rightarrow> log_schedule K I
       }
     }
   }"

definition w_entries :: "ulog_state \<Rightarrow> (timespec \<times> bool) list" where
  "w_entries s = take (unat (w_count s)) (w_log s)"

definition w_ok :: "ulog_state \<Rightarrow> bool" where
  "w_ok s \<longleftrightarrow> length (w_log s) = 1000 \<and> unat (w_count s) \<le> 1000"

definition log_step :: "timespec \<times> bool \<Rightarrow> ulog_state \<Rightarrow> ulog_state option" where
  "log_step e s = (case res (log_event (fst e) (snd e)) s of
     None \<Rightarrow> Some (exec (log_event (fst e) (snd e)) s) | Some f \<Rightarrow> None)"

lemmas log_event_defs = log_event_def w_emit_def print_log_def array_set_def

interpretation unlock_log: recorder log_step "\<lambda>e. e" w_entries w_printed w_ok 1000
proof
  fix s assume "w_ok s"
  then show "length (w_entries s) \<le> 1000" by (simp add: w_ok_def w_entries_def)
next
  fix s e assume ok: "w_ok s"
  then have len: "length (w_entries s) = unat (w_count s)" by (simp add: w_ok_def w_entries_def)
  show "\<exists>s'. log_step e s = Some s' \<and> w_ok s' \<and>
      w_entries s' = take 1000 (w_entries s @ [e]) \<and>
      w_printed s' = w_printed s @
        (if Suc (length (w_entries s)) = 1000 then [w_entries s @ [e]] else [])"
  proof (cases "unat (w_count s) < 1000")
    case True
    with ok len show ?thesis
      by (auto simp: log_step_def log_event_defs w_ok_def w_entries_def
          count_less_iff count_suc count_full_iff take_array_set take_list_update_full)
  next
    case False
    with ok len show ?thesis
      by (auto simp: log_step_def log_event_defs w_ok_def w_entries_def count_less_iff)
  qed
qed

subsection \<open>The log stays in bounds in the handlers\<close>

lemma log_event_ok:
  assumes "w_ok s"
  shows "res (log_event t b) s = None" "w_ok (exec (log_event t b) s)"
    "w_lock (exec (log_event t b) s) = w_lock s" "w_Delta (exec (log_event t b) s) = w_Delta s"
    "w_T (exec (log_event t b) s) = w_T s" "w_timer (exec (log_event t b) s) = w_timer s"
    "w_trace (exec (log_event t b) s) =
       (if unat (w_count s) < 1000 then Gpio_set 21 False # Udelay 1 # Gpio_set 21 True # w_trace s
        else w_trace s)"
  using assms
  by (auto simp: log_event_defs w_ok_def count_less_iff count_suc split: if_splits)

lemma ulog_fields_more:
  assumes "reg_bus.more s = reg_bus.more t"
  shows "w_log s = w_log t" "w_count s = w_count t" "w_lock s = w_lock t" "w_trace s = w_trace t"
    "w_T s = w_T t" "w_timer s = w_timer t" "w_printed s = w_printed t" "w_Delta s = w_Delta t"
  using assms by (cases s; cases t; simp)+

lemmas ulog_frame [simp] = ulog_fields_more [OF more_iowrite(3)] ulog_fields_more [OF more_iowrite(4)]

lemma log_schedule_ok:
  assumes "w_ok s"
  shows "w_ok (exec (log_schedule K I) s)"
    "res (log_schedule K I) s = (if w_Delta s + w_Delta s = 0 then Inl Div_by_zero else Inr IRQ_HANDLED)"
    "w_Delta s + w_Delta s \<noteq> 0 \<Longrightarrow> \<not> w_lock (exec (log_schedule K I) s)"
  using assms by (auto simp: log_schedule_def Let_def w_ok_def w_emit_def)

definition ulog0 :: ulog_state where
  "ulog0 = \<lparr>mem = (\<lambda>_. 0), nr_cpus = 1, ser_reg_mode_on = False, serial_trace = [],
     w_Delta = 100, w_T = 20000, w_last_unlock = zero_time, w_last_unlock_2nd = zero_time,
     w_timer = None, w_forwarded = 0, w_lock = False, w_log = replicate 1000 (zero_time, False), w_count = 0,
     w_printed = [], w_trace = []\<rparr>"

definition rec0 :: rec_state where
  "rec0 = \<lparr>rec_records = replicate 1000 zero_time, rec_count = 0, rec_printed = [], rec_lock = False\<rparr>"

text \<open>
  From a module that starts with an empty log of a thousand entries, any sequence of
  logged events succeeds without leaving the array; the log holds the first thousand of them
  in order, and it is printed exactly once, complete, when the thousandth arrives.
\<close>

theorem unlock_log_run:
  assumes "length (w_log s) = 1000" "w_count s = 0"
  shows "\<exists>s'. run_steps log_step es s = Some s' \<and>
    take (unat (w_count s')) (w_log s') = take 1000 es \<and>
    w_printed s' = w_printed s @ (if 1000 \<le> length es then [take 1000 es] else [])"
  using assms unlock_log.run_log [of s es] by (auto simp: w_ok_def w_entries_def)

theorem unlock_log_run_witness:
  "\<exists>s'. run_steps log_step (replicate 1500 (zero_time, True)) ulog0 = Some s' \<and>
    w_printed s' = [replicate 1000 (zero_time, True)]"
proof -
  obtain s' where "run_steps log_step (replicate 1500 (zero_time, True)) ulog0 = Some s'"
    "w_printed s' = w_printed ulog0 @ [take 1000 (replicate 1500 (zero_time, True))]"
    using unlock_log_run [of ulog0 "replicate 1500 (zero_time, True)"] by (auto simp: ulog0_def)
  then show ?thesis by (auto simp: ulog0_def)
qed

text \<open>
  The same for the edge recorder: from an empty array the interrupt handler never faults,
  the array holds the times of the first thousand falling edges in order, and they are printed
  exactly once.
\<close>

theorem record_edges_run:
  assumes "length (rec_records s) = 1000" "rec_count s = 0" "\<not> rec_lock s"
  shows "\<exists>s'. run_steps rec_step ts s = Some s' \<and> \<not> rec_lock s' \<and>
    take (unat (rec_count s')) (rec_records s') = take 1000 ts \<and>
    rec_printed s' = rec_printed s @ (if 1000 \<le> length ts then [take 1000 ts] else [])"
  using assms edge_log.run_log [of s ts] by (auto simp: rec_ok_def rec_entries_def)

theorem record_edges_run_witness:
  "\<exists>s'. run_steps rec_step [zero_time, zero_time] rec0 = Some s' \<and>
    take (unat (rec_count s')) (rec_records s') = [zero_time, zero_time]"
  using record_edges_run [of rec0 "[zero_time, zero_time]"] by (auto simp: rec0_def simp del: run_steps.simps)

text \<open>
  In a state whose array and counter are in order and whose lock is free, neither handler
  of the logging unlock module leaves the array or deadlocks, and both keep the order; the
  interrupt handler releases the lock unless \<open>Delta + Delta\<close> is zero, and the timer handler
  always answers \<open>HRTIMER_NORESTART\<close> with the timer out of the queue, so only an accepted
  interrupt starts it again.
\<close>

theorem unlock_log_handlers_safe:
  assumes "length (w_log s) = 1000" "unat (w_count s) \<le> 1000" "\<not> w_lock s"
  shows "res (log_timer_handler t) s = Inr HRTIMER_NORESTART \<and>
    w_timer (exec (log_timer_handler t) s) = None \<and>
    w_ok (exec (log_timer_handler t) s) \<and> w_ok (exec (log_irq_handler K I) s) \<and>
    (if w_Delta s + w_Delta s = 0 then res (log_irq_handler K I) s \<in> {Inr IRQ_HANDLED, Inl Div_by_zero}
     else res (log_irq_handler K I) s = Inr IRQ_HANDLED \<and> \<not> w_lock (exec (log_irq_handler K I) s))"
proof -
  have ok: "w_ok (s\<lparr>w_timer := None\<rparr>)" "w_ok (s\<lparr>w_lock := True, w_timer := None\<rparr>)"
    "w_ok (s\<lparr>w_lock := False\<rparr>)" "w_ok s"
    using assms by (simp_all add: w_ok_def)
  note e = log_event_ok [OF ok(1)] log_event_ok [OF ok(2)]
  have t: "res (log_timer_handler t) s = Inr HRTIMER_NORESTART" "w_ok (exec (log_timer_handler t) s)"
    "w_timer (exec (log_timer_handler t) s) = None"
    using e(2) [of t True] by (simp_all add: log_timer_handler_def e w_ok_def)
  note sch = log_schedule_ok [OF e(9), where K = K and I = I]
  show ?thesis using t sch assms ok by (auto simp: log_irq_handler_def e w_ok_def)
qed

theorem unlock_log_handlers_safe_witness:
  "res (log_irq_handler ar9331 (signal_at 12000000)) ulog0 = Inr IRQ_HANDLED"
  using unlock_log_handlers_safe [of ulog0 zero_time ar9331 "signal_at 12000000"]
  by (simp add: ulog0_def)

text \<open>
  Once a thousand events are logged the node stops relaying: neither handler pulses the
  line any more, whatever signal arrives.
\<close>

theorem unlock_log_full_stops_relay:
  assumes "w_count s = 1000" "\<not> w_lock s"
  shows "w_trace (exec (log_timer_handler t) s) = w_trace s \<and>
    (\<forall>n b. Gpio_set n b \<in> set (w_trace (exec (log_irq_handler K I) s)) \<longrightarrow>
       Gpio_set n b \<in> set (w_trace s))"
  using assms
  by (auto simp: log_timer_handler_def log_irq_handler_def log_event_defs RECORD_COUNT_def
      log_schedule_def Let_def)

theorem unlock_log_full_stops_relay_witness:
  "w_trace (exec (log_timer_handler zero_time) (ulog0\<lparr>w_count := 1000\<rparr>)) = []"
  using unlock_log_full_stops_relay [of "ulog0\<lparr>w_count := 1000\<rparr>" zero_time ar9331 "signal_at 0"]
  by (simp add: ulog0_def)

end
