(* ===== verification/Kernel_Resources.thy ===== *)
theory Kernel_Resources
  imports Ucsma_Prelude
begin

text \<open>
  What a module or a driver holds of the kernel: a table of resources, in which giving back a
  resource that is not held is recorded in \<open>bad_release\<close>. The contract of a part that is set up
  and torn down again is the locale \<open>loadable\<close>, that of a module that always holds the same
  things is \<open>kernel_module\<close>.
\<close>

record 'r holds =
  held_res :: "'r set"
  bad_release :: bool

definition acquire :: "'r \<Rightarrow> (('r, 'z) holds_scheme, unit) state" where
  "acquire r = modify (\<lambda>s. s\<lparr>held_res := insert r (held_res s)\<rparr>)"

definition release :: "'r \<Rightarrow> (('r, 'z) holds_scheme, unit) state" where
  "release r = modify (\<lambda>s. s\<lparr>held_res := held_res s - {r},
     bad_release := (bad_release s \<or> r \<notin> held_res s)\<rparr>)"

lemmas res_defs = acquire_def release_def

definition clean :: "('r, 'z) holds_scheme \<Rightarrow> bool" where
  "clean s \<longleftrightarrow> held_res s = {} \<and> \<not> bad_release s"

section \<open>The contract\<close>

fun load_cycles :: "('i \<Rightarrow> ('s, int) state) \<Rightarrow> ('s, unit) state \<Rightarrow> 'i list \<Rightarrow> 's \<Rightarrow> 's" where
  "load_cycles ini ext [] s = s"
| "load_cycles ini ext (i # is) s =
     load_cycles ini ext is
       (if res (ini i) s = 0 then exec ext (exec (ini i) s) else exec (ini i) s)"

text \<open>
  \<open>good\<close> are the environments the contract is for. From an idle state a failed load leads to an
  idle state, a successful one to a state that is \<open>up\<close>, and unloading that to an idle one.
\<close>

locale loadable =
  fixes ini :: "'i \<Rightarrow> ('s, int) state"
    and ext :: "('s, unit) state"
    and good :: "'i \<Rightarrow> bool"
    and idle :: "'s \<Rightarrow> bool"
    and up :: "'s \<Rightarrow> bool"
  assumes load_up: "good i \<Longrightarrow> idle s \<Longrightarrow> res (ini i) s = 0 \<Longrightarrow> up (exec (ini i) s)"
    and load_fails: "good i \<Longrightarrow> idle s \<Longrightarrow> res (ini i) s \<noteq> 0 \<Longrightarrow> idle (exec (ini i) s)"
    and unload_idle: "up s \<Longrightarrow> idle (exec ext s)"
begin

lemma cycle_idle:
  assumes "good i" "idle s"
  shows "idle (if res (ini i) s = 0 then exec ext (exec (ini i) s) else exec (ini i) s)"
  using load_up [OF assms] load_fails [OF assms] unload_idle by simp

lemma cycles_idle: "idle s \<Longrightarrow> (\<And>i. i \<in> set is \<Longrightarrow> good i) \<Longrightarrow> idle (load_cycles ini ext is s)"
proof (induction "is" arbitrary: s)
  case Nil
  then show ?case by simp
next
  case (Cons i "is")
  from cycle_idle [of i s] Cons show ?case by simp
qed

end

text \<open>A module that holds \<open>full\<close> after a successful load, and nothing when it is not loaded.\<close>

locale kernel_module =
  fixes ini :: "'i \<Rightarrow> (('r, 'z) holds_scheme, int) state"
    and ext :: "(('r, 'z) holds_scheme, unit) state"
    and good :: "'i \<Rightarrow> bool"
    and full :: "'r set"
  assumes load_ok: "good i \<Longrightarrow> clean s \<Longrightarrow> res (ini i) s = 0 \<Longrightarrow>
      held_res (exec (ini i) s) = full \<and> \<not> bad_release (exec (ini i) s)"
    and load_fail: "good i \<Longrightarrow> clean s \<Longrightarrow> res (ini i) s \<noteq> 0 \<Longrightarrow> clean (exec (ini i) s)"
    and unload: "held_res s = full \<Longrightarrow> \<not> bad_release s \<Longrightarrow> clean (exec ext s)"

sublocale kernel_module \<subseteq> loadable ini ext good clean "\<lambda>s. held_res s = full \<and> \<not> bad_release s"
  by unfold_locales (use load_ok load_fail unload in blast)+

context kernel_module begin

lemmas cycles_clean = cycles_idle

end

end
