(* ===== verification/Kernel_Modules.thy ===== *)
theory Kernel_Modules
  imports Event_Log Kernel_Resources
begin

text \<open>
  Loading and unloading of the measurement modules: \<open>gpio_timeline.c\<close>,
  \<open>gpio-irq-latency-test.c\<close>, \<open>record_gpio_event.c\<close>, \<open>interrupt_test_node1.c\<close>,
  \<open>interrupt_test_node2.c\<close> and \<open>flip_quiet_coll_bit.c\<close>. The results of the kernel's request
  functions are inputs. A well-behaved module is an instance of \<open>kernel_module\<close>.
\<close>

datatype resource =
    Gpio_array | Gpio_pin nat | Irq_line nat | Timer
  | Chrdev_major | Device_class | Device_node

type_synonym kres = "resource holds"

definition kres0 :: kres where
  "kres0 = \<lparr>held_res = {}, bad_release = False\<rparr>"

lemma clean_kres0 [simp]: "clean kres0"
  by (simp add: clean_def kres0_def)

section \<open>\<open>gpio_timeline.c\<close>\<close>

record irq_env =
  e_gpio_request :: int         \<comment> \<open>\<open>gpio_request_array\<close>\<close>
  e_gpio_to_irq :: "nat \<Rightarrow> int"
  e_request_irq :: "nat \<Rightarrow> int"   \<comment> \<open>\<open>request_any_context_irq\<close>: negative, or the context (0 or 1)\<close>

text \<open>\<open>request_any_context_irq\<close> installs the handler unless it reports an error.\<close>

definition request_any_context_irq :: "irq_env \<Rightarrow> nat \<Rightarrow> (kres, int) state" where
  "request_any_context_irq E n = do {
     only_if (0 \<le> e_request_irq E n) (acquire (Irq_line n));
     ret (e_request_irq E n)
   }"

definition fail_request_gpio :: "int \<Rightarrow> (kres, int) state" where
  "fail_request_gpio r = ret r"

definition fail_req_irq1 :: "int \<Rightarrow> (kres, int) state" where
  "fail_req_irq1 r = do { release Gpio_array; fail_request_gpio r }"

definition fail_req_irq2 :: "int \<Rightarrow> (kres, int) state" where
  "fail_req_irq2 r = do { release (Irq_line 0); fail_req_irq1 r }"

definition fail_req_irq3 :: "int \<Rightarrow> (kres, int) state" where
  "fail_req_irq3 r = do { release (Irq_line 1); fail_req_irq2 r }"

definition txinfo_init :: "irq_env \<Rightarrow> (kres, int) state" where
  "txinfo_init E = do {
     let r = e_gpio_request E;
     only_if (r = 0) (acquire Gpio_array);
     if r \<noteq> 0 then fail_request_gpio r
     else if to_short (e_gpio_to_irq E 0) < 0 then fail_req_irq1 (to_short (e_gpio_to_irq E 0))
     else if to_short (e_gpio_to_irq E 1) < 0 then fail_req_irq1 (to_short (e_gpio_to_irq E 1))
     else if to_short (e_gpio_to_irq E 2) < 0 then fail_req_irq1 (to_short (e_gpio_to_irq E 2))
     else do {
       r \<leftarrow> request_any_context_irq E 0;
       if r \<noteq> 0 then fail_req_irq1 r
       else do {
         r \<leftarrow> request_any_context_irq E 1;
         if r \<noteq> 0 then fail_req_irq2 r
         else do {
           r \<leftarrow> request_any_context_irq E 2;
           if r \<noteq> 0 then fail_req_irq3 r else ret 0
         }
       }
     }
   }"

definition txinfo_exit :: "(kres, unit) state" where
  "txinfo_exit = do {
     release (Irq_line 0); release (Irq_line 1); release (Irq_line 2);
     release Gpio_array
   }"

lemmas txinfo_defs =
  txinfo_init_def txinfo_exit_def fail_request_gpio_def fail_req_irq1_def fail_req_irq2_def
  fail_req_irq3_def request_any_context_irq_def

text \<open>Environments whose interrupt lines are ordinary ones, not nested threaded ones.\<close>

definition no_nested :: "irq_env \<Rightarrow> bool" where
  "no_nested E \<longleftrightarrow> (\<forall>n \<in> {0, 1, 2}. e_request_irq E n \<le> 0)"

interpretation timeline: kernel_module txinfo_init txinfo_exit no_nested
  "{Gpio_array, Irq_line 0, Irq_line 1, Irq_line 2}"
  by unfold_locales
     (auto simp: txinfo_defs res_defs clean_def no_nested_def Let_def split: if_splits)

section \<open>\<open>gpio-irq-latency-test.c\<close>\<close>

record latency_env =
  l_request_out :: int       \<comment> \<open>\<open>gpio_request_one\<close> of the output pin\<close>
  l_request_in :: int
  l_gpio_to_irq :: int
  l_request_irq :: int

definition err_return :: "int \<Rightarrow> (kres, int) state" where
  "err_return err = ret err"

definition err_free_gpio_return :: "int \<Rightarrow> (kres, int) state" where
  "err_free_gpio_return err = do { release (Gpio_pin 21); err_return err }"

definition err_free_irq_return :: "int \<Rightarrow> (kres, int) state" where
  "err_free_irq_return err = do { release (Gpio_pin 22); err_free_gpio_return err }"

definition test_irq_latency_init_module :: "latency_env \<Rightarrow> (kres, int) state" where
  "test_irq_latency_init_module E = do {
     let err = l_request_out E;
     only_if (0 \<le> err) (acquire (Gpio_pin 21));
     if err < 0 then err_return err
     else do {
       let err = l_request_in E;
       only_if (0 \<le> err) (acquire (Gpio_pin 22));
       if err < 0 then err_free_gpio_return err
       else do {
         let err = l_gpio_to_irq E;
         if err < 0 then err_free_irq_return err
         else do {
           let err = l_request_irq E;
           only_if (0 \<le> err) (acquire (Irq_line 0));
           if err < 0 then err_free_irq_return err
           else do {
             acquire Timer;
             ret 0
           }
         }
       }
     }
   }"

definition test_irq_latency_exit_module :: "(kres, unit) state" where
  "test_irq_latency_exit_module = do {
     release Timer;
     release (Irq_line 0);
     release (Gpio_pin 22);
     release (Gpio_pin 21)
   }"

lemmas latency_module_defs =
  test_irq_latency_init_module_def test_irq_latency_exit_module_def err_return_def
  err_free_gpio_return_def err_free_irq_return_def

interpretation latency: kernel_module test_irq_latency_init_module test_irq_latency_exit_module
  "\<lambda>_. True" "{Gpio_pin 21, Gpio_pin 22, Irq_line 0, Timer}"
  by unfold_locales
     (auto simp: latency_module_defs res_defs clean_def Let_def split: if_splits)

section \<open>Modules whose failure path frees pins that were not requested\<close>

text \<open>\<open>record_gpio_event.c\<close>\<close>

definition record_fail :: "int \<Rightarrow> (kres, int) state" where
  "record_fail r = do { release Gpio_array; ret r }"

definition record_init :: "irq_env \<Rightarrow> (kres, int) state" where
  "record_init E = do {
     let r = e_gpio_request E;
     only_if (r = 0) (acquire Gpio_array);
     if r \<noteq> 0 then record_fail r
     else if to_short (e_gpio_to_irq E 0) < 0 then record_fail (to_short (e_gpio_to_irq E 0))
     else do {
       r \<leftarrow> request_any_context_irq E 0;
       if r \<noteq> 0 then record_fail r else ret 0
     }
   }"

definition record_exit :: "(kres, unit) state" where
  "record_exit = do { release (Irq_line 0); release Gpio_array }"

text \<open>\<open>interrupt_test_node2.c\<close>\<close>

definition node2_fail :: "int \<Rightarrow> (kres, int) state" where
  "node2_fail r = do { release Gpio_array; ret r }"

definition node2_init :: "irq_env \<Rightarrow> (kres, int) state" where
  "node2_init E = do {
     let r = e_gpio_request E;
     only_if (r = 0) (acquire Gpio_array);
     if r \<noteq> 0 then node2_fail r
     else if to_short (e_gpio_to_irq E 0) < 0 then node2_fail (to_short (e_gpio_to_irq E 0))
     else do {
       r \<leftarrow> request_any_context_irq E 0;
       if r \<noteq> 0 then node2_fail r else ret 0
     }
   }"

definition node2_exit :: "(kres, unit) state" where
  "node2_exit = do { release (Irq_line 0); release Gpio_array }"

text \<open>
  \<open>unlock_with_log.c\<close>: refused pins are an early return without the \<open>fail\<close> label; \<open>request_irq\<close>
  is zero or negative.
\<close>

definition ulog_fail :: "int \<Rightarrow> (kres, int) state" where
  "ulog_fail r = do { release Gpio_array; ret r }"

definition ulog_init :: "irq_env \<Rightarrow> (kres, int) state" where
  "ulog_init E = do {
     let r = e_gpio_request E;
     only_if (r = 0) (acquire Gpio_array);
     if r \<noteq> 0 then ret r
     else if to_short (e_gpio_to_irq E 0) < 0 then ulog_fail (to_short (e_gpio_to_irq E 0))
     else do {
       only_if (e_request_irq E 0 = 0) (acquire (Irq_line 0));
       if e_request_irq E 0 \<noteq> 0 then ulog_fail (e_request_irq E 0)
       else do { acquire Timer; ret 0 }
     }
   }"

definition ulog_exit :: "(kres, unit) state" where
  "ulog_exit = do { release Timer; release (Irq_line 0); release Gpio_array }"

text \<open>\<open>interrupt_test_node1.c\<close>; the input is the result of \<open>gpio_request_array\<close>.\<close>

definition node1_init :: "int \<Rightarrow> (kres, int) state" where
  "node1_init r = do {
     only_if (r = 0) (acquire Gpio_array);
     if r \<noteq> 0 then do { release Gpio_array; ret r }
     else do { acquire Timer; ret 0 }
   }"

definition node1_exit :: "(kres, unit) state" where
  "node1_exit = do { release Timer; release Gpio_array }"

text \<open>\<open>flip_quiet_coll_bit.c\<close>; the input is the result of \<open>mod_timer\<close>.\<close>

definition release_init :: "int \<Rightarrow> (kres, int) state" where
  "release_init r = do {
     acquire Timer;
     if r \<noteq> 0 then ret r else ret 0
   }"

definition release_exit :: "(kres, unit) state" where
  "release_exit = release Timer"

definition gpio_granted :: "irq_env \<Rightarrow> bool" where
  "gpio_granted E \<longleftrightarrow> e_gpio_request E = 0 \<and> e_request_irq E 0 \<le> 0"

lemmas small_module_defs =
  record_init_def record_fail_def record_exit_def node2_init_def node2_fail_def node2_exit_def
  node1_init_def node1_exit_def ulog_init_def ulog_fail_def ulog_exit_def release_init_def release_exit_def request_any_context_irq_def

interpretation record_module: kernel_module record_init record_exit gpio_granted "{Gpio_array, Irq_line 0}"
  by unfold_locales
     (auto simp: small_module_defs res_defs clean_def gpio_granted_def Let_def split: if_splits)

interpretation node2_module: kernel_module node2_init node2_exit gpio_granted "{Gpio_array, Irq_line 0}"
  by unfold_locales
     (auto simp: small_module_defs res_defs clean_def gpio_granted_def Let_def split: if_splits)

interpretation ulog_module: kernel_module ulog_init ulog_exit "\<lambda>_. True" "{Gpio_array, Irq_line 0, Timer}"
  by unfold_locales
     (auto simp: small_module_defs res_defs clean_def Let_def split: if_splits)

interpretation node1_module: kernel_module node1_init node1_exit "\<lambda>r. r = 0" "{Gpio_array, Timer}"
  by unfold_locales
     (auto simp: small_module_defs res_defs clean_def)

interpretation flip_module: kernel_module release_init release_exit "\<lambda>r. r = 0" "{Timer}"
  by unfold_locales (auto simp: small_module_defs res_defs clean_def)

section \<open>Properties\<close>

text \<open>
  However often and with whatever failures of the kernel's request functions
  \<open>gpio_timeline\<close> is loaded (and unloaded where the load succeeded), it ends up holding
  nothing and never gives back what it does not hold, provided no interrupt line is a nested
  one.
\<close>

theorem timeline_no_leak:
  assumes "\<And>E. E \<in> set Es \<Longrightarrow> no_nested E"
  shows "clean (load_cycles txinfo_init txinfo_exit Es kres0)"
  using assms by (intro timeline.cycles_clean) simp_all

theorem timeline_no_leak_witness:
  "clean (load_cycles txinfo_init txinfo_exit
     [\<lparr>e_gpio_request = 0, e_gpio_to_irq = (\<lambda>n. 50 + int n), e_request_irq = (\<lambda>n. if n = 2 then -16 else 0)\<rparr>,
      \<lparr>e_gpio_request = 0, e_gpio_to_irq = (\<lambda>n. 50 + int n), e_request_irq = (\<lambda>n. 0)\<rparr>] kres0)"
  by (rule timeline_no_leak) (auto simp: no_nested_def)

text \<open>
  The latency test and the logging unlock module keep the same contract for all results of the request functions: every
  failure path gives back exactly what was acquired before it, in the code's order of labels.
\<close>

theorem latency_no_leak:
  "clean (load_cycles test_irq_latency_init_module test_irq_latency_exit_module Es kres0) \<and>
   clean (load_cycles ulog_init ulog_exit Fs kres0)"
  using latency.cycles_clean [of kres0 Es] ulog_module.cycles_clean [of kres0 Fs] by simp

text \<open>
  When the kernel refuses the pins, \<open>record_gpio_event\<close>, \<open>interrupt_test_node1\<close> and
  \<open>interrupt_test_node2\<close> jump to a label that frees them although they are not held; when it
  grants them, their load and unload cycles are clean.
\<close>

theorem small_modules_release:
  assumes "r \<noteq> 0" "e_gpio_request E = r"
    and "\<And>F. F \<in> set Fs \<Longrightarrow> gpio_granted F"
  shows "bad_release (exec (record_init E) kres0) \<and> bad_release (exec (node2_init E) kres0) \<and>
    bad_release (exec (node1_init r) kres0) \<and>
    clean (load_cycles record_init record_exit Fs kres0) \<and>
    clean (load_cycles node2_init node2_exit Fs kres0)"
proof -
  have "clean (load_cycles record_init record_exit Fs kres0)"
    using assms(3) by (intro record_module.cycles_clean) simp_all
  moreover have "clean (load_cycles node2_init node2_exit Fs kres0)"
    using assms(3) by (intro node2_module.cycles_clean) simp_all
  ultimately show ?thesis
    using assms(1,2) by (simp add: small_module_defs res_defs kres0_def Let_def)
qed

theorem small_modules_release_witness:
  "bad_release (exec (node2_init
     \<lparr>e_gpio_request = -16, e_gpio_to_irq = (\<lambda>_. 50), e_request_irq = (\<lambda>_. 0)\<rparr>) kres0)"
  using small_modules_release [of "-16"
      "\<lparr>e_gpio_request = -16, e_gpio_to_irq = (\<lambda>_. 50), e_request_irq = (\<lambda>_. 0)\<rparr>" "[]"] by simp

text \<open>
  If \<open>request_any_context_irq\<close> reports that the first line is a nested one (a success with
  value 1), \<open>gpio_timeline\<close> takes it for a failure: the load fails with 1 and the interrupt
  handler stays installed.
\<close>

theorem timeline_nested_leak:
  assumes "e_gpio_request E = 0" "\<And>n. 0 \<le> to_short (e_gpio_to_irq E n)" "e_request_irq E 0 = 1"
  shows "res (txinfo_init E) kres0 = 1 \<and> held_res (exec (txinfo_init E) kres0) = {Irq_line 0}"
  using assms(1,3) assms(2) [of 0] assms(2) [of 1] assms(2) [of 2]
  by (auto simp: txinfo_defs res_defs kres0_def Let_def)

theorem timeline_nested_leak_witness:
  "res (txinfo_init \<lparr>e_gpio_request = 0, e_gpio_to_irq = (\<lambda>_. 50), e_request_irq = (\<lambda>_. 1)\<rparr>) kres0 = 1"
  using timeline_nested_leak [of "\<lparr>e_gpio_request = 0, e_gpio_to_irq = (\<lambda>_. 50), e_request_irq = (\<lambda>_. 1)\<rparr>"]
  by (simp add: to_short_def)

end
