(* ===== verification/Latency.thy ===== *)
theory Latency
  imports Kernel_Modules
begin

text \<open>
  The running parts of the latency tests: \<open>gpio-irq-latency-test.c\<close> (an interrupt answers the
  timer's falling edge), \<open>interrupt_test_node1.c\<close> and \<open>interrupt_test_node2.c\<close> (one node polls
  for the pulse the other returns), and the timer of \<open>flip_quiet_coll_bit.c\<close>. A store
  outside \<open>results\<close> is the fault \<open>Out_of_bounds\<close>; \<open>unsigned long\<close> has 32 bits on the target.
\<close>

section \<open>\<open>gpio-irq-latency-test.c\<close>\<close>

definition NUM_TESTS :: u32 where "NUM_TESTS = 1024"
definition MISSED_IRQ_MAX :: u32 where "MISSED_IRQ_MAX = 100"

record latency_test =
  gpio_time :: timespec
  irq_time :: timespec
  irq_fired :: bool
  irq_enabled :: bool
  results :: "u16 list"
  test_count :: u32
  avg_nsecs :: u32
  missed_irqs :: u32
  timer_armed :: bool
  gpio_level :: bool

definition test_irq_latency_interrupt_handler :: "timespec \<Rightarrow> (latency_test, irqreturn) state" where
  "test_irq_latency_interrupt_handler now = do {
     modify (\<lambda>d. d\<lparr>irq_time := now\<rparr>);
     modify (\<lambda>d. d\<lparr>irq_fired := True\<rparr>);
     modify (\<lambda>d. d\<lparr>gpio_level := True\<rparr>);
     ret IRQ_HANDLED
   }"

definition new_average :: "u32 \<Rightarrow> u32 \<Rightarrow> u32 \<Rightarrow> u32" where
  "new_average avg count ns = (avg * count + ns) div (count + 1)"

definition stop_testing :: "(latency_test, unit) state" where
  "stop_testing = do {
     en \<leftarrow> gets irq_enabled;
     only_if en (modify (\<lambda>d. d\<lparr>irq_enabled := False\<rparr>))
   }"

text \<open>
  The first half of the timer handler takes the sample and yields \<open>test_ok\<close>, the second one
  decides whether the test goes on. \<open>now\<close> is the time of the next falling edge.
\<close>

definition take_sample :: "(latency_test, fault + bool) state" where
  "take_sample = do {
     fired \<leftarrow> gets irq_fired;
     if fired then do {
       delta \<leftarrow> gets (\<lambda>d. timespec_sub (irq_time d) (gpio_time d));
       if tv_sec delta > 0 then do {
         modify (\<lambda>d. d\<lparr>missed_irqs := missed_irqs d + 1\<rparr>);
         modify (\<lambda>d. d\<lparr>irq_fired := False\<rparr>);
         ret (Inr False)
       } else do {
         modify (\<lambda>d. d\<lparr>avg_nsecs := new_average (avg_nsecs d) (test_count d) (nsec_word delta)\<rparr>);
         r \<leftarrow> gets (\<lambda>d. array_set (results d) (unat (test_count d)) (word_of_int (tv_nsec delta)));
         case r of
           None \<Rightarrow> ret (Inl Out_of_bounds)
         | Some rs \<Rightarrow> do {
             modify (\<lambda>d. d\<lparr>results := rs\<rparr>);
             modify (\<lambda>d. d\<lparr>irq_fired := False\<rparr>);
             ret (Inr True)
           }
       }
     } else do {
       modify (\<lambda>d. d\<lparr>missed_irqs := missed_irqs d + 1\<rparr>);
       ret (Inr False)
     }
   }"

definition test_irq_latency_timer_handler :: "timespec \<Rightarrow> (latency_test, fault + unit) state" where
  "test_irq_latency_timer_handler now = do {
     modify (\<lambda>d. d\<lparr>timer_armed := False\<rparr>);
     r \<leftarrow> take_sample;
     case r of
       Inl f \<Rightarrow> ret (Inl f)
     | Inr test_ok \<Rightarrow> do {
         only_if test_ok (modify (\<lambda>d. d\<lparr>test_count := test_count d + 1\<rparr>));
         finished \<leftarrow> gets (\<lambda>d. test_ok \<and> test_count d \<ge> NUM_TESTS);
         missed \<leftarrow> gets (\<lambda>d. missed_irqs d > MISSED_IRQ_MAX);
         if finished then do { stop_testing; ret (Inr ()) }
         else if missed then do { stop_testing; ret (Inr ()) }
         else do {
           modify (\<lambda>d. d\<lparr>gpio_time := now\<rparr>);
           modify (\<lambda>d. d\<lparr>gpio_level := False\<rparr>);
           modify (\<lambda>d. d\<lparr>timer_armed := True\<rparr>);
           ret (Inr ())
         }
       }
   }"

text \<open>A run: interrupts at any time, the timer only while it is armed.\<close>

datatype latency_ev = Edge timespec | Tick timespec

definition latency_step :: "latency_ev \<Rightarrow> latency_test \<Rightarrow> latency_test option" where
  "latency_step e d = (case e of
     Edge now \<Rightarrow> Some (exec (test_irq_latency_interrupt_handler now) d)
   | Tick now \<Rightarrow>
       if timer_armed d then
         (case res (test_irq_latency_timer_handler now) d of
            Inl f \<Rightarrow> None
          | Inr u \<Rightarrow> Some (exec (test_irq_latency_timer_handler now) d))
       else Some d)"

definition latency_inv :: "latency_test \<Rightarrow> bool" where
  "latency_inv d \<longleftrightarrow> length (results d) = 1024 \<and>
     (timer_armed d \<longrightarrow> unat (test_count d) < 1024 \<and> unat (missed_irqs d) \<le> 100)"

text \<open>The firings left at most.\<close>

definition firings_left :: "latency_test \<Rightarrow> nat" where
  "firings_left d =
     (if timer_armed d then (1024 - unat (test_count d)) + (100 - unat (missed_irqs d)) else 0)"

lemma limits:
  "(c :: u32) \<ge> NUM_TESTS \<longleftrightarrow> unat c \<ge> 1024" "c > MISSED_IRQ_MAX \<longleftrightarrow> unat c > 100"
  by (simp_all add: NUM_TESTS_def MISSED_IRQ_MAX_def word_le_nat_alt word_less_nat_alt)

lemma unat_inc: "unat (c :: u32) < 4294967295 \<Longrightarrow> unat (c + 1) = Suc (unat c)"
  using unat_add_small [of c 1] by simp

lemma take_sample_cases:
  assumes "length (results d) = 1024" "unat (test_count d) < 1024"
  obtains (missed) "res take_sample d = Inr False"
      "\<exists>b. exec take_sample d = d\<lparr>missed_irqs := missed_irqs d + 1, irq_fired := b\<rparr>"
    | (taken) "res take_sample d = Inr True"
      "\<exists>a v. exec take_sample d =
         d\<lparr>avg_nsecs := a, results := (results d)[unat (test_count d) := v], irq_fired := False\<rparr>"
proof (cases "irq_fired d \<and> tv_sec (timespec_sub (irq_time d) (gpio_time d)) \<le> 0")
  case True
  with assms show ?thesis
    by (intro taken) (auto simp: take_sample_def array_set_def)
next
  case False
  then show ?thesis
    by (intro missed; cases d; cases "irq_fired d") (auto simp: take_sample_def)
qed

lemma timer_handler_inv:
  assumes "latency_inv d" "timer_armed d"
  shows "res (test_irq_latency_timer_handler now) d = Inr () \<and>
    latency_inv (exec (test_irq_latency_timer_handler now) d) \<and>
    (timer_armed (exec (test_irq_latency_timer_handler now) d) \<longrightarrow>
       firings_left (exec (test_irq_latency_timer_handler now) d) < firings_left d)"
proof -
  let ?d = "d\<lparr>timer_armed := False\<rparr>"
  have len: "length (results ?d) = 1024" "unat (test_count ?d) < 1024" "unat (missed_irqs d) \<le> 100"
    using assms by (simp_all add: latency_inv_def)
  show ?thesis
  proof (rule take_sample_cases [OF len(1,2)])
    assume "res take_sample ?d = Inr False"
      "\<exists>b. exec take_sample ?d = ?d\<lparr>missed_irqs := missed_irqs ?d + 1, irq_fired := b\<rparr>"
    with assms len(3) show ?thesis
      by (auto simp: test_irq_latency_timer_handler_def stop_testing_def latency_inv_def
          firings_left_def limits unat_inc)
  next
    assume "res take_sample ?d = Inr True" "\<exists>a v. exec take_sample ?d =
      ?d\<lparr>avg_nsecs := a, results := (results ?d)[unat (test_count ?d) := v], irq_fired := False\<rparr>"
    with assms len(3) show ?thesis
      by (auto simp: test_irq_latency_timer_handler_def stop_testing_def latency_inv_def
          firings_left_def limits unat_inc)
  qed
qed

lemma latency_step_ok:
  assumes "latency_inv d"
  shows "\<exists>d'. latency_step e d = Some d' \<and> latency_inv d'"
  using assms timer_handler_inv [OF assms]
  by (auto simp: latency_step_def test_irq_latency_interrupt_handler_def latency_inv_def
      split: latency_ev.split)

lemma latency_run_ok:
  "latency_inv d \<Longrightarrow> \<exists>d'. run_steps latency_step es d = Some d' \<and> latency_inv d'"
proof (induction es arbitrary: d)
  case Nil
  then show ?case by simp
next
  case (Cons e es)
  obtain d1 where "latency_step e d = Some d1" "latency_inv d1"
    using latency_step_ok [OF Cons.prems] by blast
  with Cons.IH show ?case by simp
qed

definition is_tick :: "latency_ev \<Rightarrow> bool" where
  "is_tick e \<longleftrightarrow> (case e of Tick _ \<Rightarrow> True | Edge _ \<Rightarrow> False)"

lemma latency_step_progress:
  assumes "latency_inv d" "latency_step e d = Some d'" "timer_armed d'"
  shows "timer_armed d" "firings_left d' + (if is_tick e then 1 else 0) \<le> firings_left d"
  using assms timer_handler_inv [OF assms(1)]
  by (fastforce simp: latency_step_def test_irq_latency_interrupt_handler_def is_tick_def firings_left_def
      split: latency_ev.splits if_splits sum.splits)+

lemma latency_run_progress:
  "latency_inv d \<Longrightarrow> run_steps latency_step es d = Some d' \<Longrightarrow> timer_armed d' \<Longrightarrow>
   timer_armed d \<and> firings_left d' + length (filter is_tick es) \<le> firings_left d"
proof (induction es arbitrary: d)
  case Nil
  then show ?case by simp
next
  case (Cons e es)
  obtain d1 where d1: "latency_step e d = Some d1" "latency_inv d1"
    using latency_step_ok [OF Cons.prems(1)] by blast
  with Cons have "timer_armed d1 \<and> firings_left d' + length (filter is_tick es) \<le> firings_left d1"
    by simp
  with latency_step_progress [OF Cons.prems(1) d1(1)] show ?case by auto
qed


section \<open>\<open>interrupt_test_node1.c\<close>\<close>

definition MAX_TEST_COUNT :: u32 where "MAX_TEST_COUNT = 10000"

record node1_test =
  n1_armed :: bool
  n1_test_count :: u32
  n1_missed_count :: u32
  n1_max_count :: u32
  n1_results :: "u16 list"
  n1_avg_nsecs :: u32
  n1_min_nsecs :: u32
  n1_max_nsecs :: u32
  n1_pulses :: "bool list"     \<comment> \<open>values written to the output pin, the newest first\<close>

text \<open>
  What one firing reads: the time of the rising edge, the value of the input pin at each poll,
  and the time after the polling loop.
\<close>

record node1_input =
  n1_start :: timespec
  n1_line :: "nat \<Rightarrow> bool"
  n1_end :: timespec

text \<open>\<open>n1_poll line i\<close> is the loop variable when the loop, now at \<open>i\<close>, is left.\<close>

function n1_poll :: "(nat \<Rightarrow> bool) \<Rightarrow> nat \<Rightarrow> nat" where
  "n1_poll line i =
     (if i < 1000000 then if line i then i else n1_poll line (Suc i) else i)"
  by pat_completeness auto
termination by (relation "measure (\<lambda>(line, i). 1000000 - i)") auto

declare n1_poll.simps [simp del]

lemma n1_poll_le: "i \<le> 1000000 \<Longrightarrow> i \<le> n1_poll line i \<and> n1_poll line i \<le> 1000000"
proof (induction line i rule: n1_poll.induct)
  case (1 line i)
  then show ?case by (subst (1 2) n1_poll.simps) auto
qed

lemma n1_poll_found_iff:
  "i \<le> 1000000 \<Longrightarrow> n1_poll line i < 1000000 \<longleftrightarrow> (\<exists>j \<in> {i..<1000000}. line j)"
proof (induction line i rule: n1_poll.induct)
  case (1 line i)
  show ?case
  proof (cases "i < 1000000 \<and> \<not> line i")
    case True
    then have "{i..<1000000} = insert i {Suc i..<1000000}" by auto
    moreover have "n1_poll line i = n1_poll line (Suc i)" using True by (subst n1_poll.simps) simp
    ultimately show ?thesis using 1 True by simp
  next
    case False
    then show ?thesis using 1(2) by (subst n1_poll.simps) auto
  qed
qed

text \<open>A sample: average, maximum, minimum and the stored result, in the code's order.\<close>

definition n1_sample :: "timespec \<Rightarrow> (node1_test, fault + unit) state" where
  "n1_sample delta = do {
     let ns = nsec_word delta;
     modify (\<lambda>d. d\<lparr>n1_avg_nsecs := new_average (n1_avg_nsecs d) (n1_test_count d) ns\<rparr>);
     modify (\<lambda>d. d\<lparr>n1_max_nsecs := if ns > n1_max_nsecs d then ns else n1_max_nsecs d\<rparr>);
     modify (\<lambda>d. d\<lparr>n1_min_nsecs :=
       if ns < n1_min_nsecs d \<or> n1_min_nsecs d = 0 then ns else n1_min_nsecs d\<rparr>);
     r \<leftarrow> gets (\<lambda>d. array_set (n1_results d) (unat (n1_test_count d)) (word_of_int (tv_nsec delta)));
     case r of
       None \<Rightarrow> ret (Inl Out_of_bounds)
     | Some rs \<Rightarrow> do { modify (\<lambda>d. d\<lparr>n1_results := rs\<rparr>); ret (Inr ()) }
   }"

definition interrupt_test_node1_timer_handler :: "node1_input \<Rightarrow> (node1_test, fault + unit) state" where
  "interrupt_test_node1_timer_handler I = do {
     modify (\<lambda>d. d\<lparr>n1_armed := False\<rparr>);
     modify (\<lambda>d. d\<lparr>n1_pulses := True # n1_pulses d\<rparr>);
     modify (\<lambda>d. d\<lparr>n1_pulses := False # n1_pulses d\<rparr>);
     let i = n1_poll (n1_line I) 0;
     let delta = timespec_sub (n1_end I) (n1_start I);
     if i < 1000000 \<and> \<not> tv_sec delta > 0 then do {
       r \<leftarrow> n1_sample delta;
       case r of
         Inl f \<Rightarrow> ret (Inl f)
       | Inr u \<Rightarrow> do {
           modify (\<lambda>d. d\<lparr>n1_test_count := n1_test_count d + 1\<rparr>);
           finished \<leftarrow> gets (\<lambda>d. n1_test_count d \<ge> n1_max_count d);
           only_if (\<not> finished) (modify (\<lambda>d. d\<lparr>n1_armed := True\<rparr>));
           ret (Inr ())
         }
     } else do {
       modify (\<lambda>d. d\<lparr>n1_missed_count := n1_missed_count d + 1\<rparr>);
       modify (\<lambda>d. d\<lparr>n1_armed := True\<rparr>);
       ret (Inr ())
     }
   }"

text \<open>What \<open>unlock_init\<close> of this module leaves in the test's data for a module parameter.\<close>

definition node1_start :: "u32 \<Rightarrow> node1_test" where
  "node1_start count =
     (let m = (if count > MAX_TEST_COUNT then MAX_TEST_COUNT else count)
      in \<lparr>n1_armed = True, n1_test_count = 0, n1_missed_count = 0, n1_max_count = m,
          n1_results = replicate 10000 0, n1_avg_nsecs = 0, n1_min_nsecs = 0, n1_max_nsecs = 0,
          n1_pulses = []\<rparr>)"

definition node1_step :: "node1_input \<Rightarrow> node1_test \<Rightarrow> node1_test option" where
  "node1_step I d =
     (if n1_armed d then
        (case res (interrupt_test_node1_timer_handler I) d of
           Inl f \<Rightarrow> None
         | Inr u \<Rightarrow> Some (exec (interrupt_test_node1_timer_handler I) d))
      else Some d)"

definition answered :: "node1_input \<Rightarrow> bool" where
  "answered I \<longleftrightarrow> n1_poll (n1_line I) 0 < 1000000 \<and> tv_sec (timespec_sub (n1_end I) (n1_start I)) \<le> 0"

definition n1_sample_of :: "node1_input \<Rightarrow> u32" where
  "n1_sample_of I = nsec_word (timespec_sub (n1_end I) (n1_start I))"

definition node1_inv :: "node1_test \<Rightarrow> bool" where
  "node1_inv d \<longleftrightarrow> length (n1_results d) = 10000 \<and> unat (n1_max_count d) \<le> 10000 \<and>
     (n1_armed d \<longrightarrow> n1_test_count d = 0 \<or> n1_test_count d < n1_max_count d)"

lemma node1_inv_room: "node1_inv d \<Longrightarrow> n1_armed d \<Longrightarrow> unat (n1_test_count d) < 10000"
  by (auto simp: node1_inv_def word_less_nat_alt)

lemma n1_sample_eq:
  assumes "length (n1_results d) = 10000" "unat (n1_test_count d) < 10000"
  shows "res (n1_sample delta) d = Inr ()"
    "exec (n1_sample delta) d = d\<lparr>
       n1_avg_nsecs := new_average (n1_avg_nsecs d) (n1_test_count d) (nsec_word delta),
       n1_max_nsecs := max (n1_max_nsecs d) (nsec_word delta),
       n1_min_nsecs := (if nsec_word delta < n1_min_nsecs d \<or> n1_min_nsecs d = 0
                        then nsec_word delta else n1_min_nsecs d),
       n1_results := (n1_results d)[unat (n1_test_count d) := word_of_int (tv_nsec delta)]\<rparr>"
  using assms by (simp_all add: n1_sample_def array_set_def Let_def max_def)

lemma node1_step_missed:
  assumes "n1_armed d" "\<not> answered I"
  shows "node1_step I d = Some (d\<lparr>n1_missed_count := n1_missed_count d + 1,
     n1_pulses := False # True # n1_pulses d\<rparr>)"
  using assms
  by (cases d) (auto simp: node1_step_def interrupt_test_node1_timer_handler_def answered_def Let_def)

lemma node1_step_answered:
  assumes "node1_inv d" "n1_armed d" "answered I"
  shows "node1_step I d = Some (d\<lparr>
      n1_armed := n1_test_count d + 1 < n1_max_count d,
      n1_pulses := False # True # n1_pulses d,
      n1_avg_nsecs := new_average (n1_avg_nsecs d) (n1_test_count d) (n1_sample_of I),
      n1_max_nsecs := max (n1_max_nsecs d) (n1_sample_of I),
      n1_min_nsecs := (if n1_sample_of I < n1_min_nsecs d \<or> n1_min_nsecs d = 0
                       then n1_sample_of I else n1_min_nsecs d),
      n1_results := (n1_results d)[unat (n1_test_count d) :=
        word_of_int (tv_nsec (timespec_sub (n1_end I) (n1_start I)))],
      n1_test_count := n1_test_count d + 1\<rparr>)"
proof -
  have "length (n1_results d) = 10000" "unat (n1_test_count d) < 10000"
    using assms(1) node1_inv_room [OF assms(1,2)] by (simp_all add: node1_inv_def)
  then show ?thesis using assms
    by (cases d)
       (auto simp: node1_step_def interrupt_test_node1_timer_handler_def answered_def Let_def
         n1_sample_of_def n1_sample_eq not_less)
qed

lemma node1_step_ok:
  assumes "node1_inv d"
  shows "\<exists>d'. node1_step I d = Some d' \<and> node1_inv d'"
proof -
  consider "\<not> n1_armed d" | "n1_armed d" "\<not> answered I" | "n1_armed d" "answered I" by blast
  then show ?thesis
  proof cases
    case 1
    then show ?thesis using assms by (simp add: node1_step_def)
  next
    case 2
    then show ?thesis using assms node1_step_missed [OF 2] by (simp add: node1_inv_def)
  next
    case 3
    then show ?thesis using assms node1_step_answered [OF assms 3] by (simp add: node1_inv_def)
  qed
qed


subsection \<open>A run of node 1\<close>

text \<open>
  \<open>node1_took S d\<close>: the samples taken so far are \<open>S\<close>. At most \<open>pass_count\<close> are taken.
\<close>

definition pass_count :: "u32 \<Rightarrow> nat" where
  "pass_count m = max 1 (unat m)"

definition node1_took :: "u32 list \<Rightarrow> node1_test \<Rightarrow> bool" where
  "node1_took S d \<longleftrightarrow> node1_inv d \<and> unat (n1_test_count d) = length S \<and>
     length S \<le> pass_count (n1_max_count d) \<and>
     (n1_armed d \<longleftrightarrow> length S < pass_count (n1_max_count d)) \<and>
     n1_max_nsecs d = Max (set (0 # S)) \<and>
     ((\<forall>x \<in> set S. 0 < x) \<longrightarrow> n1_min_nsecs d = (if S = [] then 0 else Min (set S)))"

definition node1_samples :: "node1_input list \<Rightarrow> u32 list" where
  "node1_samples Is = map n1_sample_of (filter answered Is)"

lemma Max_snoc_word: "Max (set (0 # (S @ [x :: u32]))) = max (Max (set (0 # S))) x"
proof -
  have "set (0 # (S @ [x])) = insert x (set (0 # S))" by auto
  then show ?thesis using Max_insert [of "set (0 # S)" x] by (simp only: max.commute) simp
qed

lemma Min_snoc_word: "S \<noteq> [] \<Longrightarrow> Min (set (S @ [x :: u32])) = min (Min (set S)) x"
  by (simp add: min.commute)

lemma Min_pos: "S \<noteq> [] \<Longrightarrow> \<forall>x \<in> set S. 0 < (x :: u32) \<Longrightarrow> Min (set S) \<noteq> 0"
  by (metis List.finite_set Min_in less_irrefl set_empty)

lemma pass_count_less:
  "unat c = n \<Longrightarrow> n < pass_count m \<Longrightarrow> n < 10000 \<Longrightarrow>
   (c + 1 < m) = (Suc n < pass_count m) \<and> unat (c + 1) = Suc n"
  by (auto simp: pass_count_def word_less_nat_alt unat_inc)

lemma node1_took_step:
  assumes "node1_took S d"
  shows "\<exists>d'. node1_step I d = Some d' \<and> n1_max_count d' = n1_max_count d \<and>
    node1_took (if answered I \<and> length S < pass_count (n1_max_count d)
                then S @ [n1_sample_of I] else S) d'"
proof -
  have inv: "node1_inv d" using assms by (simp add: node1_took_def)
  obtain d' where d': "node1_step I d = Some d'" "node1_inv d'" using node1_step_ok [OF inv] by blast
  consider "\<not> n1_armed d" | "n1_armed d" "\<not> answered I" | "n1_armed d" "answered I" by blast
  then show ?thesis
  proof cases
    case 1
    then show ?thesis using assms by (simp add: node1_step_def node1_took_def)
  next
    case 2
    then show ?thesis using assms d' node1_step_missed [OF 2] by (auto simp: node1_took_def)
  next
    case 3
    let ?x = "n1_sample_of I"
    have less: "length S < pass_count (n1_max_count d)" and room: "length S < 10000"
      using assms 3 node1_inv_room [OF inv 3(1)] by (simp_all add: node1_took_def)
    have min: "(if ?x < n1_min_nsecs d \<or> n1_min_nsecs d = 0 then ?x else n1_min_nsecs d) = Min (set (S @ [?x]))"
      if "\<forall>x \<in> set (S @ [?x]). 0 < x"
    proof (cases "S = []")
      case True
      then show ?thesis using assms that by (simp add: node1_took_def)
    next
      case False
      have "(if x < m \<or> m = 0 then x else m) = min m x" if "m \<noteq> 0" for m x :: u32
        using that by (auto simp: min_def)
      moreover have "n1_min_nsecs d = Min (set S)" using assms that False by (simp add: node1_took_def)
      ultimately show ?thesis using that Min_pos [OF False] unfolding Min_snoc_word [OF False]
        by simp
    qed
    have max: "max (n1_max_nsecs d) ?x = Max (set (0 # (S @ [?x])))"
      unfolding Max_snoc_word using assms by (simp add: node1_took_def)
    from d' node1_step_answered [OF inv 3] have eq: "n1_max_nsecs d' = max (n1_max_nsecs d) ?x"
      "n1_min_nsecs d' = (if ?x < n1_min_nsecs d \<or> n1_min_nsecs d = 0 then ?x else n1_min_nsecs d)"
      "n1_test_count d' = n1_test_count d + 1" "n1_max_count d' = n1_max_count d"
      "n1_armed d' = (n1_test_count d + 1 < n1_max_count d)"
      by auto
    have "unat (n1_test_count d) = length S" using assms by (simp add: node1_took_def)
    from pass_count_less [OF this less room]
    have "node1_took (S @ [?x]) d'"
      unfolding node1_took_def eq max using d'(2) less min by auto
    then show ?thesis using 3 less d' eq by simp
  qed
qed

lemma node1_took_run:
  "node1_took S d \<Longrightarrow> \<exists>d'. run_steps node1_step Is d = Some d' \<and> n1_max_count d' = n1_max_count d \<and>
     node1_took (S @ take (pass_count (n1_max_count d) - length S) (node1_samples Is)) d'"
proof (induction Is arbitrary: S d)
  case Nil
  then show ?case by (simp add: node1_samples_def)
next
  case (Cons I Is)
  let ?S = "if answered I \<and> length S < pass_count (n1_max_count d) then S @ [n1_sample_of I] else S"
  obtain d1 where d1: "node1_step I d = Some d1" "n1_max_count d1 = n1_max_count d" "node1_took ?S d1"
    using node1_took_step [OF Cons.prems] by blast
  have split: "take (N - k) (x # xs) = x # take (N - Suc k) xs" if "k < N" for N k and x :: u32 and xs
    using that by (auto simp: take_Cons' Suc_diff_Suc)
  from Cons.IH [OF d1(3)] d1(1,2) show ?case
    by (auto simp: node1_samples_def split split: if_splits)
qed

lemma node1_start_took: "node1_took [] (node1_start c)"
  by (auto simp: node1_took_def node1_inv_def node1_start_def Let_def pass_count_def MAX_TEST_COUNT_def
      word_le_nat_alt word_less_nat_alt)

subsection \<open>The average\<close>

lemma unat_new_average:
  assumes "unat a * unat c + unat x < 2 ^ 32" "unat c < 2 ^ 32 - 1"
  shows "unat (new_average a c x) = (unat a * unat c + unat x) div (unat c + 1)"
proof -
  have "unat a * unat c < 2 ^ 32" using assms(1) by simp
  then have ac: "unat (a * c) = unat a * unat c" by (intro unat_mult_small) simp
  then have "unat (a * c + x) = unat a * unat c + unat x" using assms(1) by (subst unat_add_small) simp_all
  moreover have "unat (c + 1) = unat c + 1" using unat_inc [of c] assms(2) by simp
  ultimately show ?thesis by (simp add: new_average_def unat_div)
qed

lemma avg_between:
  fixes a c x lo hi :: nat
  assumes "c = 0 \<or> lo \<le> a" "c = 0 \<or> a \<le> hi" "lo \<le> x" "x \<le> hi"
  shows "lo \<le> (a * c + x) div (c + 1) \<and> (a * c + x) div (c + 1) \<le> hi"
proof -
  have "lo * c \<le> a * c" "a * c \<le> hi * c" using assms(1,2) by auto
  then have "lo * (c + 1) \<le> a * c + x" "a * c + x \<le> hi * (c + 1)"
    using assms(3,4) by (simp_all only: distrib_left mult_1_right)
  then have "lo * (c + 1) div (c + 1) \<le> (a * c + x) div (c + 1)"
    "(a * c + x) div (c + 1) \<le> hi * (c + 1) div (c + 1)"
    by (simp_all only: div_le_mono)
  moreover have "c + 1 \<noteq> 0" by simp
  ultimately show ?thesis by (metis nonzero_mult_div_cancel_right)
qed


definition avg_within :: "nat \<Rightarrow> nat \<Rightarrow> node1_test \<Rightarrow> bool" where
  "avg_within lo hi d \<longleftrightarrow> n1_test_count d = 0 \<or>
     (lo \<le> unat (n1_avg_nsecs d) \<and> unat (n1_avg_nsecs d) \<le> hi)"

lemma avg_within_step:
  assumes "node1_inv d" "avg_within lo hi d" "n1_test_count d = 0 \<longrightarrow> n1_avg_nsecs d = 0" "hi * 10000 < 2 ^ 32"
    and "answered I \<Longrightarrow> lo \<le> unat (n1_sample_of I) \<and> unat (n1_sample_of I) \<le> hi"
    and "node1_step I d = Some d'"
  shows "avg_within lo hi d' \<and> (n1_test_count d' = 0 \<longrightarrow> n1_avg_nsecs d' = 0)"
proof (cases "n1_armed d \<and> answered I")
  case True
  let ?a = "unat (n1_avg_nsecs d)" and ?c = "unat (n1_test_count d)" and ?x = "unat (n1_sample_of I)"
  have c: "?c < 10000" using node1_inv_room [OF assms(1)] True by simp
  have x: "lo \<le> ?x" "?x \<le> hi" using assms(5) True by simp_all
  have a: "?c = 0 \<or> lo \<le> ?a" "?c = 0 \<or> ?a \<le> hi"
    using assms(2) by (auto simp: avg_within_def unat_eq_zero)
  have "?a * ?c \<le> hi * ?c" using a(2) by auto
  then have "?a * ?c + ?x \<le> hi * (?c + 1)" using x unfolding distrib_left by linarith
  also have "\<dots> \<le> hi * 10000" using c by (intro mult_left_mono) simp_all
  also note assms(4)
  finally have "unat (new_average (n1_avg_nsecs d) (n1_test_count d) (n1_sample_of I)) = (?a * ?c + ?x) div (?c + 1)"
    using c by (intro unat_new_average) simp_all
  moreover have "n1_avg_nsecs d' = new_average (n1_avg_nsecs d) (n1_test_count d) (n1_sample_of I)"
    "n1_test_count d' = n1_test_count d + 1"
    using node1_step_answered [OF assms(1)] True assms(6) by auto
  moreover have "n1_test_count d + 1 \<noteq> 0" using unat_inc [of "n1_test_count d"] c by auto
  ultimately show ?thesis using avg_between [OF a x] by (simp add: avg_within_def)
next
  case False
  then show ?thesis
    using assms(2,3,6) node1_step_missed [of d I] by (auto simp: avg_within_def node1_step_def split: if_splits)
qed

lemma avg_within_run:
  "node1_inv d \<Longrightarrow> avg_within lo hi d \<Longrightarrow> (n1_test_count d = 0 \<longrightarrow> n1_avg_nsecs d = 0) \<Longrightarrow>
   hi * 10000 < 2 ^ 32 \<Longrightarrow>
   (\<And>I. I \<in> set Is \<Longrightarrow> answered I \<Longrightarrow> lo \<le> unat (n1_sample_of I) \<and> unat (n1_sample_of I) \<le> hi) \<Longrightarrow>
   run_steps node1_step Is d = Some d' \<Longrightarrow> avg_within lo hi d'"
proof (induction Is arbitrary: d)
  case Nil
  then show ?case by simp
next
  case (Cons I Is)
  obtain d1 where d1: "node1_step I d = Some d1" "node1_inv d1"
    using node1_step_ok [OF Cons.prems(1)] by blast
  have "avg_within lo hi d1 \<and> (n1_test_count d1 = 0 \<longrightarrow> n1_avg_nsecs d1 = 0)"
    by (rule avg_within_step [OF Cons.prems(1-4) _ d1(1)]) (use Cons.prems(5) in auto)
  with Cons.IH [OF d1(2)] Cons.prems d1(1) show ?case by simp
qed

section \<open>The answering node and the quiet-bit timer\<close>

text \<open>
  \<open>interrupt_test_node2.c\<close>: \<open>jiffies\<close> is read twice, before and after the pulse, and its
  difference to \<open>last_interrupt_time\<close> is unsigned.
\<close>

record node2_state =
  n2_last :: u32
  n2_lock :: bool
  n2_trace :: "unlock_ev list"

definition node2_irq_handler :: "u32 \<Rightarrow> u32 \<Rightarrow> (node2_state, fault + irqreturn) state" where
  "node2_irq_handler jiffies jiffies' = do {
     last_time \<leftarrow> gets n2_last;
     locked \<leftarrow> gets n2_lock;
     if jiffies - last_time \<le> 1 then ret (Inr IRQ_HANDLED)
     else if locked then ret (Inl Deadlock)
     else do {
       modify (\<lambda>s. s\<lparr>n2_lock := True\<rparr>);
       modify (\<lambda>s. s\<lparr>n2_trace := Gpio_set 21 True # n2_trace s\<rparr>);
       modify (\<lambda>s. s\<lparr>n2_trace := Udelay 1 # n2_trace s\<rparr>);
       modify (\<lambda>s. s\<lparr>n2_trace := Gpio_set 21 False # n2_trace s\<rparr>);
       modify (\<lambda>s. s\<lparr>n2_lock := False\<rparr>);
       modify (\<lambda>s. s\<lparr>n2_last := jiffies'\<rparr>);
       ret (Inr IRQ_HANDLED)
     }
   }"

text \<open>
  \<open>flip_quiet_coll_bit.c\<close>: the timer opens the gate for \<open>release_duration\<close> microseconds. The
  trace records the register while the delay runs.
\<close>

record flip_state = reg_bus +
  f_last_interrupt_tx :: timespec
  f_armed :: bool
  f_delays :: "(u32 \<times> u32) list"

definition release_force_quiet_coll :: "chip \<Rightarrow> timespec \<Rightarrow> u32 \<Rightarrow> (flip_state, unit) state" where
  "release_force_quiet_coll K now release_duration = do {
     modify (\<lambda>s. s\<lparr>f_armed := False\<rparr>);
     modify (\<lambda>s. s\<lparr>f_last_interrupt_tx := now\<rparr>);
     reg_clr_bit (AR_PCU_MISC K) (AR_PCU_FORCE_QUIET_COLL K);
     pcu \<leftarrow> gets (\<lambda>s. mem s (AR_PCU_MISC K));
     modify (\<lambda>s. s\<lparr>f_delays := (release_duration, pcu) # f_delays s\<rparr>);
     reg_set_bit (AR_PCU_MISC K) (AR_PCU_FORCE_QUIET_COLL K);
     modify (\<lambda>s. s\<lparr>f_armed := True\<rparr>);
     ret ()
   }"


section \<open>Properties\<close>

definition latency0 :: latency_test where
  "latency0 = \<lparr>gpio_time = zero_time, irq_time = zero_time, irq_fired = False, irq_enabled = True,
     results = replicate 1024 0, test_count = 0, avg_nsecs = 0, missed_irqs = 0,
     timer_armed = True, gpio_level = False\<rparr>"

text \<open>
  C34: From a test that has just been started, any interleaving of interrupts and timer firings
  runs without a store outside the thousand and twenty-four results, and the test is over (the
  timer is not armed again) after at most 1124 firings, however many interrupts are missed.
\<close>

theorem latency_test_ends:
  assumes "length (results d) = 1024" "test_count d = 0" "missed_irqs d = 0" "timer_armed d"
  shows "\<exists>d'. run_steps latency_step es d = Some d' \<and> length (results d') = 1024 \<and>
    (1124 \<le> length (filter is_tick es) \<longrightarrow> \<not> timer_armed d')"
proof -
  have inv: "latency_inv d" using assms by (simp add: latency_inv_def)
  obtain d' where d': "run_steps latency_step es d = Some d'" "latency_inv d'"
    using latency_run_ok [OF inv] by blast
  moreover have "firings_left d = 1124" using assms by (simp add: firings_left_def)
  moreover have "timer_armed d' \<Longrightarrow> 0 < firings_left d'" using d'(2) by (simp add: firings_left_def latency_inv_def)
  ultimately show ?thesis
    using latency_run_progress [OF inv d'(1)] by (auto simp: latency_inv_def)
qed

theorem latency_test_ends_witness:
  "\<exists>d'. run_steps latency_step (replicate 2000 (Tick zero_time)) latency0 = Some d' \<and> \<not> timer_armed d'"
  using latency_test_ends [of latency0 "replicate 2000 (Tick zero_time)"]
  by (auto simp: latency0_def is_tick_def simp del: run_steps.simps)

text \<open>
  Node 1, loaded with any \<open>test_count\<close>, never stores outside its ten thousand results: the
  clamp of \<open>unlock_init\<close> is enough. It takes the answered firings in order until it has
  \<open>max 1 (min test_count 10000)\<close> of them, is re-armed exactly as long as it has fewer, and
  its maximum is the largest of those samples; if no sample is zero its minimum is the
  smallest of them.
\<close>

theorem node1_run_statistics:
  "\<exists>d'. run_steps node1_step Is (node1_start c) = Some d' \<and> length (n1_results d') = 10000 \<and>
    (let N = max 1 (min (unat c) 10000);
         S = take N (map n1_sample_of (filter answered Is))
     in unat (n1_test_count d') = length S \<and> n1_armed d' = (length S < N) \<and>
        n1_max_nsecs d' = Max (set (0 # S)) \<and>
        (0 \<notin> set S \<longrightarrow> n1_min_nsecs d' = (if S = [] then 0 else Min (set S))))"
proof -
  have N: "pass_count (n1_max_count (node1_start c)) = max 1 (min (unat c) 10000)"
    by (auto simp: pass_count_def node1_start_def Let_def MAX_TEST_COUNT_def word_less_nat_alt)
  define M where "M = max 1 (min (unat c) 10000)"
  define S where "S = take M (map n1_sample_of (filter answered Is))"
  obtain d' where d': "run_steps node1_step Is (node1_start c) = Some d'"
    "pass_count (n1_max_count d') = M" "node1_took S d'"
    using node1_took_run [OF node1_start_took, of Is c] N
    unfolding M_def S_def node1_samples_def by auto
  have "\<forall>x \<in> set S. 0 < x" if "0 \<notin> set S"
    using that by (metis word_gt_0)
  with d' have "length (n1_results d') = 10000 \<and> unat (n1_test_count d') = length S \<and>
      n1_armed d' = (length S < M) \<and> n1_max_nsecs d' = Max (set (0 # S)) \<and>
      (0 \<notin> set S \<longrightarrow> n1_min_nsecs d' = (if S = [] then 0 else Min (set S)))"
    unfolding node1_took_def node1_inv_def by blast
  with d'(1) show ?thesis unfolding Let_def M_def [symmetric] S_def [symmetric] by blast
qed

definition pulse_reply :: "int \<Rightarrow> node1_input" where
  "pulse_reply ns = \<lparr>n1_start = zero_time, n1_line = (\<lambda>_. True), n1_end = timespec_of_ns ns\<rparr>"

lemma pulse_reply_answered:
  "answered (pulse_reply 7000)" "n1_sample_of (pulse_reply 7000) = 7000"
  by (simp_all add: answered_def pulse_reply_def n1_sample_of_def nsec_word_def timespec_sub_def
      timespec_of_ns_def timespec_ns_def zero_time_def nsec_per_sec_def n1_poll.simps)

theorem node1_run_statistics_witness:
  "\<exists>d'. run_steps node1_step (replicate 5 (pulse_reply 7000)) (node1_start 3) = Some d' \<and>
     \<not> n1_armed d' \<and> n1_min_nsecs d' = 7000 \<and> n1_max_nsecs d' = 7000"
  using node1_run_statistics [of "replicate 5 (pulse_reply 7000)" 3]
  by (auto simp: pulse_reply_answered Let_def simp del: run_steps.simps)

text \<open>
  If every answered firing of node 1 measures between \<open>lo\<close> and \<open>hi\<close> nanoseconds and
  \<open>hi\<close> is at most 429496, the running average, kept in 32 bits, stays between \<open>lo\<close> and \<open>hi\<close> once
  there is a sample.
\<close>

theorem node1_average_bounds:
  assumes "\<And>I. I \<in> set Is \<Longrightarrow> answered I \<Longrightarrow> lo \<le> unat (n1_sample_of I) \<and> unat (n1_sample_of I) \<le> hi"
    and "hi \<le> 429496" "run_steps node1_step Is (node1_start c) = Some d" "n1_test_count d \<noteq> 0"
  shows "lo \<le> unat (n1_avg_nsecs d) \<and> unat (n1_avg_nsecs d) \<le> hi"
proof -
  have "node1_inv (node1_start c)" using node1_start_took [of c] by (simp add: node1_took_def)
  moreover have "avg_within lo hi (node1_start c)" "n1_avg_nsecs (node1_start c) = 0"
    by (simp_all add: avg_within_def node1_start_def Let_def)
  ultimately have "avg_within lo hi d"
    using assms(1-3) by (intro avg_within_run [of "node1_start c" lo hi Is d]) auto
  then show ?thesis using assms(4) by (simp add: avg_within_def)
qed

theorem node1_average_bounds_witness:
  "\<exists>d. run_steps node1_step (replicate 5 (pulse_reply 7000)) (node1_start 3) = Some d \<and>
     7000 \<le> unat (n1_avg_nsecs d) \<and> unat (n1_avg_nsecs d) \<le> 7000"
proof -
  let ?Is = "replicate 5 (pulse_reply 7000)"
  have "\<exists>d. run_steps node1_step ?Is (node1_start 3) = Some d \<and> node1_took (take 3 (node1_samples ?Is)) d"
    using node1_took_run [OF node1_start_took, of ?Is 3]
    by (auto simp: node1_start_def Let_def MAX_TEST_COUNT_def pass_count_def simp del: run_steps.simps)
  then obtain d where d: "run_steps node1_step ?Is (node1_start 3) = Some d"
    "node1_took (take 3 (node1_samples ?Is)) d" by blast
  then have "n1_test_count d \<noteq> 0"
    by (auto simp: node1_took_def node1_samples_def pulse_reply_answered simp del: run_steps.simps)
  with node1_average_bounds [of ?Is 7000 7000 3 d] d(1) show ?thesis
    by (auto simp: pulse_reply_answered simp del: run_steps.simps)
qed

text \<open>
  Beyond that bound the product in the running average wraps: five thousand samples of one
  millisecond and one more give an average of about 141 microseconds.
\<close>

theorem node1_average_wraps:
  "unat (new_average 1000000 5000 1000000) = 141178"
  by (simp add: new_average_def)

text \<open>
  A line that never answers: node 1 counts every firing as missed and is always re-armed;
  unlike the latency test it has no limit after which it gives up.
\<close>

theorem node1_unanswered_forever:
  assumes "n1_armed d" "\<And>I. I \<in> set Is \<Longrightarrow> \<forall>i < 1000000. \<not> n1_line I i"
  shows "\<exists>d'. run_steps node1_step Is d = Some d' \<and> n1_armed d' \<and> n1_test_count d' = n1_test_count d \<and>
    n1_missed_count d' = n1_missed_count d + of_nat (length Is)"
  using assms
proof (induction Is arbitrary: d)
  case Nil
  then show ?case by simp
next
  case (Cons I Is)
  have "\<not> answered I" using Cons.prems(2) [of I] n1_poll_found_iff [of 0 "n1_line I"] by (auto simp: answered_def)
  from node1_step_missed [OF Cons.prems(1) this] Cons.prems
    Cons.IH [of "d\<lparr>n1_missed_count := n1_missed_count d + 1, n1_pulses := False # True # n1_pulses d\<rparr>"]
  show ?case by (auto simp: algebra_simps)
qed

theorem node1_unanswered_forever_witness:
  "\<exists>d'. run_steps node1_step (replicate 20 \<lparr>n1_start = zero_time, n1_line = (\<lambda>_. False), n1_end = zero_time\<rparr>)
     (node1_start 10) = Some d' \<and> n1_armed d' \<and> n1_missed_count d' = 20"
  using node1_unanswered_forever [of "node1_start 10"
      "replicate 20 \<lparr>n1_start = zero_time, n1_line = (\<lambda>_. False), n1_end = zero_time\<rparr>"]
  by (auto simp: node1_start_def Let_def simp del: run_steps.simps)

text \<open>
  Node 2 answers a falling edge with one pulse, unless the edge comes within one jiffy of
  the end of the last answered one: then nothing changes. With its lock free it never
  deadlocks and leaves the lock free.
\<close>

theorem node2_answers:
  assumes "\<not> n2_lock s"
  shows "res (node2_irq_handler j j') s = Inr IRQ_HANDLED \<and>
    exec (node2_irq_handler j j') s =
      (if j - n2_last s \<le> 1 then s
       else s\<lparr>n2_last := j', n2_trace := Gpio_set 21 False # Udelay 1 # Gpio_set 21 True # n2_trace s\<rparr>)"
  using assms by (cases s) (auto simp: node2_irq_handler_def)

theorem node2_answers_witness:
  "exec (node2_irq_handler 10 10) \<lparr>n2_last = 9, n2_lock = False, n2_trace = []\<rparr> =
     \<lparr>n2_last = 9, n2_lock = False, n2_trace = []\<rparr>"
  using node2_answers [of "\<lparr>n2_last = 9, n2_lock = False, n2_trace = []\<rparr>" 10 10] by simp

text \<open>
  The quiet-bit timer opens the gate exactly while its delay runs: during the delay the
  force-quiet bit reads clear, afterwards it is set, all other bits and registers are kept,
  and the timer is armed again.
\<close>

theorem flip_opens_gate:
  "let q = AR_PCU_FORCE_QUIET_COLL K; r = AR_PCU_MISC K; s' = exec (release_force_quiet_coll K now d) s
   in mem s' = (mem s)(r := mem s r OR q) \<and> f_armed s' \<and> f_last_interrupt_tx s' = now \<and>
      f_delays s' = (d, mem s r AND NOT q) # f_delays s \<and> (mem s r AND NOT q) AND q = 0"
proof -
  have f: "f_armed a = f_armed b" "f_delays a = f_delays b" "f_last_interrupt_tx a = f_last_interrupt_tx b"
    if "reg_bus.more a = reg_bus.more b" for a b :: flip_state
    using that by (cases a; cases b; simp)+
  show ?thesis
    by (simp add: release_force_quiet_coll_def Let_def f [OF more_iowrite(3)] f [OF more_iowrite(4)]
        bit_and_not_self) (rule ext, auto intro!: bit_word_eqI simp: bit_simps)
qed

end
