(* ===== verification/Radiotap.thy ===== *)
theory Radiotap
  imports Ucsma_Prelude
begin

text \<open>
  The radiotap header iterator of \<open>packetspammer/radiotap.c\<close>. The memory from the start of the
  header on is a list of bytes, a pointer into it is its offset from that start. Reading
  outside the list, outside the table of sizes or through the bitmap pointer that nothing ever
  sets is a fault. Fields are little endian.
\<close>

section \<open>Memory and the header\<close>

datatype rt_fault = Bad_memory | Bad_table | Bad_bitmap

definition rd8 :: "u8 list \<Rightarrow> nat \<Rightarrow> rt_fault + nat" where
  "rd8 m i = (if i < length m then Inr (unat (m ! i)) else Inl Bad_memory)"

definition le16_to_cpu :: "u8 list \<Rightarrow> nat \<Rightarrow> rt_fault + nat" where
  "le16_to_cpu m i =
     (if i + 2 \<le> length m then Inr (unat (m ! i) + 256 * unat (m ! (i + 1))) else Inl Bad_memory)"

definition le32_to_cpu :: "u8 list \<Rightarrow> nat \<Rightarrow> rt_fault + u32" where
  "le32_to_cpu m i =
     (if i + 4 \<le> length m then
        Inr (ucast (m ! i) OR push_bit 8 (ucast (m ! (i + 1))) OR push_bit 16 (ucast (m ! (i + 2))) OR
             push_bit 24 (ucast (m ! (i + 3))))
      else Inl Bad_memory)"

text \<open>\<open>struct ieee80211_radiotap_header\<close>: the offsets of its fields and its size.\<close>

definition it_version :: nat where "it_version = 0"
definition it_len :: nat where "it_len = 2"
definition it_present :: nat where "it_present = 4"
definition sizeof_header :: nat where "sizeof_header = 8"

definition RADIOTAP_EXT :: nat where "RADIOTAP_EXT = 31"

record iterator =
  max_length :: nat
  this_arg_index :: nat
  this_arg :: "nat option"
  arg_index :: nat
  arg :: nat
  next_bitmap :: "nat option"
  bitmap_shifter :: u32

section \<open>\<open>ieee80211_radiotap_iterator_init\<close>\<close>

text \<open>
  The loop over the extended bitmaps: \<open>Inr None\<close> is the early return with \<open>-EINVAL\<close>,
  \<open>Inr (Some a)\<close> the position of the first bitmap without the extension bit.
\<close>

function ext_walk :: "u8 list \<Rightarrow> nat \<Rightarrow> nat \<Rightarrow> rt_fault + nat option" where
  "ext_walk m mx a =
     (case le32_to_cpu m a of
        Inl f \<Rightarrow> Inl f
      | Inr w \<Rightarrow>
          if bit w RADIOTAP_EXT then
            (if a + 4 > mx then Inr None else ext_walk m mx (a + 4))
          else Inr (Some a))"
  by pat_completeness auto
termination by (relation "measure (\<lambda>(m, mx, a). mx - a)") auto

declare ext_walk.simps [simp del]

definition iter_init :: "u8 list \<Rightarrow> nat \<Rightarrow> iterator \<Rightarrow> rt_fault + int \<times> iterator" where
  "iter_init m max_len it =
     (case rd8 m it_version of
        Inl f \<Rightarrow> Inl f
      | Inr v \<Rightarrow>
     if v \<noteq> 0 then Inr (- EINVAL, it)
     else (case le16_to_cpu m it_len of
        Inl f \<Rightarrow> Inl f
      | Inr len \<Rightarrow>
     if max_len < len then Inr (- EINVAL, it)
     else (case le32_to_cpu m it_present of
        Inl f \<Rightarrow> Inl f
      | Inr present \<Rightarrow>
     let it = it\<lparr>max_length := len, arg_index := 0, bitmap_shifter := present,
                 arg := sizeof_header, this_arg := None\<rparr>
     in if bit (bitmap_shifter it) RADIOTAP_EXT then
          (case ext_walk m (max_length it) (arg it) of
             Inl f \<Rightarrow> Inl f
           | Inr None \<Rightarrow> Inr (- EINVAL, it)
           | Inr (Some a) \<Rightarrow> Inr (0, it\<lparr>arg := a + 4\<rparr>))
        else Inr (0, it))))"

section \<open>\<open>ieee80211_radiotap_iterator_next\<close>\<close>

text \<open>Upper nibble: alignment, lower nibble: length.\<close>

definition rt_sizes :: "nat list" where
  "rt_sizes = [0x88, 0x11, 0x11, 0x24, 0x22, 0x11, 0x11, 0x22, 0x22, 0x22, 0x11, 0x11, 0x11, 0x11]"

definition rt_align :: "nat \<Rightarrow> nat" where
  "rt_align i = drop_bit 4 (rt_sizes ! i)"

definition rt_size :: "nat \<Rightarrow> nat" where
  "rt_size i = rt_sizes ! i AND 15"

text \<open>
  The loop body for a present argument, up to the label \<open>next_entry\<close>: \<open>Inr (c, it)\<close> with
  \<open>c \<noteq> 0\<close> is the early return.
\<close>

definition take_arg :: "iterator \<Rightarrow> rt_fault + int \<times> iterator" where
  "take_arg it =
     (if arg_index it \<ge> length rt_sizes then Inl Bad_table
      else let pad = arg it AND (rt_align (arg_index it) - 1);
               it = (if pad \<noteq> 0 then it\<lparr>arg_index := arg_index it + (rt_align (arg_index it) - pad)\<rparr>
                     else it);
               it = it\<lparr>this_arg_index := arg_index it, this_arg := Some (arg it)\<rparr>
           in if arg_index it \<ge> length rt_sizes then Inl Bad_table
              else let it = it\<lparr>arg := arg it + rt_size (arg_index it)\<rparr>
                   in Inr (if arg it > max_length it then - EINVAL else 0, it))"

text \<open>From the label \<open>next_entry\<close> to the end of the body.\<close>

definition next_entry :: "u8 list \<Rightarrow> iterator \<Rightarrow> rt_fault + iterator" where
  "next_entry m it =
     (let it = it\<lparr>arg_index := arg_index it + 1\<rparr>
      in if arg_index it AND 31 = 0 then
           if bit (bitmap_shifter it) 0 then
             (case next_bitmap it of
                None \<Rightarrow> Inl Bad_bitmap
              | Some p \<Rightarrow>
                  (case le32_to_cpu m p of
                     Inl f \<Rightarrow> Inl f
                   | Inr w \<Rightarrow> Inr (it\<lparr>bitmap_shifter := w, next_bitmap := Some (p + 4)\<rparr>)))
           else Inr (it\<lparr>arg_index := length rt_sizes\<rparr>)
         else Inr (it\<lparr>bitmap_shifter := drop_bit 1 (bitmap_shifter it)\<rparr>))"

text \<open>One pass through the loop body: \<open>Some c\<close> is a return with \<open>c\<close>, \<open>None\<close> another pass.\<close>

definition next_pass :: "u8 list \<Rightarrow> iterator \<Rightarrow> rt_fault + int option \<times> iterator" where
  "next_pass m it =
     (if bit (bitmap_shifter it) 0 then
        (case take_arg it of
           Inl f \<Rightarrow> Inl f
         | Inr (c, it1) \<Rightarrow>
             if c \<noteq> 0 then Inr (Some c, it1)
             else (case next_entry m it1 of
                     Inl f \<Rightarrow> Inl f
                   | Inr it2 \<Rightarrow> Inr (Some 0, it2)))
      else (case next_entry m it of
              Inl f \<Rightarrow> Inl f
            | Inr it2 \<Rightarrow> Inr (None, it2)))"

lemma length_rt_sizes [simp]: "length rt_sizes = 14"
  by (simp add: rt_sizes_def)

text \<open>Below fourteen a pass never completes a bitmap: the index only grows.\<close>

lemma and_31_small: "0 < i \<Longrightarrow> i < 32 \<Longrightarrow> (i::nat) AND 31 \<noteq> 0"
proof -
  assume "0 < i" "i < 32"
  moreover have "i AND 31 = take_bit 5 i" by (simp add: take_bit_eq_mask mask_eq_exp_minus_1)
  ultimately show ?thesis by (simp add: take_bit_nat_eq_self)
qed

lemma next_entry_eq:
  assumes "arg_index it < 31"
  shows "next_entry m it =
    Inr (it\<lparr>arg_index := arg_index it + 1, bitmap_shifter := drop_bit 1 (bitmap_shifter it)\<rparr>)"
  using assms and_31_small [of "arg_index it + 1"] by (simp add: next_entry_def Let_def)

lemma less_14_cases:
  "i < 14 \<Longrightarrow> i = 0 \<or> i = 1 \<or> i = 2 \<or> i = 3 \<or> i = 4 \<or> i = 5 \<or> i = 6 \<or> i = 7 \<or> i = 8 \<or> i = 9 \<or>
     i = 10 \<or> i = 11 \<or> i = 12 \<or> i = (13::nat)"
  by presburger

lemma and_low:
  "(a::nat) AND 7 = a mod 8" "a AND Suc 0 = a mod 2" "a AND 1 = a mod 2"
  using take_bit_eq_mask [of 3 a] take_bit_eq_mask [of 1 a]
  by (simp_all add: take_bit_eq_mod mask_eq_exp_minus_1)

lemma table:
  "i < 14 \<Longrightarrow> rt_align i = (if i = 0 then 8 else if i \<in> {3, 4, 7, 8, 9} then 2 else 1)"
  "i < 14 \<Longrightarrow> rt_size i = (if i = 0 then 8 else if i = 3 then 4 else if i \<in> {4, 7, 8, 9} then 2 else 1)"
  using less_14_cases [of i] by (auto simp: rt_align_def rt_size_def rt_sizes_def)

text \<open>The padding added to the index by mistake cannot lead out of the table.\<close>

lemma pad_in_table:
  assumes "i < 14"
  shows "a AND (rt_align i - 1) = a mod rt_align i" "0 < rt_align i" "i + rt_align i \<le> 14" "0 < rt_size i"
  using assms by (auto simp: table and_low)

text \<open>The index reported for an argument at offset \<open>a\<close>, found at index \<open>i\<close>.\<close>

definition reported :: "nat \<Rightarrow> nat \<Rightarrow> nat" where
  "reported i a = (if a mod rt_align i = 0 then i else i + (rt_align i - a mod rt_align i))"

lemma reported_range: "i < 14 \<Longrightarrow> i \<le> reported i a \<and> reported i a < 14"
  and reported_greater: "i < 14 \<Longrightarrow> a mod rt_align i \<noteq> 0 \<Longrightarrow> i < reported i a"
proof -
  assume i: "i < 14"
  note t = pad_in_table(2-4) [OF i]
  have "a mod rt_align i < rt_align i" using t(1) by (rule mod_less_divisor)
  then obtain r where r: "a mod rt_align i = r" "r < rt_align i" by blast
  show "i \<le> reported i a \<and> reported i a < 14" using i t r by (auto simp: reported_def r(1))
  show "a mod rt_align i \<noteq> 0 \<Longrightarrow> i < reported i a" using i t r by (auto simp: reported_def r(1))
qed

lemma take_arg_eq:
  assumes "arg_index it < 14"
  shows "take_arg it =
    (let j = reported (arg_index it) (arg it); e = arg it + rt_size j
     in Inr (if e > max_length it then - EINVAL else 0,
             it\<lparr>arg_index := j, this_arg_index := j, this_arg := Some (arg it), arg := e\<rparr>))"
  using assms reported_range [OF assms, of "arg it"] pad_in_table(1) [OF assms, of "arg it"]
  by (cases it) (auto simp: take_arg_def Let_def reported_def)

lemma next_pass_absent:
  "arg_index it < 14 \<Longrightarrow> \<not> bit (bitmap_shifter it) 0 \<Longrightarrow> next_pass m it =
     Inr (None, it\<lparr>arg_index := arg_index it + 1, bitmap_shifter := drop_bit 1 (bitmap_shifter it)\<rparr>)"
  by (simp add: next_pass_def next_entry_eq)

lemma next_pass_present:
  assumes "arg_index it < 14" "bit (bitmap_shifter it) 0"
  defines "j \<equiv> reported (arg_index it) (arg it)"
  shows "next_pass m it =
    (if arg it + rt_size j > max_length it then
       Inr (Some (- EINVAL), it\<lparr>arg_index := j, this_arg_index := j, this_arg := Some (arg it),
                               arg := arg it + rt_size j\<rparr>)
     else Inr (Some 0, it\<lparr>this_arg_index := j, this_arg := Some (arg it), arg := arg it + rt_size j,
                          arg_index := j + 1, bitmap_shifter := drop_bit 1 (bitmap_shifter it)\<rparr>))"
  using assms(1,2) reported_range [OF assms(1), of "arg it"]
  by (cases it) (simp add: next_pass_def take_arg_eq next_entry_eq Let_def EINVAL_def j_def)

function iter_next :: "u8 list \<Rightarrow> iterator \<Rightarrow> rt_fault + int \<times> iterator" where
  "iter_next m it =
     (if arg_index it < length rt_sizes then
        (case next_pass m it of
           Inl f \<Rightarrow> Inl f
         | Inr (Some c, it') \<Rightarrow> Inr (c, it')
         | Inr (None, it') \<Rightarrow> iter_next m it')
      else Inr (- ENOENT, it))"
  by pat_completeness auto
termination
proof (relation "measure (\<lambda>(m, it). 14 - arg_index it)")
  fix m it r c it'
  assume "arg_index it < length rt_sizes" "next_pass m it = Inr r" "(c, it') = r" "c = None"
  then show "((m, it'), m, it) \<in> measure (\<lambda>(m, it). 14 - arg_index it)"
    by (cases "bit (bitmap_shifter it) 0")
       (auto simp: next_pass_absent next_pass_present split: if_splits)
qed simp

declare iter_next.simps [simp del]

lemma iter_next_absent:
  "arg_index it < 14 \<Longrightarrow> \<not> bit (bitmap_shifter it) 0 \<Longrightarrow> iter_next m it =
     iter_next m (it\<lparr>arg_index := arg_index it + 1, bitmap_shifter := drop_bit 1 (bitmap_shifter it)\<rparr>)"
  by (subst iter_next.simps) (simp add: next_pass_absent)

lemma iter_next_present:
  assumes "arg_index it < 14" "bit (bitmap_shifter it) 0"
  defines "j \<equiv> reported (arg_index it) (arg it)"
  shows "iter_next m it =
    (if arg it + rt_size j > max_length it then
       Inr (- EINVAL, it\<lparr>arg_index := j, this_arg_index := j, this_arg := Some (arg it),
                         arg := arg it + rt_size j\<rparr>)
     else Inr (0, it\<lparr>this_arg_index := j, this_arg := Some (arg it), arg := arg it + rt_size j,
                     arg_index := j + 1, bitmap_shifter := drop_bit 1 (bitmap_shifter it)\<rparr>))"
  using assms(1) next_pass_present [OF assms(1,2), of m]
  by (subst iter_next.simps) (simp flip: j_def)

lemma iter_next_end: "\<not> arg_index it < 14 \<Longrightarrow> iter_next m it = Inr (- ENOENT, it)"
  by (subst iter_next.simps) simp

text \<open>What a call promises: no fault, and a hit is an argument inside the declared length.\<close>

definition hit_ok :: "iterator \<Rightarrow> iterator \<Rightarrow> bool" where
  "hit_ok it it' \<longleftrightarrow>
     arg_index it \<le> this_arg_index it' \<and> this_arg_index it' < 14 \<and>
     arg_index it' = this_arg_index it' + 1 \<and> this_arg it' = Some (arg it) \<and>
     arg it' = arg it + rt_size (this_arg_index it') \<and> arg it' \<le> max_length it \<and>
     max_length it' = max_length it"

lemma iter_next_cases:
  "\<exists>c it'. iter_next m it = Inr (c, it') \<and>
     (c = - ENOENT \<or> c = - EINVAL \<or> c = 0 \<and> hit_ok it it')"
proof (induction m it rule: iter_next.induct)
  case (1 m it)
  consider "\<not> arg_index it < 14" | "arg_index it < 14" "bit (bitmap_shifter it) 0"
    | "arg_index it < 14" "\<not> bit (bitmap_shifter it) 0" by blast
  then show ?case
  proof cases
    case 1
    then show ?thesis by (simp add: iter_next_end)
  next
    case 2
    then show ?thesis using reported_range [OF 2(1), of "arg it"]
      by (simp add: iter_next_present hit_ok_def)
  next
    case 3
    with 1 [OF _ next_pass_absent [OF 3] refl refl] show ?thesis
      by (auto simp: iter_next_absent hit_ok_def)
  qed
qed

section \<open>Walking a whole header\<close>

text \<open>The caller's loop: the arguments reported until the iterator returns non-zero, and that code.\<close>

function iter_walk :: "u8 list \<Rightarrow> iterator \<Rightarrow> (nat \<times> nat option) list \<times> (rt_fault + int)" where
  "iter_walk m it =
     (case iter_next m it of
        Inl f \<Rightarrow> ([], Inl f)
      | Inr (c, it') \<Rightarrow>
          if c = 0 then (case iter_walk m it' of (as, r) \<Rightarrow> ((this_arg_index it', this_arg it') # as, r))
          else ([], Inr c))"
  by pat_completeness auto
termination
proof (relation "measure (\<lambda>(m, it). 14 - arg_index it)")
  fix m it r c it'
  assume "iter_next m it = Inr r" "(c, it') = r" "c = 0"
  then have "hit_ok it it'" using iter_next_cases [of m it] by (auto simp: EINVAL_def ENOENT_def)
  then show "((m, it'), m, it) \<in> measure (\<lambda>(m, it). 14 - arg_index it)"
    by (auto simp: hit_ok_def)
qed simp

declare iter_walk.simps [simp del]

text \<open>
  The layout of the standard: each present argument starts at the next multiple of its
  alignment. \<open>unpadded\<close>: no argument needs padding.
\<close>

definition round_up :: "nat \<Rightarrow> nat \<Rightarrow> nat" where
  "round_up off al = off + (al - off mod al) mod al"

fun layout :: "nat \<Rightarrow> nat list \<Rightarrow> (nat \<times> nat option) list" where
  "layout off [] = []"
| "layout off (i # is) =
     (let a = round_up off (rt_align i) in (i, Some a) # layout (a + rt_size i) is)"

fun layout_end :: "nat \<Rightarrow> nat list \<Rightarrow> nat" where
  "layout_end off [] = off"
| "layout_end off (i # is) = layout_end (round_up off (rt_align i) + rt_size i) is"

fun unpadded :: "nat \<Rightarrow> nat list \<Rightarrow> bool" where
  "unpadded off [] \<longleftrightarrow> True"
| "unpadded off (i # is) \<longleftrightarrow> off mod rt_align i = 0 \<and> unpadded (off + rt_size i) is"

lemma round_up_pad: "0 < al \<Longrightarrow> off mod al \<noteq> 0 \<Longrightarrow> round_up off al \<noteq> off"
proof -
  assume al: "0 < al" "off mod al \<noteq> 0"
  have "off mod al < al" using al(1) by (rule mod_less_divisor)
  then obtain r where r: "off mod al = r" "r < al" by blast
  have "(al - r) mod al = al - r" using al r by simp
  then show ?thesis using al r unfolding round_up_def r(1) by simp
qed

lemma layout_end_ge: "off \<le> layout_end off is"
  by (induction off "is" rule: layout_end.induct) (auto simp: round_up_def intro: order_trans [rotated])

lemma walk_layout:
  assumes "bitmap_shifter it = drop_bit (arg_index it) w"
    and "arg_index it \<le> 14"
    and "unpadded (arg it) (filter (bit w) [arg_index it..<14])"
    and "layout_end (arg it) (filter (bit w) [arg_index it..<14]) \<le> max_length it"
  shows "iter_walk m it = (layout (arg it) (filter (bit w) [arg_index it..<14]), Inr (- ENOENT))"
  using assms
proof (induction "14 - arg_index it" arbitrary: it)
  case 0
  then show ?case by (subst iter_walk.simps) (simp add: iter_next_end ENOENT_def)
next
  case (Suc n)
  then have less: "arg_index it < 14" by simp
  then have upt: "[arg_index it..<14] = arg_index it # [arg_index it + 1..<14]"
    using upt_conv_Cons by simp
  have b: "bit (bitmap_shifter it) 0 = bit w (arg_index it)"
    using Suc.prems(1) by (simp add: bit_simps)
  have sh: "drop_bit 1 (bitmap_shifter it) = drop_bit (arg_index it + 1) w"
    using Suc.prems(1) by (simp add: drop_bit_drop_bit add.commute)
  show ?case
  proof (cases "bit w (arg_index it)")
    case False
    let ?it = "it\<lparr>arg_index := arg_index it + 1, bitmap_shifter := drop_bit 1 (bitmap_shifter it)\<rparr>"
    have "iter_walk m it = iter_walk m ?it"
      using False b less by (subst (1 2) iter_walk.simps) (simp add: iter_next_absent)
    also have "\<dots> = (layout (arg ?it) (filter (bit w) [arg_index ?it..<14]), Inr (- ENOENT))"
      using Suc.hyps(2) Suc.prems less False sh unfolding upt by (intro Suc.hyps(1)) simp_all
    finally show ?thesis using False unfolding upt by simp
  next
    case True
    let ?i = "arg_index it"
    let ?it = "it\<lparr>this_arg_index := ?i, this_arg := Some (arg it), arg := arg it + rt_size ?i,
      arg_index := ?i + 1, bitmap_shifter := drop_bit 1 (bitmap_shifter it)\<rparr>"
    have al: "arg it mod rt_align ?i = 0" using Suc.prems(3) True unfolding upt by simp
    then have ru: "round_up (arg it) (rt_align ?i) = arg it" by (simp add: round_up_def)
    have rep: "reported ?i (arg it) = ?i" using al by (simp add: reported_def)
    have le: "arg it + rt_size ?i \<le> max_length it"
      using Suc.prems(4) True ru layout_end_ge [of "arg it + rt_size ?i"] unfolding upt
      by (auto intro: order_trans)
    have "iter_next m it = Inr (0, ?it)"
      using iter_next_present [OF less, of m] True b rep le by simp
    then have "iter_walk m it = (case iter_walk m ?it of (as, r) \<Rightarrow> ((?i, Some (arg it)) # as, r))"
      by (subst iter_walk.simps) simp
    moreover have "iter_walk m ?it = (layout (arg ?it) (filter (bit w) [arg_index ?it..<14]), Inr (- ENOENT))"
      using Suc.hyps(2) Suc.prems less True sh ru unfolding upt by (intro Suc.hyps(1)) simp_all
    ultimately show ?thesis using True ru unfolding upt by (simp add: Let_def)
  qed
qed

lemma ext_walk_cases:
  assumes "a \<le> mx" "mx + 4 \<le> length m"
  shows "ext_walk m mx a = Inr None \<or> (\<exists>b. ext_walk m mx a = Inr (Some b) \<and> a \<le> b \<and> b \<le> mx)"
  using assms
proof (induction m mx a rule: ext_walk.induct)
  case (1 m mx a)
  have "\<exists>w. le32_to_cpu m a = Inr w" using 1(2,3) by (simp add: le32_to_cpu_def)
  then obtain w where w: "le32_to_cpu m a = Inr w" by blast
  show ?case
  proof (cases "bit w RADIOTAP_EXT \<and> a + 4 \<le> mx")
    case True
    with w 1(1) [OF w] 1(3) have "ext_walk m mx (a + 4) = Inr None \<or>
      (\<exists>b. ext_walk m mx (a + 4) = Inr (Some b) \<and> a + 4 \<le> b \<and> b \<le> mx)" by simp
    moreover have "ext_walk m mx a = ext_walk m mx (a + 4)"
      using True w by (subst ext_walk.simps) simp
    ultimately show ?thesis by auto
  next
    case False
    then show ?thesis using w 1(2) by (subst (1 2) ext_walk.simps) auto
  qed
qed

section \<open>Properties\<close>

text \<open>
  C11: A call of the iterator always returns and never faults, from any state and on any memory:
  the table of sizes is read inside its fourteen entries and the bitmap pointer, which the
  code never initialises, is never followed. When it returns 0 the reported index is in the
  table and the whole argument lies inside the declared length of the header.
\<close>

theorem iter_next_safe:
  "\<exists>c it'. iter_next m it = Inr (c, it') \<and> c \<in> {0, - EINVAL, - ENOENT} \<and>
     (c \<noteq> 0 \<or> this_arg_index it' < 14 \<and> this_arg it' = Some (arg it) \<and>
        arg it + rt_size (this_arg_index it') \<le> max_length it \<and> arg_index it < arg_index it')"
  using iter_next_cases [of m it] by (auto simp: hit_ok_def EINVAL_def ENOENT_def)

text \<open>The rate of a header that announces nothing else, the last byte of its declared length.\<close>

definition iter_rate :: iterator where
  "iter_rate = \<lparr>max_length = 9, this_arg_index = 0, this_arg = None, arg_index = 2, arg = 8,
     next_bitmap = None, bitmap_shifter = 1\<rparr>"

theorem iter_next_safe_witness:
  "\<exists>it'. iter_next [] iter_rate = Inr (0, it') \<and> this_arg_index it' = 2 \<and> this_arg it' = Some 8 \<and>
     8 + rt_size 2 \<le> 9 \<and> 2 < arg_index it'"
proof -
  have "iter_next [] iter_rate = Inr (0, iter_rate\<lparr>this_arg_index := 2, this_arg := Some 8, arg := 9,
      arg_index := 3, bitmap_shifter := 0\<rparr>)"
    by (subst iter_next_present) (simp_all add: iter_rate_def reported_def table)
  with iter_next_safe [of "[]" iter_rate] show ?thesis by (auto simp: iter_rate_def)
qed

text \<open>
  C36: Where the fields of the header need no padding and fit its declared length, the caller's
  loop sees exactly the arguments the present bits announce, in order and at the offsets of
  the standard layout, and ends with \<open>-ENOENT\<close>.
\<close>

theorem iter_walk_unpadded:
  assumes "arg_index it = 0"
    and "unpadded (arg it) (filter (bit (bitmap_shifter it)) [0..<14])"
    and "layout_end (arg it) (filter (bit (bitmap_shifter it)) [0..<14]) \<le> max_length it"
  shows "iter_walk m it = (layout (arg it) (filter (bit (bitmap_shifter it)) [0..<14]), Inr (- ENOENT))"
  using walk_layout [of it "bitmap_shifter it" m] assms by simp

text \<open>
  Where an argument does need padding, the code adds the padding to the argument's index
  instead of its position: the argument is reported under another index and at the unaligned
  position.
\<close>

theorem iter_pad_misreports:
  assumes "arg_index it < 14" "bit (bitmap_shifter it) 0" "arg it mod rt_align (arg_index it) \<noteq> 0"
    and "iter_next m it = Inr (0, it')"
  shows "arg_index it < this_arg_index it' \<and> this_arg it' = Some (arg it) \<and>
    round_up (arg it) (rt_align (arg_index it)) \<noteq> arg it"
proof -
  have al: "0 < rt_align (arg_index it)" using pad_in_table(2) [OF assms(1)] .
  have "arg_index it < reported (arg_index it) (arg it)"
    using reported_greater [OF assms(1,3)] .
  then show ?thesis
    using assms(4) iter_next_present [OF assms(1,2), of m]
      round_up_pad [OF al assms(3)]
    by (auto simp: EINVAL_def split: if_splits)
qed

definition iter_blank :: iterator where
  "iter_blank = \<lparr>max_length = 0, this_arg_index = 0, this_arg = None, arg_index = 0, arg = 0,
     next_bitmap = None, bitmap_shifter = 0\<rparr>"

text \<open>A header with flags and channel: the channel belongs at offset ten.\<close>

definition flags_channel :: "u8 list" where
  "flags_channel = [0, 0, 14, 0, 0x0a, 0, 0, 0, 0x10, 0, 0x8f, 0x09, 0xa0, 0]"

theorem iter_pad_misreports_witness:
  "\<exists>it'. iter_next flags_channel (iter_blank\<lparr>max_length := 14, arg_index := 3, arg := 9, bitmap_shifter := 1\<rparr>)
     = Inr (0, it') \<and> 3 < this_arg_index it'"
proof -
  let ?it = "iter_blank\<lparr>max_length := 14, arg_index := 3, arg := 9, bitmap_shifter := 1\<rparr>"
  have t: "rt_align 3 = 2" "rt_size 4 = 2" by (simp_all add: table)
  have "iter_next flags_channel ?it = Inr (0, ?it\<lparr>this_arg_index := 4, this_arg := Some 9, arg := 11,
      arg_index := 5, bitmap_shifter := 0\<rparr>)"
    by (subst iter_next_present) (simp_all add: iter_blank_def reported_def t)
  from this iter_pad_misreports [OF _ _ _ this] show ?thesis by (simp add: iter_blank_def t)
qed

text \<open>
  Initialisation on a memory that holds the fixed header and four bytes more than its
  declared length never faults. It answers 0 only for version 0 and a length within the
  caller's bound, and then the first argument lies at most four bytes behind the declared
  length.
\<close>

theorem iter_init_safe:
  assumes "8 \<le> length m" "unat (m ! 2) + 256 * unat (m ! 3) + 4 \<le> length m"
    and "8 \<le> unat (m ! 2) + 256 * unat (m ! 3)"
  shows "\<exists>c it'. iter_init m mx it = Inr (c, it') \<and> (c = 0 \<or> c = - EINVAL) \<and>
    (c \<noteq> 0 \<or> m ! 0 = 0 \<and> max_length it' \<le> mx \<and> arg_index it' = 0 \<and>
       max_length it' = unat (m ! 2) + 256 * unat (m ! 3) \<and> arg it' \<le> max_length it' + 4)"
proof -
  have fields: "rd8 m it_version = Inr (unat (m ! 0))"
    "le16_to_cpu m it_len = Inr (unat (m ! 2) + 256 * unat (m ! 3))"
    "\<exists>w. le32_to_cpu m it_present = Inr w"
    using assms(1)
    by (auto simp: rd8_def le16_to_cpu_def le32_to_cpu_def it_version_def it_len_def it_present_def
        eval_nat_numeral)
  then obtain w where w: "le32_to_cpu m it_present = Inr w" by blast
  have walk: "ext_walk m (unat (m ! 2) + 256 * unat (m ! 3)) 8 = Inr None \<or>
    (\<exists>b. ext_walk m (unat (m ! 2) + 256 * unat (m ! 3)) 8 = Inr (Some b) \<and> 8 \<le> b \<and>
       b \<le> unat (m ! 2) + 256 * unat (m ! 3))"
    using ext_walk_cases [OF assms(3,2)] .
  have "m ! 0 = 0 \<longleftrightarrow> unat (m ! 0) = 0" by (simp add: unat_eq_zero)
  then show ?thesis
    using fields(1,2) w walk assms(3)
    by (auto simp: iter_init_def Let_def EINVAL_def sizeof_header_def)
qed

theorem iter_init_safe_witness:
  "\<exists>c it'. iter_init (flags_channel @ [0, 0, 0, 0]) 14 iter_blank = Inr (c, it')"
  using iter_init_safe [of "flags_channel @ [0, 0, 0, 0]" 14 iter_blank]
  by (auto simp: flags_channel_def)

text \<open>
  Without the four bytes more it can read outside: a header that declares and has exactly
  eight bytes and sets the extension bit makes it read the four bytes behind its end, before
  any check against the length.
\<close>

theorem iter_init_overreads:
  assumes "length m = 8" "m ! 0 = 0" "m ! 2 = 8" "m ! 3 = 0" "8 \<le> mx" "bit (m ! 7) 7"
  shows "iter_init m mx it = Inl Bad_memory"
proof -
  obtain w where w: "le32_to_cpu m it_present = Inr w" "w = ucast (m ! 4) OR push_bit 8 (ucast (m ! 5)) OR
      push_bit 16 (ucast (m ! 6)) OR push_bit 24 (ucast (m ! 7))"
    using assms(1) by (simp add: le32_to_cpu_def it_present_def)
  have "bit w 31" using assms(6) unfolding w(2) by (simp add: bit_simps)
  moreover have "ext_walk m 8 8 = Inl Bad_memory"
    using assms(1) by (subst ext_walk.simps) (simp add: le32_to_cpu_def)
  ultimately show ?thesis
    using assms w(1)
    by (simp add: iter_init_def Let_def rd8_def le16_to_cpu_def it_version_def it_len_def
        RADIOTAP_EXT_def sizeof_header_def)
qed

theorem iter_init_overreads_witness:
  "iter_init [0, 0, 8, 0, 0, 0, 0, 0x80] 8 iter_blank = Inl Bad_memory"
  by (rule iter_init_overreads) (simp_all add: bit_numeral_rec)

theorem iter_walk_unpadded_witness:
  "iter_walk [] \<lparr>max_length = 20, this_arg_index = 0, this_arg = None, arg_index = 0, arg = 8,
      next_bitmap = None, bitmap_shifter = 7\<rparr> =
   ([(0, Some 8), (1, Some 16), (2, Some 17)], Inr (- ENOENT))"
proof -
  let ?it = "\<lparr>max_length = 20, this_arg_index = 0, this_arg = None, arg_index = 0, arg = 8,
      next_bitmap = None, bitmap_shifter = 7\<rparr> :: iterator"
  have f: "filter (bit (bitmap_shifter ?it)) [0..<14] = [0, 1, 2]"
    by (simp add: upt_rec bit_numeral_rec)
  show ?thesis using iter_walk_unpadded [of ?it "[]"] unfolding f
    by (simp add: table round_up_def Let_def)
qed

end
