(* ===== verification/Packetspammer.thy ===== *)
theory Packetspammer
  imports Radiotap
begin

text \<open>
  \<open>packetspammer/packetspammer.c\<close>: the command line, the frame it builds and the sending loop.
  Strings are byte lists with their terminating zero. Reading or writing outside a buffer is
  \<open>None\<close>. \<open>getopt_long\<close>, \<open>pcap_inject\<close> and the free-buffer count read from the driver's
  character device are inputs.
\<close>

section \<open>Templates\<close>

definition u8aRadiotapHeader :: "u8 list" where
  "u8aRadiotapHeader =
     [0x00, 0x00, 0x19, 0x00, 0x6f, 0x08, 0x00, 0x00,
      0x00, 0x00, 0x00, 0x00, 0x00, 0x00, 0x00, 0x00,
      0x02, 0x16, 0x8f, 0x09, 0xa0, 0x00, 0x00, 0x00, 0x00]"

definition OFFSET_FLAGS :: nat where "OFFSET_FLAGS = 0x10"
definition OFFSET_RATE :: nat where "OFFSET_RATE = 0x11"
definition RADIOTAP_F_FCS :: u8 where "RADIOTAP_F_FCS = 0x10"

definition u8aIeeeHeader :: "u8 list" where
  "u8aIeeeHeader =
     [0x08, 0x01, 0x00, 0x00,
      0xFF, 0xFF, 0xFF, 0xFF, 0xFF, 0xFF,
      0x13, 0x22, 0x33, 0x44, 0x55, 0x66,
      0x13, 0x22, 0x33, 0x44, 0x55, 0x66,
      0x10, 0x86]"

section \<open>Addresses\<close>

text \<open>One character; anything but a decimal digit is taken for a small letter.\<close>

definition hex_digit :: "u8 \<Rightarrow> u8" where
  "hex_digit c = (if c \<le> 57 \<and> c \<ge> 48 then c - 48 else c - 97 + 10)"

definition mac_byte :: "u8 list \<Rightarrow> nat \<Rightarrow> u8 option" where
  "mac_byte optarg i =
     (let pos = i * 3 in
      if pos + 1 < length optarg
      then Some (hex_digit (optarg ! pos) * 16 + hex_digit (optarg ! (pos + 1)))
      else None)"

fun collect :: "'a option list \<Rightarrow> 'a list option" where
  "collect [] = Some []"
| "collect (None # xs) = None"
| "collect (Some x # xs) = (case collect xs of None \<Rightarrow> None | Some ys \<Rightarrow> Some (x # ys))"

definition parse_mac :: "u8 list \<Rightarrow> u8 list option" where
  "parse_mac optarg = collect (map (mac_byte optarg) [0, 1, 2, 3, 4, 5])"

text \<open>\<open>memcpy\<close> into a buffer.\<close>

definition memcpy_at :: "'a list \<Rightarrow> nat \<Rightarrow> 'a list \<Rightarrow> 'a list option" where
  "memcpy_at buf off src =
     (if off + length src \<le> length buf
      then Some (take off buf @ src @ drop (off + length src) buf) else None)"

section \<open>The command line\<close>

text \<open>What \<open>getopt_long\<close> yields, with the number \<open>atoi\<close> reads where the code calls it.\<close>

datatype opt =
    Opt_help | Opt_long_help | Opt_fcs | Opt_long_fcs
  | Opt_delay int | Opt_len int | Opt_count int | Opt_intval int
  | Opt_src "u8 list" | Opt_dst "u8 list" | Opt_unknown

record config =
  nDelay :: int
  frame_len :: u32
  count :: u32
  rate_stat_interval :: int
  flagMarkWithFCS :: bool
  flagHelp :: bool
  ieee_header :: "u8 list"

definition config0 :: config where
  "config0 = \<lparr>nDelay = 100000, frame_len = 1000, count = 0, rate_stat_interval = 1,
     flagMarkWithFCS = False, flagHelp = False, ieee_header = u8aIeeeHeader\<rparr>"

text \<open>The outcome of an option: a memory fault, the exit status of \<open>usage\<close>, or the new configuration.\<close>

datatype opt_result = Opt_fault | Opt_exit int | Opt_ok config

definition usage :: opt_result where "usage = Opt_exit 1"

definition set_src :: "u8 list \<Rightarrow> config \<Rightarrow> opt_result" where
  "set_src optarg c =
     (case parse_mac optarg of None \<Rightarrow> Opt_fault
      | Some mac \<Rightarrow>
          (case memcpy_at (ieee_header c) 16 mac of None \<Rightarrow> Opt_fault
           | Some h \<Rightarrow>
               (case memcpy_at h 10 mac of None \<Rightarrow> Opt_fault
                | Some h' \<Rightarrow> Opt_ok (c\<lparr>ieee_header := h'\<rparr>))))"

definition set_dst :: "u8 list \<Rightarrow> config \<Rightarrow> opt_result" where
  "set_dst optarg c =
     (case parse_mac optarg of None \<Rightarrow> Opt_fault
      | Some mac \<Rightarrow>
          (case memcpy_at (ieee_header c) 4 mac of None \<Rightarrow> Opt_fault
           | Some h \<Rightarrow> Opt_ok (c\<lparr>ieee_header := h\<rparr>)))"

definition handle_opt :: "opt \<Rightarrow> config \<Rightarrow> opt_result" where
  "handle_opt p c =
     (case p of
        Opt_help \<Rightarrow> usage
      | Opt_long_help \<Rightarrow> Opt_ok (c\<lparr>flagHelp := True\<rparr>)
      | Opt_fcs \<Rightarrow> Opt_ok (c\<lparr>flagMarkWithFCS := True\<rparr>)
      | Opt_long_fcs \<Rightarrow> Opt_ok (c\<lparr>flagMarkWithFCS := True\<rparr>)
      | Opt_delay n \<Rightarrow> Opt_ok (c\<lparr>nDelay := n\<rparr>)
      | Opt_len n \<Rightarrow> Opt_ok (c\<lparr>frame_len := word_of_int n\<rparr>)
      | Opt_count n \<Rightarrow> Opt_ok (c\<lparr>count := word_of_int n\<rparr>)
      | Opt_intval n \<Rightarrow> Opt_ok (c\<lparr>rate_stat_interval := n\<rparr>)
      | Opt_src a \<Rightarrow> set_src a c
      | Opt_dst a \<Rightarrow> set_dst a c
      | Opt_unknown \<Rightarrow> usage)"

fun handle_opts :: "opt list \<Rightarrow> config \<Rightarrow> opt_result" where
  "handle_opts [] c = Opt_ok c"
| "handle_opts (p # ps) c =
     (case handle_opt p c of
        Opt_fault \<Rightarrow> Opt_fault
      | Opt_exit r \<Rightarrow> Opt_exit r
      | Opt_ok c' \<Rightarrow> handle_opts ps c')"

section \<open>The frame\<close>

definition SEND_BUFFER :: nat where "SEND_BUFFER = 2500"

text \<open>
  The text is what \<open>sprintf\<close> prints for the rate, the ordinal and the host name, with its
  terminating zero; \<open>frame_buffer\<close> is the send buffer before the loop.
\<close>

definition frame_buffer :: "config \<Rightarrow> u8 list \<Rightarrow> u8 list option" where
  "frame_buffer c txt =
     (case memcpy_at (replicate SEND_BUFFER 0) 0 u8aRadiotapHeader of None \<Rightarrow> None
      | Some b \<Rightarrow>
     let b = (if flagMarkWithFCS c then b[OFFSET_FLAGS := b ! OFFSET_FLAGS OR RADIOTAP_F_FCS] else b)
     in (case memcpy_at b (length u8aRadiotapHeader) (ieee_header c) of None \<Rightarrow> None
         | Some b \<Rightarrow> memcpy_at b (length u8aRadiotapHeader + length (ieee_header c)) txt))"

text \<open>\<open>pu8 - u8aSendBuffer\<close> after the pointer steps, in the 32 bits of \<open>send_length\<close>.\<close>

definition send_length :: "config \<Rightarrow> u32" where
  "send_length c =
     (let pu8 = of_nat (length u8aRadiotapHeader) + of_nat (length (ieee_header c));
          pu8 = pu8 + (frame_len c - of_nat (length (ieee_header c)) - 4)
      in if flagMarkWithFCS c then pu8 + 4 else pu8)"

definition injected :: "config \<Rightarrow> u8 list \<Rightarrow> u8 list option" where
  "injected c b = (if unat (send_length c) \<le> length b then Some (take (unat (send_length c)) b) else None)"

section \<open>The sending loop\<close>

definition wait_us :: "u32 \<Rightarrow> u32" where
  "wait_us buf = (let use = 80 - buf in 100 * use)"

record spam =
  sent_byte :: u32
  sent_packet :: u32        \<comment> \<open>of the statistics\<close>
  sent :: u32               \<comment> \<open>the loop's own counter\<close>
  sleeps :: "u32 list"      \<comment> \<open>arguments of \<open>usleep\<close>, the newest first\<close>
  frames :: nat             \<comment> \<open>packets handed to \<open>pcap_inject\<close>\<close>

definition spam0 :: spam where
  "spam0 = \<lparr>sent_byte = 0, sent_packet = 0, sent = 0, sleeps = [], frames = 0\<rparr>"

text \<open>
  One round on the result of \<open>pcap_inject\<close> and the free-buffer count: \<open>Inl\<close> is the end of the
  program with an exit status.
\<close>

definition spam_round :: "config \<Rightarrow> u32 \<times> u32 \<Rightarrow> spam \<Rightarrow> int \<times> spam + spam" where
  "spam_round c i s =
     (case i of (r, buf_free) \<Rightarrow>
      let s = s\<lparr>frames := frames s + 1\<rparr>;
          s = s\<lparr>sent_byte := sent_byte s + frame_len c\<rparr>;
          s = s\<lparr>sent_packet := sent_packet s + 1\<rparr>
      in if r \<noteq> send_length c then Inl (1, s)
         else let w = wait_us buf_free;
                  s = (if w \<noteq> 0 then s\<lparr>sleeps := w # sleeps s\<rparr> else s);
                  s = s\<lparr>sent := sent s + 1\<rparr>
              in if sent s = count c then Inl (0, s) else Inr s)"

text \<open>The loop on the inputs to come: \<open>Inr\<close> while it is still running.\<close>

fun spam_loop :: "config \<Rightarrow> (u32 \<times> u32) list \<Rightarrow> spam \<Rightarrow> int \<times> spam + spam" where
  "spam_loop c [] s = Inr s"
| "spam_loop c (i # is) s =
     (case spam_round c i s of Inl e \<Rightarrow> Inl e | Inr s' \<Rightarrow> spam_loop c is s')"


section \<open>Setting up the capture\<close>

datatype link_encap = DLT_PRISM_HEADER | DLT_IEEE802_11_RADIO | DLT_other

text \<open>
  Exit status of the set-up after the options, if it ends the program: the interface argument is
  missing, \<open>pcap_open_live\<close> fails, the link type is unknown or the filter does not compile; a
  filter that cannot be installed is only reported.
\<close>

record capture_env =
  has_iface :: bool
  pcap_opened :: bool
  encap :: link_encap
  compiled :: bool

definition setup_capture :: "capture_env \<Rightarrow> int option" where
  "setup_capture E =
     (if \<not> has_iface E then Some 1
      else if \<not> pcap_opened E then Some 1
      else (case encap E of
              DLT_PRISM_HEADER \<Rightarrow> if compiled E then None else Some 1
            | DLT_IEEE802_11_RADIO \<Rightarrow> if compiled E then None else Some 1
            | DLT_other \<Rightarrow> Some 1))"

text \<open>The whole program: options, set-up, frame, loop.\<close>

datatype outcome = Memory_fault | Exited int | Running spam

definition main_program ::
  "opt list \<Rightarrow> capture_env \<Rightarrow> u8 list \<Rightarrow> (u32 \<times> u32) list \<Rightarrow> outcome" where
  "main_program opts E txt is =
     (case handle_opts opts config0 of
        Opt_fault \<Rightarrow> Memory_fault
      | Opt_exit r \<Rightarrow> Exited r
      | Opt_ok c \<Rightarrow>
          (case setup_capture E of
             Some r \<Rightarrow> Exited r
           | None \<Rightarrow>
               (case frame_buffer c txt of
                  None \<Rightarrow> Memory_fault
                | Some b \<Rightarrow>
                    (case injected c b of
                       None \<Rightarrow> if is = [] then Running spam0 else Memory_fault
                     | Some f \<Rightarrow>
                         (case spam_loop c is spam0 of
                            Inl (r, s) \<Rightarrow> Exited r
                          | Inr s \<Rightarrow> Running s)))))"

section \<open>Lemmas\<close>

text \<open>The usual notation of an address: two small hexadecimal digits a byte, colons between.\<close>

definition hex_char :: "u8 \<Rightarrow> u8" where
  "hex_char x = (if x < 10 then 48 + x else 87 + x)"

fun print_mac :: "u8 list \<Rightarrow> u8 list" where
  "print_mac [] = [0]"
| "print_mac [b] = [hex_char (b div 16), hex_char (b mod 16), 0]"
| "print_mac (b # bs) = hex_char (b div 16) # hex_char (b mod 16) # 58 # print_mac bs"

lemma hex_digit_char: "x < 16 \<Longrightarrow> hex_digit (hex_char x) = x"
proof -
  assume x: "x < 16"
  show ?thesis
  proof (cases "x < 10")
    case True
    then have "unat (48 + x) = 48 + unat x" by (subst unat_add_small) (simp_all add: word_less_nat_alt)
    then have "48 + x \<le> 57 \<and> 48 + x \<ge> 48" using True by (simp add: word_le_nat_alt word_less_nat_alt)
    then show ?thesis using True by (simp add: hex_digit_def hex_char_def)
  next
    case False
    then have "unat (87 + x) = 87 + unat x"
      using x by (subst unat_add_small) (simp_all add: word_less_nat_alt)
    then have "\<not> 87 + x \<le> 57" by (simp add: word_le_nat_alt)
    then show ?thesis using False by (simp add: hex_digit_def hex_char_def)
  qed
qed

lemma hex_pair: "hex_digit (hex_char (b div 16)) * 16 + hex_digit (hex_char (b mod 16)) = (b :: u8)"
proof -
  have "b div 16 < 16"
    by (simp add: word_less_nat_alt unat_div) (use unat_bound [of b] in simp)
  moreover have "b mod 16 < 16" by (simp add: word_less_nat_alt unat_mod)
  ultimately show ?thesis by (simp only: hex_digit_char word_mod_div_equality)
qed

lemma length_6: "length xs = 6 \<Longrightarrow> \<exists>a b c d e f. xs = [a, b, c, d, e, f]"
  by (auto simp: length_Suc_conv eval_nat_numeral)

lemma memcpy_at_fits:
  "off + length src \<le> length buf \<Longrightarrow>
   memcpy_at buf off src = Some (take off buf @ src @ drop (off + length src) buf)"
  by (simp add: memcpy_at_def)

lemma unat_send_length_le:
  "length (ieee_header c) = 24 \<Longrightarrow>
   send_length c = frame_len c + (if flagMarkWithFCS c then 25 else 21)"
  by (simp add: send_length_def u8aRadiotapHeader_def Let_def)

lemma parse_mac_length: "parse_mac a = Some mac \<Longrightarrow> length mac = 6"
proof -
  have "collect xs = Some ys \<Longrightarrow> length ys = length xs" for xs :: "u8 option list" and ys
    by (induction xs arbitrary: ys rule: collect.induct) (auto split: option.splits)
  then show "parse_mac a = Some mac \<Longrightarrow> length mac = 6" unfolding parse_mac_def by fastforce
qed

text \<open>No option changes the header's length or its bytes outside the three addresses.\<close>

definition header_ok :: "u8 list \<Rightarrow> bool" where
  "header_ok h \<longleftrightarrow> length h = 24 \<and> take 4 h = take 4 u8aIeeeHeader \<and> drop 22 h = drop 22 u8aIeeeHeader \<and>
     take 6 (drop 10 h) = take 6 (drop 16 h)"

lemma set_src_eq:
  "length (ieee_header c) = 24 \<Longrightarrow> parse_mac a = Some mac \<Longrightarrow> set_src a c =
     Opt_ok (c\<lparr>ieee_header := take 10 (ieee_header c) @ mac @ mac @ drop 22 (ieee_header c)\<rparr>)"
  using parse_mac_length [of a mac] by (simp add: set_src_def memcpy_at_def)

lemma set_dst_eq:
  "length (ieee_header c) = 24 \<Longrightarrow> parse_mac a = Some mac \<Longrightarrow> set_dst a c =
     Opt_ok (c\<lparr>ieee_header := take 4 (ieee_header c) @ mac @ drop 10 (ieee_header c)\<rparr>)"
  using parse_mac_length [of a mac] by (simp add: set_dst_def memcpy_at_def)

lemma handle_opt_header:
  assumes "header_ok (ieee_header c)" "handle_opt p c = Opt_ok c'"
  shows "header_ok (ieee_header c')"
proof (cases p)
  case (Opt_src a)
  with assms obtain mac where mac: "parse_mac a = Some mac"
    by (auto simp: handle_opt_def set_src_def split: option.splits)
  then show ?thesis
    using assms Opt_src set_src_eq [OF _ mac, of c] parse_mac_length [OF mac]
    by (auto simp: handle_opt_def header_ok_def u8aIeeeHeader_def)
next
  case (Opt_dst a)
  with assms obtain mac where mac: "parse_mac a = Some mac"
    by (auto simp: handle_opt_def set_dst_def split: option.splits)
  then show ?thesis
    using assms Opt_dst set_dst_eq [OF _ mac, of c] parse_mac_length [OF mac]
    by (auto simp: handle_opt_def header_ok_def u8aIeeeHeader_def)
qed (use assms in \<open>auto simp: handle_opt_def usage_def\<close>)

lemma handle_opts_header:
  "header_ok (ieee_header c) \<Longrightarrow> handle_opts ps c = Opt_ok c' \<Longrightarrow> header_ok (ieee_header c')"
proof (induction ps c rule: handle_opts.induct)
  case (2 p ps c)
  then show ?case using handle_opt_header [of c p] by (auto split: opt_result.splits)
qed simp

text \<open>The number of packets after which the loop ends.\<close>

definition packets :: "config \<Rightarrow> nat" where
  "packets c = (if count c = 0 then 2 ^ 32 else unat (count c))"

lemma last_packet:
  assumes "k < packets c" "x = of_nat k"
  shows "x + 1 = count c \<longleftrightarrow> Suc k = packets c"
proof -
  have k: "k < 2 ^ 32" using assms(1) unat_bound [of "count c"] by (auto simp: packets_def split: if_splits)
  have x: "x + 1 = of_nat (Suc k)" using assms(2) by simp
  have "(of_nat (Suc k) :: u32) = count c \<longleftrightarrow> Suc k mod 2 ^ 32 = unat (count c)"
    unfolding word_unat_eq_iff by (simp only: unat_of_nat) simp
  also have "\<dots> \<longleftrightarrow> Suc k = packets c"
  proof (cases "Suc k = 2 ^ 32")
    case True
    then show ?thesis using assms(1) k unat_bound [of "count c"] by (auto simp: packets_def unat_eq_zero)
  next
    case False
    then have "Suc k mod 2 ^ 32 = Suc k" using k by simp
    then show ?thesis using False by (auto simp: packets_def unat_eq_zero)
  qed
  finally show ?thesis unfolding x .
qed

lemma spam_loop_run:
  "sent s = of_nat k \<Longrightarrow> k < packets c \<Longrightarrow> frames s = k \<Longrightarrow> (\<And>i. i \<in> set is \<Longrightarrow> fst i = send_length c) \<Longrightarrow>
   (if length is < packets c - k
    then \<exists>s'. spam_loop c is s = Inr s' \<and> frames s' = k + length is
    else \<exists>s'. spam_loop c is s = Inl (0, s') \<and> frames s' = packets c)"
proof (induction "is" arbitrary: s k)
  case Nil
  then show ?case by auto
next
  case (Cons i "is")
  have r: "fst i = send_length c" using Cons.prems(4) by simp
  have step: "(case spam_round c i s of Inl (r, s') \<Rightarrow> r = 0 \<and> frames s' = Suc k \<and> Suc k = packets c
     | Inr s' \<Rightarrow> sent s' = of_nat (Suc k) \<and> frames s' = Suc k \<and> Suc k \<noteq> packets c)"
    using last_packet [OF Cons.prems(2,1)] r Cons.prems(1,3)
    by (cases i) (auto simp: spam_round_def Let_def)
  show ?case
  proof (cases "spam_round c i s")
    case (Inl e)
    then show ?thesis using step by (cases e) auto
  next
    case (Inr s1)
    then have "sent s1 = of_nat (Suc k)" "Suc k < packets c" "frames s1 = Suc k"
      using step Cons.prems(2) by auto
    from Cons.IH [OF this] Cons.prems(4) Inr show ?thesis by (auto split: if_splits)
  qed
qed


text \<open>The pause in microseconds; the difference wraps above eighty.\<close>

lemma pause_length:
  assumes "unat b \<le> 1000"
  shows "unat (wait_us b) = (if unat b \<le> 80 then 100 * (80 - unat b) else 2 ^ 32 - 100 * (unat b - 80))"
proof (cases "unat b \<le> 80")
  case True
  then have u: "unat (80 - b) = 80 - unat b" by (subst unat_sub_le) (simp_all add: word_le_nat_alt)
  have "unat (100 * (80 - b)) = 100 * (80 - unat b)"
    using unat_mult_small [of 100 "80 - b"] unfolding u by simp
  then show ?thesis using True by (simp only: wait_us_def Let_def if_True)
next
  case False
  define n where "n = 100 * (unat b - 80)"
  have n: "0 < n" "n \<le> 92000" using False assms by (simp_all add: n_def)
  have b: "b = of_nat (unat b)" by simp
  have "of_nat n = 100 * (b - 80)" using False unfolding n_def by (subst (2) b) (simp add: of_nat_diff)
  then have "wait_us b = - of_nat n" by (simp add: wait_us_def Let_def algebra_simps)
  also have "\<dots> = of_nat (2 ^ 32 - n)" using n by (simp add: of_nat_diff)
  finally have "unat (wait_us b) = unat (of_nat (2 ^ 32 - n) :: u32)" by (rule arg_cong)
  also have "\<dots> = 2 ^ 32 - n" using n by (simp only: unat_of_nat) simp
  finally show ?thesis using False unfolding n_def by simp
qed

section \<open>Properties\<close>

text \<open>
  The radiotap header of the sent frames, read by the iterator, announces exactly the
  timestamp, flags, rate, channel, antenna signal, antenna noise and antenna; the flags and
  the rate lie where \<open>OFFSET_FLAGS\<close> and \<open>OFFSET_RATE\<close> say, the last field ends with the header.
\<close>

theorem template_header_parses:
  "\<exists>it. iter_init (u8aRadiotapHeader @ rest) 25 iter_blank = Inr (0, it) \<and>
     iter_walk (u8aRadiotapHeader @ rest) it =
       ([(0, Some 8), (1, Some OFFSET_FLAGS), (2, Some OFFSET_RATE), (3, Some 18), (5, Some 22),
         (6, Some 23), (11, Some 24)], Inr (- ENOENT))"
proof -
  let ?m = "u8aRadiotapHeader @ rest"
  let ?it = "iter_blank\<lparr>max_length := 25, arg := 8, bitmap_shifter := 0x86f\<rparr>"
  have n: "u8aRadiotapHeader ! i = [0x00, 0x00, 0x19, 0x00, 0x6f, 0x08, 0x00, 0x00] ! i" if "i < 8" for i
    using that by (auto simp: u8aRadiotapHeader_def less_Suc_eq eval_nat_numeral)
  have l: "length u8aRadiotapHeader = 25" by (simp add: u8aRadiotapHeader_def)
  have le32: "le32_to_cpu ?m 4 = Inr 0x86f"
    by (simp add: le32_to_cpu_def l nth_append n)
  then have "iter_init ?m 25 iter_blank = Inr (0, ?it)"
    by (simp add: iter_init_def Let_def rd8_def le16_to_cpu_def it_version_def it_len_def it_present_def
        RADIOTAP_EXT_def sizeof_header_def iter_blank_def l nth_append n bit_numeral_rec)
  moreover have "filter (bit (0x86f :: u32)) [0..<14] = [0, 1, 2, 3, 5, 6, 11]"
    by (simp add: upt_rec bit_numeral_rec)
  then have "iter_walk ?m ?it = (layout 8 [0, 1, 2, 3, 5, 6, 11], Inr (- ENOENT))"
    using walk_layout [of ?it "0x86f" ?m] by (simp add: iter_blank_def table round_up_def)
  ultimately show ?thesis
    by (simp add: table round_up_def OFFSET_FLAGS_def OFFSET_RATE_def Let_def)
qed

text \<open>
  Reading an address written with small hexadecimal digits and colons gives back its six
  bytes.
\<close>

theorem mac_round_trip:
  assumes "length mac = 6"
  shows "parse_mac (print_mac mac) = Some mac"
  using length_6 [OF assms]
  by (auto simp: parse_mac_def mac_byte_def Let_def hex_pair)

theorem mac_round_trip_witness:
  "parse_mac (print_mac [0x13, 0x22, 0x33, 0xab, 0xcd, 0xef]) = Some [0x13, 0x22, 0x33, 0xab, 0xcd, 0xef]"
  by (rule mac_round_trip) simp

text \<open>
  A capital hexadecimal digit is neither refused nor read: the pair \<open>AF\<close> is read as the byte
  8F, with no error.
\<close>

theorem mac_capitals_misread:
  "mac_byte [65, 70, 0] 0 = Some 0x8f"
  by (simp add: mac_byte_def hex_digit_def Let_def)

text \<open>
  Whatever options are given, the frame header keeps its length, its control field and its
  last two bytes, and its destination and source address fields stay equal.
\<close>

theorem options_keep_header:
  assumes "handle_opts ps config0 = Opt_ok c"
  shows "length (ieee_header c) = 24 \<and> take 4 (ieee_header c) = [0x08, 0x01, 0x00, 0x00] \<and>
    drop 22 (ieee_header c) = [0x10, 0x86] \<and>
    take 6 (drop 10 (ieee_header c)) = take 6 (drop 16 (ieee_header c))"
proof -
  have "header_ok (ieee_header config0)" by (simp add: header_ok_def config0_def u8aIeeeHeader_def)
  from handle_opts_header [OF this assms] show ?thesis
    by (simp add: header_ok_def u8aIeeeHeader_def)
qed

theorem options_keep_header_witness:
  "length (ieee_header (config0\<lparr>frame_len := 500, flagMarkWithFCS := True\<rparr>)) = 24"
  using options_keep_header [of "[Opt_len 500, Opt_fcs]" "config0\<lparr>frame_len := 500, flagMarkWithFCS := True\<rparr>"]
  by (simp add: handle_opt_def)

text \<open>
  The bytes handed to \<open>pcap_inject\<close>: the radiotap header, with the FCS flag set exactly when
  asked for, and the frame header with \<open>frame_len\<close> as its length, less the four bytes of FCS
  unless these are marked as included. They stay in the send buffer exactly when
  \<open>frame_len\<close> is at most 2479 (2475 with the mark).
\<close>

theorem frame_sent:
  assumes "length (ieee_header c) = 24" "length txt \<le> 2451"
    and "28 \<le> unat (frame_len c)" "unat (frame_len c) < 2 ^ 31"
  shows "\<exists>b. frame_buffer c txt = Some b \<and> length b = 2500 \<and>
    take 16 b = take 16 u8aRadiotapHeader \<and>
    b ! 16 = (if flagMarkWithFCS c then 0x12 else 0x02) \<and>
    take 24 (drop 25 b) = ieee_header c \<and> take (length txt) (drop 49 b) = txt \<and>
    unat (send_length c) = 25 + unat (frame_len c) - (if flagMarkWithFCS c then 0 else 4) \<and>
    (injected c b \<noteq> None) = (unat (frame_len c) \<le> (if flagMarkWithFCS c then 2475 else 2479))"
proof -
  have sl: "unat (send_length c) = 25 + unat (frame_len c) - (if flagMarkWithFCS c then 0 else 4)"
    unfolding unat_send_length_le [OF assms(1)] using assms(4)
    by (simp add: unat_add_small)
  let ?f = "if flagMarkWithFCS c then u8aRadiotapHeader[16 := 0x12] else u8aRadiotapHeader"
  have rep: "replicate 2500 0 = replicate 25 (0::u8) @ replicate 24 0 @ replicate 2451 0"
    by (simp flip: replicate_add)
  have l: "length u8aRadiotapHeader = 25" by (simp add: u8aRadiotapHeader_def)
  have b16: "u8aRadiotapHeader ! 16 = 2" by (simp add: u8aRadiotapHeader_def)
  have "frame_buffer c txt = Some (?f @ ieee_header c @ txt @ replicate (2451 - length txt) 0)"
    using assms(1,2) l b16
    by (simp add: frame_buffer_def SEND_BUFFER_def memcpy_at_def rep Let_def OFFSET_FLAGS_def
        RADIOTAP_F_FCS_def nth_append list_update_append)
  then show ?thesis
    using assms(1,2) sl l b16 by (auto simp: injected_def nth_append)
qed

theorem frame_sent_witness:
  "\<exists>b. frame_buffer config0 [65, 0] = Some b \<and> unat (send_length config0) = 1021 \<and> injected config0 b \<noteq> None"
  using frame_sent [of config0 "[65, 0]"] by (auto simp: config0_def u8aIeeeHeader_def)

text \<open>
  C35: If every injection succeeds, the loop sends exactly \<open>count\<close> packets and exits with status
  0; before that it is running. A \<open>count\<close> of 0, meant as infinity, ends after 2 to the 32
  packets, when the counter wraps.
\<close>

theorem spam_sends_count:
  assumes "\<And>i. i \<in> set is \<Longrightarrow> fst i = send_length c"
  defines "N \<equiv> (if count c = 0 then 2 ^ 32 else unat (count c))"
  shows "(if length is < N then \<exists>s. spam_loop c is spam0 = Inr s \<and> frames s = length is
    else \<exists>s. spam_loop c is spam0 = Inl (0, s) \<and> frames s = N)"
proof -
  have "0 < packets c" by (auto simp: packets_def unat_eq_zero word_gt_0 intro: Nat.gr0I)
  moreover have "sent spam0 = of_nat 0" "frames spam0 = 0" by (simp_all add: spam0_def)
  ultimately show ?thesis
    using spam_loop_run [of spam0 0 c "is"] assms(1)
    unfolding N_def packets_def [symmetric] by (simp split: if_splits)
qed

theorem spam_sends_count_witness:
  "\<exists>s. spam_loop (config0\<lparr>count := 3\<rparr>) (replicate 10 (1021, 20)) spam0 = Inl (0, s) \<and> frames s = 3"
proof -
  have "send_length (config0\<lparr>count := 3\<rparr>) = 1021"
    by (simp add: unat_send_length_le config0_def u8aIeeeHeader_def)
  then show ?thesis
    using spam_sends_count [of "replicate 10 (1021, 20)" "config0\<lparr>count := 3\<rparr>"] by simp
qed

text \<open>
  The pause is a hundred microseconds for each of eighty buffers in use: it falls from 8000
  to 0 as the driver reports up to eighty free buffers. With more free buffers than that the
  difference is negative and \<open>usleep\<close> is asked for over an hour (up to a thousand free buffers are stated).
\<close>

theorem wait_us_range:
  assumes "unat b \<le> 1000"
  shows "unat (wait_us b) = (if unat b \<le> 80 then 100 * (80 - unat b) else 2 ^ 32 - 100 * (unat b - 80))"
  using assms by (rule pause_length)

theorem wait_us_range_witness: "unat (wait_us 81) = 4294967196"
  using wait_us_range [of 81] by simp

end
