(* ===== verification/Set_Contention.thy ===== *)
theory Set_Contention
  imports Kernel_Modules Contention
begin

text \<open>
  \<open>set_contention_window.c\<close>: on loading it clears the window and interframe-space fields of
  queue 1 and prints the registers of ten queues; its polling work prints the registers of
  eight queues and writes nothing. \<open>printed\<close> holds what is printed, the newest last.
\<close>

datatype cw_line =
    Lcl_ifs u32 u32              \<comment> \<open>queue, register value\<close>
  | Ifs_fields u32 u32 u32       \<comment> \<open>minimum, maximum, interframe space\<close>
  | Misc_after u32 u32
  | Timer_error

record cw_state = reg_bus +
  printed :: "cw_line list"
  work_queued :: bool

definition cw_print :: "cw_line \<Rightarrow> (cw_state, unit) state" where
  "cw_print l = modify (\<lambda>s. s\<lparr>printed := printed s @ [l]\<rparr>)"

definition CW_CONSTANT :: u32 where "CW_CONSTANT = 0xffffefff"

text \<open>The macros on register fields: mask \<open>f\<close>, shift \<open>n\<close>.\<close>

definition reg_rmw_field :: "u32 \<Rightarrow> u32 \<Rightarrow> nat \<Rightarrow> u32 \<Rightarrow> ('a reg_bus_scheme, unit) state" where
  "reg_rmw_field r f n v = do { _ \<leftarrow> ath9k_reg_rmw r (push_bit n v AND f) f; ret () }"

definition reg_read_field :: "u32 \<Rightarrow> u32 \<Rightarrow> nat \<Rightarrow> ('a reg_bus_scheme, u32) state" where
  "reg_read_field r f n = do { v \<leftarrow> ath9k_ioread32 r; ret (drop_bit n (v AND f)) }"

definition cw_report :: "chip \<Rightarrow> u32 \<Rightarrow> (cw_state, unit) state" where
  "cw_report K qnum = do {
     val \<leftarrow> ath9k_ioread32 (AR_DLCL_IFS K qnum);
     cwmin \<leftarrow> reg_read_field (AR_DLCL_IFS K qnum) (LCL_IFS_CWMIN K) (LCL_IFS_CWMIN_S K);
     cwmax \<leftarrow> reg_read_field (AR_DLCL_IFS K qnum) (LCL_IFS_CWMAX K) (LCL_IFS_CWMAX_S K);
     aifs \<leftarrow> reg_read_field (AR_DLCL_IFS K qnum) (LCL_IFS_AIFS K) (LCL_IFS_AIFS_S K);
     cw_print (Lcl_ifs qnum val);
     cw_print (Ifs_fields cwmin cwmax aifs)
   }"

definition test_init :: "chip \<Rightarrow> (cw_state, int) state" where
  "test_init K = do {
     reg_rmw_field (AR_DLCL_IFS K 1) (LCL_IFS_CWMIN K) (LCL_IFS_CWMIN_S K) 0;
     reg_rmw_field (AR_DLCL_IFS K 1) (LCL_IFS_CWMAX K) (LCL_IFS_CWMAX_S K) 0;
     reg_rmw_field (AR_DLCL_IFS K 1) (LCL_IFS_AIFS K) (LCL_IFS_AIFS_S K) 0;
     for_each (cw_report K) dcu_queues;
     ret 0
   }"

definition cw_poll_queue :: "chip \<Rightarrow> u32 \<Rightarrow> (cw_state, unit) state" where
  "cw_poll_queue K qnum = do {
     val \<leftarrow> ath9k_ioread32 (AR_DLCL_IFS K qnum);
     cw_print (Lcl_ifs qnum val);
     val \<leftarrow> ath9k_ioread32 (AR_DMISC K qnum);
     let set' = val AND CW_CONSTANT;
     val \<leftarrow> ath9k_ioread32 (AR_DMISC K qnum);
     cw_print (Misc_after qnum val)
   }"

text \<open>The work function; the input says whether \<open>mod_timer\<close> returned non-zero.\<close>

definition cw_poll :: "chip \<Rightarrow> bool \<Rightarrow> (cw_state, unit) state" where
  "cw_poll K timer_error = do {
     modify (\<lambda>s. s\<lparr>work_queued := False\<rparr>);
     for_each (cw_poll_queue K) cw_queues;
     if timer_error then cw_print Timer_error else ret ()
   }"

definition cw_timer_handler :: "(cw_state, unit) state" where
  "cw_timer_handler = modify (\<lambda>s. s\<lparr>work_queued := True\<rparr>)"

section \<open>Lemmas\<close>

lemma read_only [simp]:
  "mem (exec (ath9k_ioread32 r) s) = mem s" "res (ath9k_ioread32 r) s = mem s r"
  "reg_bus.more (exec (ath9k_ioread32 r) s) = reg_bus.more s"
  by (simp_all add: reg_access_defs)

lemma mem_cw_print [simp]: "mem (exec (cw_print l) s) = mem s"
  by (simp add: cw_print_def)

lemma cw_more:
  "reg_bus.more s = reg_bus.more t \<Longrightarrow> printed s = printed t"
  by (cases s; cases t) simp

lemma printed_read [simp]:
  "printed (exec (ath9k_ioread32 r) s) = printed s"
  "printed (exec (ath9k_reg_rmw r st cl) s) = printed s"
  by (rule cw_more, simp)+

definition report_of :: "chip \<Rightarrow> (u32 \<Rightarrow> u32) \<Rightarrow> u32 \<Rightarrow> cw_line list" where
  "report_of K m q =
     [Lcl_ifs q (m (AR_DLCL_IFS K q)),
      Ifs_fields (drop_bit (LCL_IFS_CWMIN_S K) (m (AR_DLCL_IFS K q) AND LCL_IFS_CWMIN K))
        (drop_bit (LCL_IFS_CWMAX_S K) (m (AR_DLCL_IFS K q) AND LCL_IFS_CWMAX K))
        (drop_bit (LCL_IFS_AIFS_S K) (m (AR_DLCL_IFS K q) AND LCL_IFS_AIFS K))]"

lemma cw_report_eq:
  "mem (exec (cw_report K q) s) = mem s"
  "printed (exec (cw_report K q) s) = printed s @ report_of K (mem s) q"
  by (simp_all add: cw_report_def reg_read_field_def report_of_def) (simp add: cw_print_def)

lemma cw_reports:
  "mem (exec (for_each (cw_report K) qs) s) = mem s \<and>
   printed (exec (for_each (cw_report K) qs) s) = printed s @ concat (map (report_of K (mem s)) qs)"
  by (induction qs arbitrary: s) (simp_all add: cw_report_eq del: for_each.simps)

lemma clear_field:
  "mem (exec (reg_rmw_field r f n 0) s) = (mem s)(r := mem s r AND NOT f)"
  "printed (exec (reg_rmw_field r f n 0) (t :: cw_state)) = printed t"
  by (simp_all add: reg_rmw_field_def ath_bus.rmw_peek)

lemma cw_poll_mem: "mem (exec (for_each (cw_poll_queue K) qs) s) = mem s"
  by (induction qs arbitrary: s) (simp_all add: cw_poll_queue_def Let_def del: for_each.simps)

section \<open>Properties\<close>

text \<open>
  Loading the module clears exactly the three fields of queue 1, keeps every other bit and
  register, and prints for the ten queues, in order, the register and its fields as they are
  then; for queue 1 the three fields read zero. The polling work changes no register.
\<close>

theorem set_contention_clears:
  "let m = (mem s)(AR_DLCL_IFS K 1 := ((mem s (AR_DLCL_IFS K 1) AND NOT (LCL_IFS_CWMIN K))
              AND NOT (LCL_IFS_CWMAX K)) AND NOT (LCL_IFS_AIFS K))
   in res (test_init K) s = 0 \<and> mem (exec (test_init K) s) = m \<and>
      printed (exec (test_init K) s) = printed s @ concat (map (report_of K m) dcu_queues) \<and>
      report_of K m 1 ! 1 = Ifs_fields 0 0 0 \<and>
      mem (exec (cw_poll K e) s) = mem s"
proof -
  have z: "(((x AND NOT a) AND NOT b) AND NOT c) AND a = 0" "(((x AND NOT a) AND NOT b) AND NOT c) AND b = 0"
    "(((x AND NOT a) AND NOT b) AND NOT c) AND c = 0" for x a b c :: u32
    by (rule bit_word_eqI, auto simp: bit_simps)+
  show ?thesis
    by (simp add: Let_def test_init_def cw_reports clear_field cw_poll_def cw_poll_mem report_of_def z
        del: for_each.simps drop_bit_and)
qed

end
