(* ===== verification/Char_Device.thy ===== *)
theory Char_Device
  imports Kernel_Modules
begin

text \<open>
  \<open>ath9k/buffer_number.c\<close>, the character device through which user space reads the number of
  free transmit buffers, and its reader \<open>ath9k/read_buffer_number.c\<close>. The results of the
  kernel's registration functions and of \<open>copy_to_user\<close> (the number of bytes it could not
  copy) are inputs. User memory from the caller's buffer on is a list of bytes, big endian as
  on the target.
\<close>

section \<open>Loading and unloading\<close>

record chrdev_env =
  e_register_chrdev :: int
  e_class_create :: int       \<comment> \<open>negative: an error pointer\<close>
  e_device_create :: int

definition ebbchar_init :: "chrdev_env \<Rightarrow> (kres, int) state" where
  "ebbchar_init E = do {
     let majorNumber = e_register_chrdev E;
     only_if (0 \<le> majorNumber) (acquire Chrdev_major);
     if majorNumber < 0 then ret majorNumber
     else do {
       only_if (0 \<le> e_class_create E) (acquire Device_class);
       if e_class_create E < 0 then do {
         release Chrdev_major;
         ret (e_class_create E)
       } else do {
         only_if (0 \<le> e_device_create E) (acquire Device_node);
         if e_device_create E < 0 then do {
           release Device_class;
           release Chrdev_major;
           ret (e_device_create E)
         } else ret 0
       }
     }
   }"

text \<open>\<open>class_destroy\<close> unregisters the class, and so does \<open>class_unregister\<close> before it.\<close>

definition class_unregister :: "(kres, unit) state" where
  "class_unregister = release Device_class"

definition class_destroy :: "(kres, unit) state" where
  "class_destroy = class_unregister"

definition ebbchar_exit :: "(kres, unit) state" where
  "ebbchar_exit = do {
     release Device_node;
     class_unregister;
     class_destroy;
     release Chrdev_major
   }"

section \<open>File operations\<close>

record chrdev =
  message :: "u8 list"          \<comment> \<open>\<open>message[256]\<close>\<close>
  size_of_message :: "16 word"
  numberOpens :: u32
  buf_counter :: u32            \<comment> \<open>kept by the driver\<close>

definition MESSAGE_SIZE :: nat where "MESSAGE_SIZE = 256"

definition my_open :: "(chrdev, int) state" where
  "my_open = do {
     modify (\<lambda>d. d\<lparr>numberOpens := numberOpens d + 1\<rparr>);
     ret 0
   }"

definition dev_release :: "(chrdev, int) state" where
  "dev_release = ret 0"

definition be_bytes :: "u32 \<Rightarrow> u8 list" where
  "be_bytes w = [ucast (drop_bit 24 w), ucast (drop_bit 16 w), ucast (drop_bit 8 w), ucast w]"

definition be_word :: "u8 list \<Rightarrow> u32" where
  "be_word b = push_bit 24 (ucast (b ! 0)) OR push_bit 16 (ucast (b ! 1)) OR push_bit 8 (ucast (b ! 2)) OR
     ucast (b ! 3)"

text \<open>\<open>copy_to_user\<close> of the four bytes, of which the last \<open>missing\<close> are not copied.\<close>

definition copy_to_user :: "u8 list \<Rightarrow> u8 list \<Rightarrow> nat \<Rightarrow> u8 list" where
  "copy_to_user user src missing =
     (let k = length src - missing in take k src @ drop k user)"

definition dev_read :: "u8 list \<Rightarrow> u32 \<Rightarrow> nat \<Rightarrow> (chrdev, int \<times> u8 list) state" where
  "dev_read user len missing = do {
     counter \<leftarrow> gets buf_counter;
     let user' = copy_to_user user (be_bytes counter) missing;
     if missing = 0 then do {
       modify (\<lambda>d. d\<lparr>size_of_message := 0\<rparr>);
       n \<leftarrow> gets size_of_message;
       ret (sint n, user')
     } else ret (- EFAULT, user')
   }"

text \<open>
  \<open>dev_write\<close>: \<open>sprintf\<close> of the string at \<open>buffer\<close>, whose memory is \<open>user\<close>, and of the length
  in decimal. A string without its zero, or a result that does not fit \<open>message\<close>, is a fault.
\<close>

fun decimal :: "nat \<Rightarrow> u8 list" where
  "decimal n = (if n < 10 then [48 + of_nat n] else decimal (n div 10) @ [48 + of_nat (n mod 10)])"

declare decimal.simps [simp del]

definition c_string :: "u8 list \<Rightarrow> u8 list option" where
  "c_string m = (if 0 \<in> set m then Some (takeWhile (\<lambda>b. b \<noteq> 0) m) else None)"

definition letters :: "u8 list" where
  "letters = [32, 108, 101, 116, 116, 101, 114, 115, 41]"   \<comment> \<open>a blank and \<open>letters)\<close>\<close>

definition dev_write :: "u8 list \<Rightarrow> u32 \<Rightarrow> (chrdev, fault + u32) state" where
  "dev_write user len =
     (case c_string user of
        None \<Rightarrow> ret (Inl Out_of_bounds)
      | Some str \<Rightarrow>
          (let out = str @ [40] @ decimal (unat len) @ letters
           in if length out + 1 > MESSAGE_SIZE then ret (Inl Out_of_bounds)
              else do {
                modify (\<lambda>d. d\<lparr>message := out @ [0] @ drop (length out + 1) (message d)\<rparr>);
                modify (\<lambda>d. d\<lparr>size_of_message := of_nat (length (takeWhile (\<lambda>b. b \<noteq> 0) (message d)))\<rparr>);
                ret (Inr len)
              }))"

section \<open>The reader\<close>

text \<open>
  \<open>main\<close> of \<open>read_buffer_number.c\<close>: the file descriptor, and for each of the hundred reads
  its result and the integer then in \<open>tmp\<close>. Yields the integers printed and whether it
  stopped with an error.
\<close>

fun read_loop :: "nat \<Rightarrow> (int \<times> u32) list \<Rightarrow> u32 list \<times> bool" where
  "read_loop 0 rs = ([], False)"
| "read_loop (Suc n) [] = ([], False)"
| "read_loop (Suc n) ((r, tmp) # rs) =
     (if r < 0 then ([tmp], True)
      else (case read_loop n rs of (out, e) \<Rightarrow> (tmp # out, e)))"

definition read_buffer_number :: "int \<Rightarrow> (int \<times> u32) list \<Rightarrow> u32 list \<times> bool" where
  "read_buffer_number fd rs = (if fd < 0 then ([], True) else read_loop 100 rs)"

text \<open>A sequence of successful reads of the device into the same four bytes.\<close>

fun device_reads :: "nat \<Rightarrow> chrdev \<Rightarrow> (int \<times> u32) list" where
  "device_reads 0 d = []"
| "device_reads (Suc n) d =
     (let r = res (dev_read [0, 0, 0, 0] 4 0) d
      in (fst r, be_word (snd r)) # device_reads n (exec (dev_read [0, 0, 0, 0] 4 0) d))"

section \<open>Lemmas\<close>

lemma be_word_bytes: "be_word (be_bytes w) = w"
proof (rule bit_word_eqI)
  fix i assume i: "i < LENGTH(32)"
  consider "i < 8" | "8 \<le> i" "i < 16" | "16 \<le> i" "i < 24" | "24 \<le> i" by linarith
  then show "bit (be_word (be_bytes w)) i = bit w i"
    using i by cases (auto simp: be_word_def be_bytes_def bit_simps)
qed

lemma dev_read_ok:
  "res (dev_read user len 0) d = (0, be_bytes (buf_counter d) @ drop 4 user)"
  "exec (dev_read user len 0) d = d\<lparr>size_of_message := 0\<rparr>"
  by (simp_all add: dev_read_def copy_to_user_def be_bytes_def Let_def eval_nat_numeral)

lemma device_reads_eq: "device_reads n d = replicate n (0, buf_counter d)"
  by (induction n arbitrary: d) (simp_all add: dev_read_ok be_word_bytes)

lemma read_loop_ok: "read_loop n (replicate n (0, w)) = (replicate n w, False)"
  by (induction n) simp_all

lemma decimal_digits: "0 \<notin> set (decimal n) \<and> 1 \<le> length (decimal n)"
proof (induction n rule: decimal.induct)
  case (1 n)
  have d: "(48 + of_nat k :: u8) \<noteq> 0" if "k < 10" for k
  proof -
    have "unat (48 + of_nat k :: u8) = 48 + k"
      using that by (subst unat_add_small) (simp_all add: unat_of_nat)
    then show ?thesis by (metis add_is_0 unat_0 zero_neq_numeral)
  qed
  show ?case
  proof (cases "n < 10")
    case True
    then show ?thesis using d [of n] by (subst (1 2) decimal.simps) auto
  next
    case False
    then show ?thesis using 1 [OF False] d [of "n mod 10"] by (subst (1 2) decimal.simps) auto
  qed
qed

section \<open>Properties\<close>

text \<open>
  A failed load of the device gives back exactly what it had registered, whichever step
  fails; but a load and unload never is clean: the class is unregistered twice.
\<close>

theorem chrdev_load_unload:
  "(if res (ebbchar_init E) kres0 \<noteq> 0 then clean (exec (ebbchar_init E) kres0) \<or> 0 < res (ebbchar_init E) kres0
    else held_res (exec (ebbchar_init E) kres0) = {Chrdev_major, Device_class, Device_node} \<and>
      held_res (exec ebbchar_exit (exec (ebbchar_init E) kres0)) = {} \<and>
      bad_release (exec ebbchar_exit (exec (ebbchar_init E) kres0)))"
  by (auto simp: ebbchar_init_def ebbchar_exit_def class_unregister_def class_destroy_def res_defs
      clean_def kres0_def Let_def)

text \<open>
  A hundred reads by the reader print the driver's free-buffer count a hundred times, with
  no error: the four bytes copied are read back as the same number, although each read
  answers 0, which by the interface is the end of the file with nothing read.
\<close>

theorem reader_sees_counter:
  "read_buffer_number 3 (device_reads 100 d) = (replicate 100 (buf_counter d), False) \<and>
   fst (res (dev_read user len 0) d) = 0"
  by (simp add: read_buffer_number_def device_reads_eq read_loop_ok dev_read_ok)

text \<open>
  The read ignores the caller's length: a reader that offers \<open>len\<close> bytes, fewer than four,
  has the bytes behind its buffer overwritten.
\<close>

theorem read_overruns_short_buffer:
  assumes "unat len < 4" "4 \<le> length user" "be_bytes (buf_counter d) ! 3 \<noteq> user ! 3"
  shows "snd (res (dev_read user len 0) d) ! 3 \<noteq> user ! 3"
  using assms by (simp add: dev_read_ok be_bytes_def)

definition chrdev0 :: chrdev where
  "chrdev0 = \<lparr>message = replicate 256 0, size_of_message = 0, numberOpens = 0, buf_counter = 77\<rparr>"

theorem read_overruns_short_buffer_witness:
  "snd (res (dev_read [0, 0, 0, 9] 2 0) chrdev0) ! 3 \<noteq> 9"
  using read_overruns_short_buffer [of 2 "[0, 0, 0, 9]" chrdev0]
  by (simp add: chrdev0_def be_bytes_def)

text \<open>
  A write stores the string followed by its announced length in parentheses, and keeps the
  message's 256 bytes, exactly when that text with its terminating zero fits; a longer string,
  which nothing refuses, is written past the end of the message.
\<close>

theorem dev_write_fits:
  assumes "length (message d) = 256" "0 \<notin> set str" "out = str @ [40] @ decimal (unat len) @ letters"
  shows "if length out < 256
    then res (dev_write (str @ 0 # rest) len) d = Inr len \<and>
      length (message (exec (dev_write (str @ 0 # rest) len) d)) = 256 \<and>
      take (length out) (message (exec (dev_write (str @ 0 # rest) len) d)) = out \<and>
      unat (size_of_message (exec (dev_write (str @ 0 # rest) len) d)) = length out
    else res (dev_write (str @ 0 # rest) len) d = Inl Out_of_bounds"
proof -
  have tw: "takeWhile (\<lambda>b. b \<noteq> 0) (str @ 0 # rest) = str" using assms(2) by (induction str) auto
  have "0 \<notin> set out" using assms(2) decimal_digits [of "unat len"] by (auto simp: assms(3) letters_def)
  then have tw': "takeWhile (\<lambda>b. b \<noteq> 0) (out @ [0] @ xs) = out" for xs by (induction out) auto
  have n: "unat (of_nat (length out) :: 16 word) = length out" if "length out < 256"
    using that by (simp add: unat_of_nat)
  have c: "c_string (str @ 0 # rest) = Some str" using tw by (simp add: c_string_def)
  have w: "dev_write (str @ 0 # rest) len =
    (if length out + 1 > MESSAGE_SIZE then ret (Inl Out_of_bounds)
     else do {
       modify (\<lambda>d. d\<lparr>message := out @ [0] @ drop (length out + 1) (message d)\<rparr>);
       modify (\<lambda>d. d\<lparr>size_of_message := of_nat (length (takeWhile (\<lambda>b. b \<noteq> 0) (message d)))\<rparr>);
       ret (Inr len)
     })"
    unfolding dev_write_def c Let_def assms(3) by simp
  show ?thesis
    unfolding w using assms(1) n tw' [of "drop (Suc (length out)) (message d)"]
    by (auto simp: MESSAGE_SIZE_def)
qed

theorem dev_write_fits_witness:
  "res (dev_write (replicate 300 65 @ [0]) 300) chrdev0 = Inl Out_of_bounds"
  using dev_write_fits [OF _ _ refl, of chrdev0 "replicate 300 65" 300 "[]"] by (simp add: chrdev0_def)

end
