(* ===== verification/Ath_State.thy ===== *)
theory Ath_State
  imports Registers
begin

text \<open>
  The state of the wireless driver (\<open>struct ath_softc\<close> of \<open>ath9k/ath9k.h\<close> with the fields of the
  hardware structure that \<open>ath9k/main.c\<close> uses), the functions it calls in other files and the
  locks it takes. What another file, the chip or mac80211 does is not in this repository: it is
  the parameter \<open>world D\<close>, a function of the call and the state that yields the result and the
  new state. Calls and lock operations are recorded in \<open>trace\<close>, the newest first.
\<close>

section \<open>Enumerations\<close>

datatype power_mode = PM_AWAKE | PM_FULL_SLEEP | PM_NETWORK_SLEEP | PM_UNDEFINED

datatype iftype = IF_STATION | IF_AP | IF_AP_VLAN | IF_ADHOC | IF_MESH_POINT | IF_WDS | IF_other

datatype op_flag = OP_INVALID | OP_BEACONS | OP_PRIM_STA_VIF | OP_HW_RESET | OP_SCANNING

datatype conf_flag = CONF_MONITOR | CONF_PS | CONF_IDLE | CONF_OFFCHANNEL

datatype reset_type = RESET_BB_HANG | RESET_BB_WATCHDOG | RESET_FATAL_INT | RESET_TX_GTT

datatype spectral_mode = SPECTRAL_DISABLED | SPECTRAL_BACKGROUND | SPECTRAL_MANUAL | SPECTRAL_CHANSCAN
  | SPECTRAL_other

text \<open>\<open>struct ath_beacon\<close>, the slot time state machine.\<close>

datatype updateslot = Slot_OK | Slot_UPDATE | Slot_COMMIT

text \<open>The powersave flags of \<open>ath9k.h\<close>.\<close>

definition PS_WAIT_FOR_BEACON :: u16 where "PS_WAIT_FOR_BEACON = 1"
definition PS_WAIT_FOR_CAB :: u16 where "PS_WAIT_FOR_CAB = 2"
definition PS_WAIT_FOR_PSPOLL_DATA :: u16 where "PS_WAIT_FOR_PSPOLL_DATA = 4"
definition PS_WAIT_FOR_TX_ACK :: u16 where "PS_WAIT_FOR_TX_ACK = 8"
definition PS_BEACON_SYNC :: u16 where "PS_BEACON_SYNC = 16"
definition PS_WAIT_FOR_ANI :: u16 where "PS_WAIT_FOR_ANI = 32"

lemmas ps_flag_defs = PS_WAIT_FOR_BEACON_def PS_WAIT_FOR_CAB_def PS_WAIT_FOR_PSPOLL_DATA_def
  PS_WAIT_FOR_TX_ACK_def PS_BEACON_SYNC_def PS_WAIT_FOR_ANI_def

section \<open>Calls and locks\<close>

text \<open>
  Stations, interfaces, transmit queues, keys and frames are named by numbers. A boolean result
  is a non-zero word.
\<close>

datatype cipher = CIPHER_TKIP | CIPHER_CCMP | CIPHER_other

text \<open>\<open>struct ieee80211_key_conf\<close>; the flags are booleans.\<close>

record key_conf =
  hw_key_idx :: u8
  cipher :: cipher
  pairwise :: bool
  generate_iv :: bool
  generate_mmic :: bool
  sw_mgmt_tx :: bool

datatype power_call =
    Hw_setpower power_mode | Cycle_counters_update | Cycle_counters_clear
  | Hw_setrxabort bool | Hw_stopdmarecv | Del_sleep_timer | Mod_sleep_timer
  | Btcoex_is_enabled | Btcoex_stop_gen_timer

datatype work_call =
    Cancel_paprd_work | Cancel_tx_complete_work | Cancel_hw_pll_work | Cancel_mci_work
  | Cancel_hw_reset_work | Queue_tx_complete_work | Queue_hw_pll_work | Queue_hw_reset_work
  | Intr_tasklet_disable | Intr_tasklet_enable | Intr_tasklet_schedule | Intr_tasklet_kill
  | Bcon_tasklet_disable | Bcon_tasklet_enable | Bcon_tasklet_schedule | Bcon_tasklet_kill
  | Synchronize_irq | Wake_up_tx_wait | Stop_queues | Wake_queues
  | Wait_tx_pending bool

datatype int_call =
    Hw_disable_interrupts | Hw_enable_interrupts | Hw_set_interrupts | Hw_kill_interrupts
  | Hw_intrpend | Hw_getisr | Debug_stat_interrupt u32 | Gen_timer_isr | Btcoex_handle_interrupt u32
  | Hw_updatetxtriglevel | Bb_watchdog_dbg_info | Bb_watchdog_check | Hw_check_alive
  | Rx_tasklet bool | Tx_tasklet | Tx_edma_tasklet

datatype reset_call =
    Start_ani | Stop_ani | Check_ani | Drain_all_txq | Stoprecv | Startrecv
  | Hw_reset "nat option" bool bool | Mci_is_enabled | Mci_set_txpower | Mci_enable
  | Mci_update_wlan_channels bool | Cmn_update_txpow | Set_beacon | Txq_schedule nat
  | Get_channel nat | Update_survey_stats | Update_survey_nf nat
  | Hw_configpcipowersave bool | Hw_phy_disable | Start_btcoex | Stop_btcoex | Kfree_rx_frag

datatype hw_call =
    Hw_set_radar_params | Hw_getrxfilter | Hw_setrxfilter u32 | Calcrxfilter
  | Hw_cfg_output | Hw_set_gpio bool | Hw_cfg_gpio_input
  | Init_crypto | Hw_reset_tsf | Hw_gettsf32 | Hw_gettsf64 | Hw_settsf64 "64 word"
  | Hw_init_global_settings | Hw_write_associd | Hw_setbssidmask | Hw_set_tsfadjust bool | Hw_setopmode
  | Reload_chainmask | Spectral_trigger | Spectral_config bool bool
  | Gen_timer_stop | Gen_timer_start u32 u32

datatype tx_call =
    Set_txq_props nat u32 | Reset_tx_queue nat | Tx_start nat nat bool nat | Free_txskb nat
  | Update_max_aggr_framelen nat u32 | Txq_update u32 u32 u32 u32 u32
  | Tx_node_init nat | Tx_node_cleanup nat | Tx_vif_init nat | Tx_vif_cleanup nat
  | Tx_aggr_start nat u16 | Tx_aggr_stop nat u16 | Tx_aggr_resume nat u16
  | Start_tx_ba_cb nat u16 | Stop_tx_ba_cb nat u16 | Tx_aggr_sleep nat | Tx_aggr_wakeup nat

datatype vif_call =
    Beacon_assign_slot nat | Beacon_remove_slot nat | Beacon_config nat | Txprocdesc nat
  | Key_config nat "nat option" key_conf | Key_delete key_conf | Hw_set_tx_filter u8 bool
  | Update_noa nat u32 | Parse_noa nat u32 | Find_sta nat

text \<open>Regulatory data, the DFS detector and the random pool.\<close>

datatype init_call =
    Reg_notifier_apply | Reg_power_limit | Chan_max_power nat | Hw_set_txpowerlimit u32 bool
  | Dfs_set_domain u8 | Get_adc_entropy | Add_device_randomness
  | Cabq_update | Fill_led_pin | Aspm_init | Init_wow | Rfkill_start | Rfkill_stop

datatype call =
    Power power_call | Work work_call | Irq int_call | Reset reset_call | Hw hw_call
  | Tx tx_call | Vif vif_call | Init init_call

datatype drv_lock = Sc_mutex | Sc_pcu_lock | Sc_pm_lock | Cc_lock | Axq_lock nat | Rcu_read

datatype drv_ev = Lock "drv_lock lock_ev" | Call call

section \<open>The state\<close>

text \<open>An interface (\<open>struct ieee80211_vif\<close> with its \<open>struct ath_vif\<close>) and a station's node.\<close>

record vif =
  vtype :: iftype
  vaddr :: "u8 list"
  vp2p :: bool
  vassoc :: bool
  vbssid :: "u8 list"
  vaid :: u16
  venable_beacon :: bool
  vshort_slot :: bool
  primary_sta_vif :: bool
  noa_has_next_tsf :: bool
  noa_next_tsf :: u32
  noa_absent :: bool
  av_bcbuf :: "nat option"

record node =
  ps_key :: u8
  key_idx :: "u8 list"
  sleeping :: bool
  nvif :: nat

record txq =
  axq_qnum :: u32
  axq_depth :: u32
  axq_acq :: bool      \<comment> \<open>\<open>axq_acq\<close> is not empty\<close>

record softc = reg_bus +
  ps_usecount :: u32
  ps_idle :: bool
  ps_enabled :: bool
  ps_flags :: u16
  gtt_cnt :: u8
  intrstatus :: u32
  curtxpow :: u16
  txpowlimit :: u16
  nvifs :: u16
  tx99_vif :: "nat option"
  p2p_ps_vif :: "nat option"
  has_p2p_timer :: bool
  dfs_detector :: bool
  rxfilter :: u32
  rx_frag :: bool
  cur_survey :: "nat option"
  survey_in_use :: "nat \<Rightarrow> bool"
  survey_time :: "nat \<Rightarrow> u32"
  spectral :: spectral_mode
  spec_enabled :: bool
  spec_endless :: bool
  ant_tx :: u8
  ant_rx :: u8
  txqs :: "nat \<Rightarrow> txq"
  txqsetup :: "nat \<Rightarrow> bool"
  txq_map :: "nat \<Rightarrow> nat"
  txbuf :: "nat list"
  txbuf_fff :: bool           \<comment> \<open>the exported pointer to \<open>txbuf\<close> is set\<close>
  bslot0 :: "nat option"
  bcn_slottime :: u32
  bcn_updateslot :: updateslot
  bcn_tx_processed :: bool
  bcn_tx_last :: bool
  \<comment> \<open>\<open>struct ath_hw\<close> and \<open>struct ath_common\<close>\<close>
  power_mode :: power_mode
  imask :: u32
  intr_ref_cnt :: int
  opmode :: iftype
  curchan :: "nat option"
  chip_fullsleep :: bool
  is_monitoring :: bool
  reset_power_on :: bool
  diag_trigger_error :: bool
  coverage_class :: u8
  slottime :: u32
  rxchainmask :: u32
  txchainmask :: u32
  op_flags :: "op_flag set"
  macaddr :: "u8 list"
  bssidmask :: "u8 list"
  curbssid :: "u8 list"
  curaid :: u16
  last_rssi :: u32
  avgbrssi :: u32
  reg_max_antenna_gain :: u32
  tsf64 :: "64 word"          \<comment> \<open>what the last \<open>ath9k_hw_gettsf64\<close> read\<close>
  \<comment> \<open>mac80211\<close>
  conf_flags :: "conf_flag set"
  conf_chan :: nat
  conf_power_level :: u16
  conf_max_antenna_gain :: u32
  radar_enabled :: bool
  cur_power_level :: u16
  vifs :: "nat \<Rightarrow> vif"
  active_vifs :: "nat list"
  nodes :: "nat \<Rightarrow> node"
  \<comment> \<open>what happened\<close>
  trace :: "drv_ev list"

text \<open>
  The device: the constants of the chip's headers and the build's options, which never change,
  and the functions of other files.
\<close>

record int_masks =
  INT_RX :: u32
  INT_RXHP :: u32
  INT_RXLP :: u32
  INT_RXEOL :: u32
  INT_RXORN :: u32
  INT_TX :: u32
  INT_TXURN :: u32
  INT_BMISS :: u32
  INT_SWBA :: u32
  INT_TIM_TIMER :: u32
  INT_CST :: u32
  INT_GTT :: u32
  INT_TSFOOR :: u32
  INT_GENTIMER :: u32
  INT_MCI :: u32
  INT_BB_WATCHDOG :: u32
  INT_FATAL :: u32
  INT_GLOBAL :: u32

record device = int_masks +
  chip_regs :: chip
  cap_edma :: bool
  cap_ht :: bool
  cap_autosleep :: bool
  hang_watchdog :: bool
  srev_9300_20_or_later :: bool
  srev_9340_or_9330 :: bool
  srev_9100 :: bool
  has_spectral :: bool
  cfg_tx99 :: bool
  cfg_btcoex :: bool
  has_led :: bool
  eifs_equal_to_aifs :: bool
  nohwcrypt :: bool
  unplugged :: bool
  caps_rx_chainmask :: u32
  caps_tx_chainmask :: u32
  num_tx_queues :: nat
  channels_2ghz :: "nat list option"
  channels_5ghz :: "nat list option"
  phyradar_phyerr :: u32
  supported_filters :: u32
  rssi_dummy :: u32
  sw_mgmt_crypto :: bool
  world :: "call \<Rightarrow> softc \<Rightarrow> u32 \<times> softc"

section \<open>Calls, locks, brackets\<close>

definition emit_ev :: "drv_ev \<Rightarrow> (softc, unit) state" where
  "emit_ev e = modify (\<lambda>s. s\<lparr>trace := e # trace s\<rparr>)"

definition call :: "device \<Rightarrow> call \<Rightarrow> (softc, u32) state" where
  "call D c = State (\<lambda>s. (fst (world D c s), (snd (world D c s))\<lparr>trace := Call c # trace s\<rparr>))"

definition do_call :: "device \<Rightarrow> call \<Rightarrow> (softc, unit) state" where
  "do_call D c = do { _ \<leftarrow> call D c; ret () }"

text \<open>A lock, a body, the unlock.\<close>

definition with_lock :: "drv_lock \<Rightarrow> (softc, 'a) state \<Rightarrow> (softc, 'a) state" where
  "with_lock l m = do {
     emit_ev (Lock (Acquire l));
     x \<leftarrow> m;
     emit_ev (Lock (Release l));
     ret x
   }"

definition set_op :: "op_flag \<Rightarrow> (softc, unit) state" where
  "set_op f = modify (\<lambda>s. s\<lparr>op_flags := insert f (op_flags s)\<rparr>)"

definition clear_op :: "op_flag \<Rightarrow> (softc, unit) state" where
  "clear_op f = modify (\<lambda>s. s\<lparr>op_flags := op_flags s - {f}\<rparr>)"

end
