(* ===== verification/Ath_Locks.thy ===== *)
theory Ath_Locks
  imports Ath_State
begin

text \<open>
  The calculus of the driver's callbacks: \<open>uses A m\<close> says that \<open>m\<close>, started with none of the
  locks in \<open>A\<close> held, takes locks of \<open>A\<close> only, never one it holds, and ends holding what it held
  before; and that it climbs: started with locks below all of \<open>A\<close>, it takes each lock while it holds
  smaller ones only, in the order of nesting that makes the locks a linear order. \<open>keeps\<close> for a field follows from the frame property of the functions of other files
  (\<open>frames D g\<close>). Both are proved by the rules collected in \<open>uses_intros\<close> and \<open>keeps_intros\<close>.
\<close>

section \<open>Lock discipline\<close>

fun lock_events :: "drv_ev list \<Rightarrow> drv_lock lock_ev list" where
  "lock_events [] = []"
| "lock_events (Lock e # es) = e # lock_events es"
| "lock_events (Call c # es) = lock_events es"

definition locked :: "softc \<Rightarrow> drv_lock list option" where
  "locked s = held (lock_events (trace s))"

text \<open>The order of nesting: the mutex, the lock of the tasklet, the read section, power, counters, queues.\<close>

fun lock_rank :: "drv_lock \<Rightarrow> nat" where
  "lock_rank Sc_mutex = 0"
| "lock_rank Sc_pcu_lock = 1"
| "lock_rank Rcu_read = 2"
| "lock_rank Sc_pm_lock = 3"
| "lock_rank Cc_lock = 4"
| "lock_rank (Axq_lock n) = 5 + n"

lemma lock_rank_inject: "lock_rank a = lock_rank b \<longleftrightarrow> a = b"
  by (cases a; cases b) auto

instantiation drv_lock :: linorder
begin

definition less_eq_drv_lock_def: "a \<le> b \<longleftrightarrow> lock_rank a \<le> lock_rank b" for a b :: drv_lock

definition less_drv_lock_def: "a < b \<longleftrightarrow> lock_rank a < lock_rank b" for a b :: drv_lock

instance
  by standard (auto simp: less_eq_drv_lock_def less_drv_lock_def lock_rank_inject)

end

declare less_drv_lock_def [simp]

text \<open>Each lock was taken while only smaller ones were held.\<close>

fun climbs :: "drv_lock lock_ev list \<Rightarrow> bool" where
  "climbs [] \<longleftrightarrow> True"
| "climbs (Acquire l # es) \<longleftrightarrow> climbs es \<and> (case held es of None \<Rightarrow> False | Some L \<Rightarrow> \<forall>h \<in> set L. h < l)"
| "climbs (Release l # es) \<longleftrightarrow> climbs es"

definition in_order :: "softc \<Rightarrow> bool" where
  "in_order s \<longleftrightarrow> climbs (lock_events (trace s))"

definition uses :: "drv_lock set \<Rightarrow> (softc, 'a) state \<Rightarrow> bool" where
  "uses A m \<longleftrightarrow>
     (\<forall>s L. locked s = Some L \<longrightarrow> set L \<inter> A = {} \<longrightarrow> locked (exec m s) = Some L) \<and>
     (\<forall>s L. locked s = Some L \<longrightarrow> in_order s \<longrightarrow> (\<forall>h \<in> set L. \<forall>a \<in> A. h < a) \<longrightarrow> in_order (exec m s))"

named_theorems uses_intros \<open>lock rules: which locks a handler takes\<close>

lemma usesD: "uses A m \<Longrightarrow> locked s = Some L \<Longrightarrow> set L \<inter> A = {} \<Longrightarrow> locked (exec m s) = Some L"
  by (simp add: uses_def)

lemma uses_order:
  "uses A m \<Longrightarrow> locked s = Some L \<Longrightarrow> in_order s \<Longrightarrow> (\<And>h a. h \<in> set L \<Longrightarrow> a \<in> A \<Longrightarrow> h < a) \<Longrightarrow> in_order (exec m s)"
  unfolding uses_def by blast

lemma below_disjoint: "(\<And>h a. h \<in> set L \<Longrightarrow> a \<in> A \<Longrightarrow> h < a) \<Longrightarrow> set L \<inter> A = {}" for A :: "drv_lock set"
  by (meson disjoint_iff less_irrefl)

lemma uses_bind [intro]:
  assumes "uses A m" "\<And>x. uses A (f x)"
  shows "uses A (State_Monad.bind m f)"
  unfolding uses_def exec_simps
proof (intro conjI allI impI)
  fix s :: softc and L assume s: "locked s = Some L" "set L \<inter> A = {}"
  show "locked (exec (f (res m s)) (exec m s)) = Some L"
    using usesD [OF assms(2) usesD [OF assms(1) s] s(2)] .
next
  fix s :: softc and L assume s: "locked s = Some L" "in_order s" "\<forall>h \<in> set L. \<forall>a \<in> A. h < a"
  then have d: "set L \<inter> A = {}" by (intro below_disjoint) blast
  show "in_order (exec (f (res m s)) (exec m s))"
    using s(3) by (intro uses_order [OF assms(2) usesD [OF assms(1) s(1) d] uses_order [OF assms(1) s(1,2)]]) blast+
qed

text \<open>
  At some time in the history of \<open>s\<close> the lock \<open>w\<close> was asked for while those of \<open>L\<close> were held. Contexts
  that each wait for a lock another of them holds do not exist when all climb.
\<close>

definition waits :: "drv_lock \<Rightarrow> drv_lock list \<Rightarrow> softc \<Rightarrow> bool" where
  "waits w L s \<longleftrightarrow> (\<exists>es fs. lock_events (trace s) = es @ Acquire w # fs \<and> held fs = Some L)"

lemma climbs_append: "climbs (es @ fs) \<Longrightarrow> climbs fs"
  by (induction es rule: climbs.induct) auto

lemma waits_above: "in_order s \<Longrightarrow> waits w L s \<Longrightarrow> h \<in> set L \<Longrightarrow> h < w"
  unfolding in_order_def waits_def by (elim exE conjE, drule subst, assumption, drule climbs_append) simp

lemma no_wait_cycle:
  fixes w :: "'i \<Rightarrow> drv_lock" and L :: "'i \<Rightarrow> drv_lock list"
  assumes "finite I" "I \<noteq> {}" "\<And>i h. i \<in> I \<Longrightarrow> h \<in> set (L i) \<Longrightarrow> h < w i"
  shows "\<not> w ` I \<subseteq> (\<Union>i \<in> I. set (L i))"
proof
  assume sub: "w ` I \<subseteq> (\<Union>i \<in> I. set (L i))"
  have fin: "finite (w ` I)" "w ` I \<noteq> {}" using assms(1,2) by auto
  have "Max (w ` I) \<in> (\<Union>i \<in> I. set (L i))" by (rule subsetD [OF sub Max_in [OF fin]])
  then obtain j where j: "j \<in> I" "Max (w ` I) \<in> set (L j)" by auto
  have "w j \<le> Max (w ` I)" using fin(1) j(1) by (intro Max_ge) auto
  with assms(3) [OF j] show False by (rule leD [THEN notE, rotated])
qed

lemma exec_call [simp]:
  "exec (call D c) s = (snd (world D c s))\<lparr>trace := Call c # trace s\<rparr>"
  "exec (do_call D c) s = (snd (world D c s))\<lparr>trace := Call c # trace s\<rparr>"
  by (simp_all add: exec_def call_def do_call_def)

lemma res_call [simp]: "res (call D c) s = fst (world D c s)"
  by (simp add: res_def call_def)

lemma exec_emit [simp]: "exec (emit_ev e) s = s\<lparr>trace := e # trace s\<rparr>"
  by (simp add: emit_ev_def)

lemma exec_op [simp]:
  "exec (set_op f) s = s\<lparr>op_flags := insert f (op_flags s)\<rparr>"
  "exec (clear_op f) s = s\<lparr>op_flags := op_flags s - {f}\<rparr>"
  by (simp_all add: set_op_def clear_op_def)

lemma trace_call [simp]:
  "trace (exec (call D c) s) = Call c # trace s" "trace (exec (do_call D c) s) = Call c # trace s"
  by simp_all

lemma uses_rules [uses_intros]:
  "uses A (State_Monad.return x)"
  "uses A (gets g)"
  "(b \<Longrightarrow> uses A m) \<Longrightarrow> (\<not> b \<Longrightarrow> uses A n) \<Longrightarrow> uses A (if b then m else n)"
  "(b \<Longrightarrow> uses A u) \<Longrightarrow> uses A (only_if b u)"
  "(\<And>s. trace (h s) = trace s) \<Longrightarrow> uses A (modify h)"
  "uses A (call D c)"
  "uses A (do_call D c)"
  "uses A (set_op f')"
  "uses A (clear_op f')"
  by (auto simp: uses_def only_if_def locked_def in_order_def)

lemmas [uses_intros] = uses_bind

lemma uses_case_option [uses_intros]:
  "(v = None \<Longrightarrow> uses A m) \<Longrightarrow> (\<And>x. v = Some x \<Longrightarrow> uses A (f x)) \<Longrightarrow>
   uses A (case v of None \<Rightarrow> m | Some x \<Rightarrow> f x)"
  by (cases v) auto

lemma uses_for_each [uses_intros]: "(\<And>x. x \<in> set xs \<Longrightarrow> uses A (f x)) \<Longrightarrow> uses A (for_each f xs)"
  by (induction xs) (auto intro: uses_rules)

lemma uses_with_lock [uses_intros]:
  assumes "l \<in> A" "uses {a \<in> A. l < a} m"
  shows "uses A (with_lock l m)"
  unfolding uses_def
proof (intro conjI allI impI)
  fix s :: softc and L
  let ?s = "s\<lparr>trace := Lock (Acquire l) # trace s\<rparr>"
  { assume s: "locked s = Some L" "set L \<inter> A = {}"
    then have "locked ?s = Some (l # L)" using assms(1) by (auto simp: locked_def)
    then have "locked (exec m ?s) = Some (l # L)" by (rule usesD [OF assms(2)]) (use s in auto)
    then show "locked (exec (with_lock l m) s) = Some L" by (simp add: with_lock_def locked_def) }
  assume s: "locked s = Some L" "in_order s" "\<forall>h \<in> set L. \<forall>a \<in> A. h < a"
  then have "set L \<inter> A = {}" by (intro below_disjoint) blast
  then have "locked ?s = Some (l # L)" "in_order ?s" using s assms(1) by (auto simp: locked_def in_order_def)
  then have "in_order (exec m ?s)" by (rule uses_order [OF assms(2)]) (use s in auto)
  then show "in_order (exec (with_lock l m) s)" by (simp add: with_lock_def in_order_def)
qed

lemma locked_more:
  "reg_bus.more s = reg_bus.more t \<Longrightarrow> locked s = locked (t :: softc)"
  "reg_bus.more s = reg_bus.more t \<Longrightarrow> in_order s = in_order (t :: softc)"
  by (cases s, cases t, simp add: locked_def in_order_def)+

lemma uses_reg [uses_intros]:
  "uses A (ath9k_iowrite32 v r)" "uses A (ath9k_ioread32 r)"
proof -
  have "reg_bus.more (exec (ath9k_ioread32 r) s) = reg_bus.more s" for s :: softc
    by (simp add: reg_access_defs)
  then show "uses A (ath9k_ioread32 r)" unfolding uses_def using locked_more by metis
  show "uses A (ath9k_iowrite32 v r)"
    unfolding uses_def using locked_more [OF more_iowrite(1)] by metis
qed

section \<open>Fields the other files leave alone\<close>

definition frames :: "device \<Rightarrow> (softc \<Rightarrow> 'b) \<Rightarrow> bool" where
  "frames D g \<longleftrightarrow> (\<forall>c s. g (snd (world D c s)) = g s)"

lemma frames_world [simp]: "frames D g \<Longrightarrow> g (snd (world D c s)) = g s"
  by (simp add: frames_def)

text \<open>A field that does not depend on the trace.\<close>

definition untraced :: "(softc \<Rightarrow> 'b) \<Rightarrow> bool" where
  "untraced g \<longleftrightarrow> (\<forall>s t. g (s\<lparr>trace := t\<rparr>) = g s)"

lemma keeps_call:
  "frames D g \<Longrightarrow> untraced g \<Longrightarrow> keeps g (call D c)"
  "frames D g \<Longrightarrow> untraced g \<Longrightarrow> keeps g (do_call D c)"
  by (simp_all add: keeps_def untraced_def)

lemma keeps_with_lock: "untraced g \<Longrightarrow> keeps g m \<Longrightarrow> keeps g (with_lock l m)"
  by (simp add: keeps_def untraced_def with_lock_def)

lemma untraced_usecount [simp]: "untraced ps_usecount"
  by (simp add: untraced_def)

text \<open>
  What the driver sets up once and its callbacks never write: which queues are in use, the
  timer of the P2P power saving and the detector. A projection is \<open>unwritten\<close> when it depends on
  nothing but these, the use count and the exported pointer; the handlers keep it, but for the
  use count, and for the pointer, which a transmission sets.
\<close>

definition sc_view :: "softc \<Rightarrow> (nat \<Rightarrow> bool) \<times> bool \<times> bool" where
  "sc_view c = (txqsetup c, has_p2p_timer c, dfs_detector c)"

definition unwritten :: "(softc \<Rightarrow> 'b) \<Rightarrow> bool" where
  "unwritten g \<longleftrightarrow> (\<forall>s t. ps_usecount s = ps_usecount t \<longrightarrow> sc_view s = sc_view t \<longrightarrow>
     txbuf_fff s = txbuf_fff t \<longrightarrow> g s = g t)"

lemma unwrittenD:
  "unwritten g \<Longrightarrow> ps_usecount s = ps_usecount t \<Longrightarrow> sc_view s = sc_view t \<Longrightarrow> txbuf_fff s = txbuf_fff t \<Longrightarrow> g s = g t"
  unfolding unwritten_def by blast

lemma unwritten_fields [simp, intro, keeps_intros]: "unwritten ps_usecount" "unwritten sc_view" "unwritten txbuf_fff"
  by (simp_all add: unwritten_def)

lemma unwritten_untraced:
  assumes "unwritten g"
  shows "untraced g"
  unfolding untraced_def by (intro allI unwrittenD [OF assms]) (simp_all add: sc_view_def)

lemma unwritten_more:
  assumes "unwritten g" "reg_bus.more s = reg_bus.more (t :: softc)"
  shows "g s = g t"
  by (rule unwrittenD [OF assms(1)]; use assms(2) in \<open>cases s; cases t; simp add: sc_view_def\<close>)

lemma keeps_unwritten [keeps_intros]:
  assumes "unwritten g"
  shows "keeps g m \<Longrightarrow> keeps g (with_lock l m)" "keeps g (set_op f)" "keeps g (clear_op f)"
    "keeps g (ath9k_iowrite32 v r)" "keeps g (ath9k_ioread32 r)"
proof -
  show "keeps g (with_lock l m)" if "keeps g m"
    using unwritten_untraced [OF assms] that by (rule keeps_with_lock)
  show "keeps g (set_op f)" "keeps g (clear_op f)"
    unfolding keeps_def set_op_def clear_op_def exec_simps by (intro allI unwrittenD [OF assms]; simp add: sc_view_def)+
  show "keeps g (ath9k_iowrite32 v r)"
    unfolding keeps_def by (intro allI unwritten_more [OF assms] more_iowrite(1))
  have m: "reg_bus.more (exec (ath9k_ioread32 r) s) = reg_bus.more s" for s :: softc
    by (simp add: reg_access_defs)
  show "keeps g (ath9k_ioread32 r)"
    unfolding keeps_def by (intro allI unwritten_more [OF assms] m)
qed

end
