(* ===== verification/Ath_Power.thy ===== *)
theory Ath_Power
  imports Ath_Locks
begin

text \<open>
  Power saving of \<open>ath9k/main.c\<close>: \<open>ath9k_setpower\<close>, \<open>ath_ps_full_sleep\<close>, the counted pair
  \<open>ath9k_ps_wakeup\<close> and \<open>ath9k_ps_restore\<close>, \<open>ath9k_enable_ps\<close> and \<open>ath9k_disable_ps\<close>. The pair
  and the sleep timer keep the contract of the locale \<open>use_counter\<close>.
\<close>

section \<open>Definitions\<close>

definition ath9k_setpower :: "device \<Rightarrow> power_mode \<Rightarrow> (softc, bool) state" where
  "ath9k_setpower D mode =
     with_lock Sc_pm_lock (do { r \<leftarrow> call D (Power (Hw_setpower mode)); ret (r \<noteq> 0) })"

definition ath_ps_full_sleep :: "device \<Rightarrow> (softc, unit) state" where
  "ath_ps_full_sleep D = do {
     with_lock Cc_lock (do_call D (Power Cycle_counters_update));
     do_call D (Power (Hw_setrxabort True));
     do_call D (Power Hw_stopdmarecv);
     do_call D (Power (Hw_setpower PM_FULL_SLEEP))
   }"

definition ath9k_ps_wakeup :: "device \<Rightarrow> (softc, unit) state" where
  "ath9k_ps_wakeup D = with_lock Sc_pm_lock (do {
     modify (\<lambda>s. s\<lparr>ps_usecount := ps_usecount s + 1\<rparr>);
     n \<leftarrow> gets ps_usecount;
     if n \<noteq> 1 then ret ()
     else do {
       do_call D (Power Del_sleep_timer);
       mode \<leftarrow> gets power_mode;
       do_call D (Power (Hw_setpower PM_AWAKE));
       only_if (mode \<noteq> PM_AWAKE)
         (with_lock Cc_lock (do {
            do_call D (Power Cycle_counters_update);
            do_call D (Power Cycle_counters_clear)
          }))
     }
   })"

definition PS_WAIT_ANY :: u16 where
  "PS_WAIT_ANY = PS_WAIT_FOR_BEACON OR PS_WAIT_FOR_CAB OR PS_WAIT_FOR_PSPOLL_DATA OR
     PS_WAIT_FOR_TX_ACK OR PS_WAIT_FOR_ANI"

definition ath9k_ps_restore :: "device \<Rightarrow> (softc, unit) state" where
  "ath9k_ps_restore D = with_lock Sc_pm_lock (do {
     modify (\<lambda>s. s\<lparr>ps_usecount := ps_usecount s - 1\<rparr>);
     n \<leftarrow> gets ps_usecount;
     if n \<noteq> 0 then ret ()
     else do {
       idle \<leftarrow> gets ps_idle;
       if idle then do_call D (Power Mod_sleep_timer)
       else do {
         sleep \<leftarrow> gets (\<lambda>s. ps_enabled s \<and> ps_flags s AND PS_WAIT_ANY = 0);
         if sleep then do {
           bt \<leftarrow> call D (Power Btcoex_is_enabled);
           only_if (bt \<noteq> 0) (do_call D (Power Btcoex_stop_gen_timer));
           with_lock Cc_lock (do_call D (Power Cycle_counters_update));
           do_call D (Power (Hw_setpower PM_NETWORK_SLEEP))
         } else ret ()
       }
     }
   })"

definition ath9k_enable_ps :: "device \<Rightarrow> (softc, unit) state" where
  "ath9k_enable_ps D =
     (if cfg_tx99 D then ret ()
      else do {
        modify (\<lambda>s. s\<lparr>ps_enabled := True\<rparr>);
        only_if (\<not> cap_autosleep D) (do {
          off \<leftarrow> gets (\<lambda>s. imask s AND INT_TIM_TIMER D = 0);
          only_if off (do {
            modify (\<lambda>s. s\<lparr>imask := imask s OR INT_TIM_TIMER D\<rparr>);
            do_call D (Irq Hw_set_interrupts)
          });
          do_call D (Power (Hw_setrxabort True))
        })
      })"

definition ath9k_disable_ps :: "device \<Rightarrow> (softc, unit) state" where
  "ath9k_disable_ps D =
     (if cfg_tx99 D then ret ()
      else do {
        modify (\<lambda>s. s\<lparr>ps_enabled := False\<rparr>);
        do_call D (Power (Hw_setpower PM_AWAKE));
        only_if (\<not> cap_autosleep D) (do {
          do_call D (Power (Hw_setrxabort False));
          modify (\<lambda>s. s\<lparr>ps_flags := ps_flags s AND NOT (PS_WAIT_FOR_BEACON OR PS_WAIT_FOR_CAB OR
            PS_WAIT_FOR_PSPOLL_DATA OR PS_WAIT_FOR_TX_ACK)\<rparr>);
          on \<leftarrow> gets (\<lambda>s. imask s AND INT_TIM_TIMER D \<noteq> 0);
          only_if on (do {
            modify (\<lambda>s. s\<lparr>imask := imask s AND NOT (INT_TIM_TIMER D)\<rparr>);
            do_call D (Irq Hw_set_interrupts)
          })
        })
      })"

text \<open>The shape most callbacks have: awake during a body.\<close>

definition awake :: "device \<Rightarrow> (softc, 'a) state \<Rightarrow> (softc, 'a) state" where
  "awake D m = do { ath9k_ps_wakeup D; x \<leftarrow> m; ath9k_ps_restore D; ret x }"

section \<open>Locks and the use count\<close>

lemma uses_power [uses_intros]:
  "{Sc_pm_lock} \<subseteq> A \<Longrightarrow> uses A (ath9k_setpower D mode)"
  "{Cc_lock} \<subseteq> A \<Longrightarrow> uses A (ath_ps_full_sleep D)"
  "{Sc_pm_lock, Cc_lock} \<subseteq> A \<Longrightarrow> uses A (ath9k_ps_wakeup D)"
  "{Sc_pm_lock, Cc_lock} \<subseteq> A \<Longrightarrow> uses A (ath9k_ps_restore D)"
  "uses A (ath9k_enable_ps D)"
  "uses A (ath9k_disable_ps D)"
  unfolding ath9k_setpower_def ath_ps_full_sleep_def ath9k_ps_wakeup_def ath9k_ps_restore_def
    ath9k_enable_ps_def ath9k_disable_ps_def
  by (intro uses_intros; simp)+

lemma uses_awake [uses_intros]:
  "{Sc_pm_lock, Cc_lock} \<subseteq> A \<Longrightarrow> uses A m \<Longrightarrow> uses A (awake D m)"
  unfolding awake_def by (intro uses_intros)

lemma usecount_wakeup:
  assumes "frames D ps_usecount"
  shows "shifts ps_usecount 1 (ath9k_ps_wakeup D)"
  using assms by (simp add: shifts_def ath9k_ps_wakeup_def with_lock_def)

lemma usecount_restore:
  assumes "frames D ps_usecount"
  shows "shifts ps_usecount (- 1) (ath9k_ps_restore D)"
  using assms by (simp add: shifts_def ath9k_ps_restore_def with_lock_def)

text \<open>
  A field that is \<open>steady\<close>: the functions of other files leave it alone, the driver's own steps do not
  write it, and what a wakeup does to it the matching restore takes back.
\<close>

definition steady :: "device \<Rightarrow> (softc \<Rightarrow> 'b) \<Rightarrow> bool" where
  "steady D g \<longleftrightarrow> frames D g \<and> unwritten g \<and>
     (\<forall>s t. g t = g (exec (ath9k_ps_wakeup D) s) \<longrightarrow> g (exec (ath9k_ps_restore D) t) = g s)"

lemma steadyD: "steady D g \<Longrightarrow> frames D g" "steady D g \<Longrightarrow> unwritten g"
  by (simp_all add: steady_def)

lemma keeps_steady_call [keeps_intros]:
  "steady D g \<Longrightarrow> keeps g (call D c)" "steady D g \<Longrightarrow> keeps g (do_call D c)"
  by (simp_all add: steady_def keeps_call unwritten_untraced)

lemma keeps_power [keeps_intros]:
  assumes "steady D g"
  shows "keeps g (ath9k_setpower D mode)" "keeps g (ath_ps_full_sleep D)"
    "keeps g (ath9k_enable_ps D)" "keeps g (ath9k_disable_ps D)"
  unfolding ath9k_setpower_def ath_ps_full_sleep_def ath9k_enable_ps_def ath9k_disable_ps_def
  by (intro keeps_intros assms steadyD(2) [OF assms] unwrittenD [OF steadyD(2) [OF assms]]; simp add: sc_view_def)+

lemma keeps_woken [keeps_intros]:
  assumes "steady D g" "\<And>x. keeps g (m x)"
  shows "keeps g (State_Monad.bind (ath9k_ps_wakeup D) (\<lambda>x. State_Monad.bind (m x) (\<lambda>y. ath9k_ps_restore D)))"
  using assms by (simp add: keeps_def steady_def)

lemma keeps_awake [keeps_intros]:
  assumes "steady D g" "keeps g m"
  shows "keeps g (awake D m)"
  using assms by (simp add: awake_def keeps_def steady_def)

lemma steady_usecount [intro, keeps_intros]: "frames D ps_usecount \<Longrightarrow> steady D ps_usecount"
  using usecount_wakeup [of D] usecount_restore [of D] by (simp add: steady_def shifts_def)

lemma steady_uncounted:
  assumes "frames D g" "unwritten g" "\<And>s x. g (s\<lparr>ps_usecount := x\<rparr>) = g s"
  shows "steady D g" "keeps g (ath9k_ps_wakeup D)" "keeps g (ath9k_ps_restore D)"
proof -
  have c: "keeps g (call D c)" "keeps g (do_call D c)" for c
    using assms(1,2) by (simp_all add: keeps_call unwritten_untraced)
  have p: "g (s\<lparr>ps_flags := y\<rparr>) = g s" for s y by (rule unwrittenD [OF assms(2)]; simp add: sc_view_def)
  show w: "keeps g (ath9k_ps_wakeup D)" "keeps g (ath9k_ps_restore D)"
    unfolding ath9k_ps_wakeup_def ath9k_ps_restore_def by (intro keeps_intros c assms(2,3) p)+
  show "steady D g" using assms(1,2) by (simp add: steady_def keepsD [OF w(1)] keepsD [OF w(2)])
qed

lemma steady_view:
  assumes "frames D sc_view"
  shows "steady D sc_view" "keeps sc_view (ath9k_ps_wakeup D)" "keeps sc_view (ath9k_ps_restore D)"
  by (intro steady_uncounted assms; simp add: sc_view_def)+

lemma steady_exported: "frames D txbuf_fff \<Longrightarrow> steady D txbuf_fff"
  by (intro steady_uncounted; simp)

section \<open>The sleep timer\<close>

text \<open>
  Whether \<open>sleep_timer\<close> is armed is read off the calls of the code: it is when the latest call on it is
  \<open>mod_timer\<close>, not \<open>del_timer_sync\<close>. A timer that has run counts as armed until it is deleted; this only
  gives it more chances to run.
\<close>

fun armed_by :: "drv_ev list \<Rightarrow> bool" where
  "armed_by [] \<longleftrightarrow> False"
| "armed_by (e # es) \<longleftrightarrow>
     (if e = Call (Power Mod_sleep_timer) then True
      else if e = Call (Power Del_sleep_timer) then False
      else armed_by es)"

definition sleep_timer_armed :: "softc \<Rightarrow> bool" where
  "sleep_timer_armed s \<longleftrightarrow> armed_by (trace s)"

lemma sleep_timer_armed_simps [simp]:
  "sleep_timer_armed (s\<lparr>trace := es\<rparr>) \<longleftrightarrow> armed_by es"
  "sleep_timer_armed (s\<lparr>ps_usecount := n\<rparr>) \<longleftrightarrow> sleep_timer_armed s"
  "sleep_timer_armed (s\<lparr>ps_enabled := b\<rparr>) \<longleftrightarrow> sleep_timer_armed s"
  "sleep_timer_armed (s\<lparr>ps_idle := b\<rparr>) \<longleftrightarrow> sleep_timer_armed s"
  "sleep_timer_armed (s\<lparr>ps_flags := f\<rparr>) \<longleftrightarrow> sleep_timer_armed s"
  "sleep_timer_armed (s\<lparr>imask := m\<rparr>) \<longleftrightarrow> sleep_timer_armed s"
  by (simp_all add: sleep_timer_armed_def)

section \<open>The contract of a use counter\<close>

text \<open>
  \<open>good\<close> is what the counter relies on, \<open>fire\<close> a timer that switches the resource off when it is
  \<open>armed\<close>. The first user switches the resource on and disarms the timer, and while there is a user
  nobody switches it off or arms the timer.
\<close>

locale use_counter =
  fixes enter :: "('s, unit) state"
    and leave :: "('s, unit) state"
    and fire :: "('s, unit) state"
    and users :: "'s \<Rightarrow> u32"
    and is_on :: "'s \<Rightarrow> bool"
    and armed :: "'s \<Rightarrow> bool"
    and good :: bool
  assumes enter_users: "good \<Longrightarrow> users (exec enter s) = users s + 1"
    and leave_users: "good \<Longrightarrow> users (exec leave s) = users s - 1"
    and fire_users: "good \<Longrightarrow> users (exec fire s) = users s"
    and enter_first: "good \<Longrightarrow> users s = 0 \<Longrightarrow> is_on (exec enter s) \<and> \<not> armed (exec enter s)"
    and enter_more: "good \<Longrightarrow> users s \<noteq> 0 \<Longrightarrow> is_on s \<Longrightarrow> \<not> armed s \<Longrightarrow>
      is_on (exec enter s) \<and> \<not> armed (exec enter s)"
    and leave_more: "good \<Longrightarrow> users s \<noteq> 1 \<Longrightarrow> is_on s \<Longrightarrow> \<not> armed s \<Longrightarrow>
      is_on (exec leave s) \<and> \<not> armed (exec leave s)"
begin

text \<open>The invariant: in use means on, with the timer off.\<close>

definition kept_on :: "'s \<Rightarrow> bool" where
  "kept_on s \<longleftrightarrow> users s = 0 \<or> is_on s \<and> \<not> armed s"

lemma kept_on_enter: "good \<Longrightarrow> kept_on s \<Longrightarrow> kept_on (exec enter s)"
  using enter_first [of s] enter_more [of s] by (auto simp: kept_on_def)

lemma kept_on_leave: "good \<Longrightarrow> users s \<noteq> 0 \<Longrightarrow> kept_on s \<Longrightarrow> kept_on (exec leave s)"
  using leave_users [of s] leave_more [of s] by (auto simp: kept_on_def)

lemma kept_on_fire: "good \<Longrightarrow> armed s \<Longrightarrow> kept_on s \<Longrightarrow> kept_on (exec fire s)"
  using fire_users [of s] by (simp add: kept_on_def)

lemma kept_on_other:
  "kept_on s \<Longrightarrow> users t = users s \<Longrightarrow> (is_on s \<Longrightarrow> \<not> armed s \<Longrightarrow> is_on t \<and> \<not> armed t) \<Longrightarrow> kept_on t"
  by (auto simp: kept_on_def)

end

text \<open>
  What \<open>ath9k_hw_setpower\<close> and the other functions the power saving calls promise, as long as the sleep timer is
  not armed: the first sets the mode, the others leave it alone. While the timer is armed nothing is
  promised about the mode, because the timer may run during the call. The fields of the power saving
  of \<open>main.c\<close> are left alone by every function of another file.
\<close>

definition power_world :: "device \<Rightarrow> bool" where
  "power_world D \<longleftrightarrow> frames D ps_usecount \<and> frames D ps_idle \<and> frames D ps_enabled \<and> frames D ps_flags \<and>
     (\<forall>s. \<not> sleep_timer_armed s \<longrightarrow>
        (\<forall>m. power_mode (snd (world D (Power (Hw_setpower m)) s)) = m) \<and>
        (\<forall>p. (\<forall>m. p \<noteq> Hw_setpower m) \<longrightarrow> power_mode (snd (world D (Power p) s)) = power_mode s) \<and>
        power_mode (snd (world D (Irq Hw_set_interrupts) s)) = power_mode s)"

lemma power_world_simps:
  assumes "power_world D"
  shows "frames D ps_usecount" "frames D ps_idle" "frames D ps_enabled" "frames D ps_flags"
    "\<not> sleep_timer_armed s \<Longrightarrow> power_mode (snd (world D (Power (Hw_setpower m)) s)) = m"
    "\<not> sleep_timer_armed s \<Longrightarrow> \<forall>m. p \<noteq> Hw_setpower m \<Longrightarrow>
      power_mode (snd (world D (Power p) s)) = power_mode s"
    "\<not> sleep_timer_armed s \<Longrightarrow> power_mode (snd (world D (Irq Hw_set_interrupts) s)) = power_mode s"
  using assms unfolding power_world_def by blast+

interpretation ps: use_counter "ath9k_ps_wakeup D" "ath9k_ps_restore D" "ath_ps_full_sleep D" ps_usecount
  "\<lambda>s. power_mode s = PM_AWAKE" sleep_timer_armed "power_world D" for D
proof
  assume w: "power_world D"
  note d = ath9k_ps_wakeup_def ath9k_ps_restore_def ath_ps_full_sleep_def with_lock_def power_world_simps [OF w]
  fix s
  show "ps_usecount (exec (ath9k_ps_wakeup D) s) = ps_usecount s + 1"
    using shiftsD [OF usecount_wakeup] d(5) by blast
  show "ps_usecount (exec (ath9k_ps_restore D) s) = ps_usecount s - 1"
    using shiftsD [OF usecount_restore, of D s] d(5) by simp
  show "ps_usecount (exec (ath_ps_full_sleep D) s) = ps_usecount s"
    by (simp add: d)
  show "ps_usecount s = 0 \<Longrightarrow> power_mode (exec (ath9k_ps_wakeup D) s) = PM_AWAKE \<and>
      \<not> sleep_timer_armed (exec (ath9k_ps_wakeup D) s)"
    by (simp add: d)
  assume a: "power_mode s = PM_AWAKE" "\<not> sleep_timer_armed s"
  then have a': "\<not> armed_by (trace s)" by (simp add: sleep_timer_armed_def)
  show "ps_usecount s \<noteq> 0 \<Longrightarrow> power_mode (exec (ath9k_ps_wakeup D) s) = PM_AWAKE \<and>
      \<not> sleep_timer_armed (exec (ath9k_ps_wakeup D) s)"
    using a a' by (simp add: d)
  show "ps_usecount s \<noteq> 1 \<Longrightarrow> power_mode (exec (ath9k_ps_restore D) s) = PM_AWAKE \<and>
      \<not> sleep_timer_armed (exec (ath9k_ps_restore D) s)"
    using a a' by (simp add: d)
qed

section \<open>A concrete device\<close>

text \<open>A chip whose functions succeed at once and change nothing but the power mode.\<close>

fun setpower_of :: "call \<Rightarrow> power_mode option" where
  "setpower_of (Power (Hw_setpower m)) = Some m"
| "setpower_of c = None"

definition world0 :: "call \<Rightarrow> softc \<Rightarrow> u32 \<times> softc" where
  "world0 c s = (case setpower_of c of Some m \<Rightarrow> (1, s\<lparr>power_mode := m\<rparr>) | None \<Rightarrow> (0, s))"

definition dev0 :: device where
  "dev0 = \<lparr>INT_RX = 0x1, INT_RXHP = 0x1, INT_RXLP = 0x2, INT_RXEOL = 0x10, INT_RXORN = 0x20,
     INT_TX = 0x40, INT_TXURN = 0x800, INT_BMISS = 0x40000, INT_SWBA = 0x10000,
     INT_TIM_TIMER = 0x80000000, INT_CST = 0x400000, INT_GTT = 0x800000, INT_TSFOOR = 0x2000000,
     INT_GENTIMER = 0x1000000, INT_MCI = 0x200, INT_BB_WATCHDOG = 0x400, INT_FATAL = 0x40000000,
     INT_GLOBAL = 0x20000000,
     chip_regs = ar9331, cap_edma = True, cap_ht = True, cap_autosleep = False, hang_watchdog = True,
     srev_9300_20_or_later = True, srev_9340_or_9330 = True, srev_9100 = False, has_spectral = True,
     cfg_tx99 = False, cfg_btcoex = False, has_led = True, eifs_equal_to_aifs = True, nohwcrypt = False,
     unplugged = False, caps_rx_chainmask = 3, caps_tx_chainmask = 3, num_tx_queues = 10,
     channels_2ghz = Some [0, 1, 2], channels_5ghz = None, phyradar_phyerr = 0x2100, supported_filters = 0xff,
     rssi_dummy = 0x127, sw_mgmt_crypto = False, world = world0\<rparr>"

definition softc0 :: softc where
  "softc0 = \<lparr>mem = (\<lambda>_. 0), nr_cpus = 1, ser_reg_mode_on = False, serial_trace = [],
     ps_usecount = 0, ps_idle = False, ps_enabled = False, ps_flags = 0, gtt_cnt = 0, intrstatus = 0,
     curtxpow = 0, txpowlimit = 0, nvifs = 0, tx99_vif = None, p2p_ps_vif = None, has_p2p_timer = False, dfs_detector = False,
     rxfilter = 0, rx_frag = False, cur_survey = None, survey_in_use = (\<lambda>_. False),
     survey_time = (\<lambda>_. 0), spectral = SPECTRAL_DISABLED, spec_enabled = False, spec_endless = False,
     ant_tx = 3, ant_rx = 3, txqs = (\<lambda>n. \<lparr>axq_qnum = of_nat n, axq_depth = 0, axq_acq = False\<rparr>),
     txqsetup = (\<lambda>n. n < 4), txq_map = (\<lambda>n. n), txbuf = [], txbuf_fff = False, bslot0 = None, bcn_slottime = 9,
     bcn_updateslot = Slot_OK, bcn_tx_processed = False, bcn_tx_last = False,
     power_mode = PM_FULL_SLEEP, imask = 0, intr_ref_cnt = -1, opmode = IF_STATION, curchan = None,
     chip_fullsleep = False, is_monitoring = False, reset_power_on = True, diag_trigger_error = False,
     coverage_class = 0, slottime = 9, rxchainmask = 3, txchainmask = 3, op_flags = {OP_INVALID},
     macaddr = [0, 0, 0, 0, 0, 0], bssidmask = [0, 0, 0, 0, 0, 0], curbssid = [0, 0, 0, 0, 0, 0],
     curaid = 0, last_rssi = 0, avgbrssi = 0, reg_max_antenna_gain = 0, tsf64 = 0,
     conf_flags = {}, conf_chan = 0, conf_power_level = 20, conf_max_antenna_gain = 0, radar_enabled = False,
     cur_power_level = 0,
     vifs = (\<lambda>_. \<lparr>vtype = IF_STATION, vaddr = [0, 1, 2, 3, 4, 5], vp2p = False, vassoc = False,
       vbssid = [0, 0, 0, 0, 0, 0], vaid = 0, venable_beacon = False, vshort_slot = True,
       primary_sta_vif = False, noa_has_next_tsf = False, noa_next_tsf = 0, noa_absent = False,
       av_bcbuf = None\<rparr>),
     active_vifs = [], nodes = (\<lambda>_. \<lparr>ps_key = 0, key_idx = [0, 0, 0, 0], sleeping = False, nvif = 0\<rparr>),
     trace = []\<rparr>"

lemma setpower_of_Some: "setpower_of c = Some m \<longleftrightarrow> c = Power (Hw_setpower m)"
  by (cases c rule: setpower_of.cases) auto

lemma world_dev0 [simp]: "world dev0 = world0"
  by (simp add: dev0_def)

lemma frames_world0: "(\<And>s m. g (s\<lparr>power_mode := m\<rparr>) = g s) \<Longrightarrow> frames dev0 g"
  by (simp add: frames_def world0_def split: option.split)

lemma power_world_dev0: "power_world dev0"
  unfolding power_world_def
  by (auto simp: frames_world0 world0_def setpower_of_Some split: option.split)

section \<open>Properties\<close>

text \<open>
  The steps of the power saving: wakeups and restores of the callbacks, a restore by somebody who holds a
  wakeup; the sleep timer, when it is armed; power saving turned on and off by \<open>ath9k_config\<close>; the interrupt
  handler that wakes the chip for a beacon; and the fields the callbacks write.
\<close>

inductive ps_step :: "device \<Rightarrow> softc \<Rightarrow> softc \<Rightarrow> bool" for D :: device where
  Wakes_up: "ps_step D s (exec (ath9k_ps_wakeup D) s)"
| Restores: "ps_usecount s \<noteq> 0 \<Longrightarrow> ps_step D s (exec (ath9k_ps_restore D) s)"
| Timer_runs: "sleep_timer_armed s \<Longrightarrow> ps_step D s (exec (ath_ps_full_sleep D) s)"
| Enables: "ps_step D s (exec (ath9k_enable_ps D) s)"
| Disables: "ps_step D s (exec (ath9k_disable_ps D) s)"
| Isr_wakes: "ps_step D s (exec (ath9k_setpower D PM_AWAKE) s)"
| Writes: "ps_step D s (s\<lparr>ps_idle := idle, ps_flags := f\<rparr>)"

lemma kept_on_others:
  assumes "power_world D" "ps.kept_on s"
  shows "ps.kept_on (exec (ath9k_enable_ps D) s)" "ps.kept_on (exec (ath9k_disable_ps D) s)"
    "ps.kept_on (exec (ath9k_setpower D PM_AWAKE) s)" "ps.kept_on (s\<lparr>ps_idle := idle, ps_flags := f\<rparr>)"
proof -
  note d = with_lock_def power_world_simps [OF assms(1)] sleep_timer_armed_def
  show "ps.kept_on (exec (ath9k_enable_ps D) s)" "ps.kept_on (exec (ath9k_disable_ps D) s)"
    "ps.kept_on (exec (ath9k_setpower D PM_AWAKE) s)" "ps.kept_on (s\<lparr>ps_idle := idle, ps_flags := f\<rparr>)"
    by (rule ps.kept_on_other [OF assms(2)];
        simp add: ath9k_enable_ps_def ath9k_disable_ps_def ath9k_setpower_def d)+
qed

lemma kept_on_step:
  assumes "power_world D" "ps_step D s t" "ps.kept_on s"
  shows "ps.kept_on t"
  using assms(2)
  by cases (use assms(1,3) in \<open>simp_all add: kept_on_others ps.kept_on_enter ps.kept_on_leave ps.kept_on_fire\<close>)

lemma kept_on_steps: "(ps_step D)\<^sup>*\<^sup>* s t \<Longrightarrow> power_world D \<Longrightarrow> ps.kept_on s \<Longrightarrow> ps.kept_on t"
  by (induction rule: rtranclp_induct) (auto intro: kept_on_step)

text \<open>
  C20: The chip is awake while somebody uses it. From a state nobody uses, whatever its power mode
  and whether the sleep timer is armed or not, any interleaving of wakeups, restores, runs of the sleep timer,
  power saving turned on and off, the interrupt handler and writes to the idle flag and the wait
  flags leads to states in which a use count other than zero means that the chip is in the mode
  \<open>PM_AWAKE\<close> and the sleep timer is not armed.
\<close>

theorem ps_awake_while_used:
  assumes "power_world D" "ps_usecount s = 0" "(ps_step D)\<^sup>*\<^sup>* s t" "ps_usecount t \<noteq> 0"
  shows "power_mode t = PM_AWAKE \<and> \<not> sleep_timer_armed t"
  using kept_on_steps [OF assms(3,1)] assms(2,4) by (simp add: ps.kept_on_def)

text \<open>
  The last restore puts the chip into network sleep exactly when it is not idle, power
  saving is on and nothing is waited for; when idle it starts the sleep timer; otherwise, and
  for every restore but the last, the chip's mode and its timers are left alone.
\<close>

theorem ps_restore_modes:
  assumes "power_world D" "\<not> sleep_timer_armed s"
  shows "power_mode (exec (ath9k_ps_restore D) s) =
      (if ps_usecount s = 1 \<and> \<not> ps_idle s \<and> ps_enabled s \<and> ps_flags s AND PS_WAIT_ANY = 0
       then PM_NETWORK_SLEEP else power_mode s) \<and>
    sleep_timer_armed (exec (ath9k_ps_restore D) s) = (ps_usecount s = 1 \<and> ps_idle s) \<and>
    (Call (Power (Hw_setpower m)) \<in> set (trace (exec (ath9k_ps_restore D) s))) =
      (Call (Power (Hw_setpower m)) \<in> set (trace s) \<or>
       m = PM_NETWORK_SLEEP \<and> ps_usecount s = 1 \<and> \<not> ps_idle s \<and> ps_enabled s \<and>
       ps_flags s AND PS_WAIT_ANY = 0)"
  using power_world_simps [OF assms(1)] assms(2)
  by (auto simp: ath9k_ps_restore_def with_lock_def sleep_timer_armed_def)

text \<open>
  The timer is armed and puts the chip to sleep; two users come, one goes, and the idle flag is set;
  then the last one goes, which arms the timer again, and another comes.
\<close>

definition ps_sleepy :: softc where
  "ps_sleepy = softc0\<lparr>ps_idle := True, power_mode := PM_AWAKE, trace := [Call (Power Mod_sleep_timer)]\<rparr>"

definition ps_example :: "(softc, unit) state" where
  "ps_example = do {
     ath_ps_full_sleep dev0; ath9k_ps_wakeup dev0; ath9k_ps_wakeup dev0; ath9k_ps_restore dev0;
     ath9k_ps_restore dev0; ath_ps_full_sleep dev0; ath9k_ps_wakeup dev0 }"

lemma ps_example_steps: "(ps_step dev0)\<^sup>*\<^sup>* ps_sleepy (exec ps_example ps_sleepy)"
proof -
  let ?s1 = "exec (ath_ps_full_sleep dev0) ps_sleepy"
  let ?s2 = "exec (ath9k_ps_wakeup dev0) ?s1"
  let ?s3 = "exec (ath9k_ps_wakeup dev0) ?s2"
  let ?s4 = "exec (ath9k_ps_restore dev0) ?s3"
  let ?s5 = "exec (ath9k_ps_restore dev0) ?s4"
  let ?s6 = "exec (ath_ps_full_sleep dev0) ?s5"
  note e = ps_sleepy_def softc0_def ath_ps_full_sleep_def ath9k_ps_wakeup_def ath9k_ps_restore_def
    with_lock_def world0_def sleep_timer_armed_def
  have "sleep_timer_armed ps_sleepy" "ps_usecount ?s3 = 2" "ps_usecount ?s4 = 1" "sleep_timer_armed ?s5"
    by (simp_all add: e)
  then have "ps_step dev0 ps_sleepy ?s1" "ps_step dev0 ?s1 ?s2" "ps_step dev0 ?s2 ?s3" "ps_step dev0 ?s3 ?s4"
    "ps_step dev0 ?s4 ?s5" "ps_step dev0 ?s5 ?s6" "ps_step dev0 ?s6 (exec ps_example ps_sleepy)"
    unfolding ps_example_def by (auto intro: ps_step.intros)
  then show ?thesis by (meson converse_rtranclp_into_rtranclp rtranclp.rtrancl_refl)
qed

theorem ps_awake_while_used_witness:
  "power_mode (exec ps_example ps_sleepy) = PM_AWAKE \<and> \<not> sleep_timer_armed (exec ps_example ps_sleepy)"
proof (rule ps_awake_while_used [OF power_world_dev0 _ ps_example_steps])
  show "ps_usecount ps_sleepy = 0" by (simp add: ps_sleepy_def softc0_def)
  show "ps_usecount (exec ps_example ps_sleepy) \<noteq> 0"
    by (simp add: ps_example_def ps_sleepy_def softc0_def ath_ps_full_sleep_def ath9k_ps_wakeup_def
        ath9k_ps_restore_def with_lock_def world0_def)
qed

theorem ps_restore_modes_witness:
  "power_mode (exec (ath9k_ps_restore dev0) (softc0\<lparr>ps_usecount := 1, ps_enabled := True\<rparr>)) = PM_NETWORK_SLEEP"
  using ps_restore_modes [OF power_world_dev0, of "softc0\<lparr>ps_usecount := 1, ps_enabled := True\<rparr>"]
  by (simp add: softc0_def sleep_timer_armed_def)

end
