(* ===== verification/Ath_Reset.thy ===== *)
theory Ath_Reset
  imports Ath_Power
begin

text \<open>
  Resetting the chip and changing channels in \<open>ath9k/main.c\<close>: cancelling and restarting work,
  \<open>ath_prepare_reset\<close>, \<open>ath_complete_reset\<close>, \<open>ath_reset_internal\<close>, \<open>ath_set_channel\<close> with the
  channel surveys, the reset requests, the spectral scan and the peer-to-peer timers the reset
  restarts. A pointer to a station that \<open>ieee80211_find_sta\<close> yields is zero for none, and one
  more than the station's number else.
\<close>

section \<open>Work\<close>

definition ath_cancel_work_inner :: "device \<Rightarrow> (softc, unit) state" where
  "ath_cancel_work_inner D = do {
     do_call D (Work Cancel_paprd_work);
     do_call D (Work Cancel_tx_complete_work);
     do_call D (Work Cancel_hw_pll_work);
     only_if (cfg_btcoex D) (do {
       mci \<leftarrow> call D (Reset Mci_is_enabled);
       only_if (mci \<noteq> 0) (do_call D (Work Cancel_mci_work))
     })
   }"

definition ath_cancel_work :: "device \<Rightarrow> (softc, unit) state" where
  "ath_cancel_work D = do {
     ath_cancel_work_inner D;
     do_call D (Work Cancel_hw_reset_work)
   }"

definition ath_restart_work :: "device \<Rightarrow> (softc, unit) state" where
  "ath_restart_work D = do {
     do_call D (Work Queue_tx_complete_work);
     only_if (srev_9340_or_9330 D) (do_call D (Work Queue_hw_pll_work));
     do_call D (Reset Start_ani)
   }"

definition ath9k_queue_reset :: "device \<Rightarrow> reset_type \<Rightarrow> (softc, unit) state" where
  "ath9k_queue_reset D type = do {
     set_op OP_HW_RESET;
     do_call D (Work Queue_hw_reset_work)
   }"

section \<open>Peer-to-peer power saving\<close>

definition ATH_P2P_PS_STOP_TIME :: u32 where "ATH_P2P_PS_STOP_TIME = 1000"

definition ath9k_update_p2p_ps_timer :: "device \<Rightarrow> nat option \<Rightarrow> (softc, unit) state" where
  "ath9k_update_p2p_ps_timer D avp =
     (case avp of
        None \<Rightarrow> ret ()
      | Some v \<Rightarrow> do {
          has \<leftarrow> gets (\<lambda>s. noa_has_next_tsf (vifs s v));
          only_if has (do {
            do_call D (Hw Gen_timer_stop);
            tsf \<leftarrow> call D (Hw Hw_gettsf32);
            target \<leftarrow> gets (\<lambda>s. noa_next_tsf (vifs s v));
            absent \<leftarrow> gets (\<lambda>s. noa_absent (vifs s v));
            let target = (if \<not> absent then target - ATH_P2P_PS_STOP_TIME else target);
            let target = (if sint (target - tsf) < sint ATH_P2P_PS_STOP_TIME
                          then tsf + ATH_P2P_PS_STOP_TIME else target);
            do_call D (Hw (Gen_timer_start target 1000000))
          })
        })"

definition set_sleeping :: "nat \<Rightarrow> bool \<Rightarrow> (softc, unit) state" where
  "set_sleeping n b = modify (\<lambda>s. s\<lparr>nodes := (nodes s)(n := (nodes s n)\<lparr>sleeping := b\<rparr>)\<rparr>)"

definition ath9k_p2p_ps_timer :: "device \<Rightarrow> (softc, unit) state" where
  "ath9k_p2p_ps_timer D = do {
     avp \<leftarrow> gets p2p_ps_vif;
     (case avp of
        None \<Rightarrow> ret ()
      | Some v \<Rightarrow> do {
          tsf \<leftarrow> call D (Hw Hw_gettsf32);
          absent \<leftarrow> gets (\<lambda>s. noa_absent (vifs s v));
          let tsf = (if \<not> absent then tsf + ATH_P2P_PS_STOP_TIME else tsf);
          stale \<leftarrow> gets (\<lambda>s. \<not> noa_has_next_tsf (vifs s v) \<or> noa_next_tsf (vifs s v) - tsf > 2 ^ 31);
          only_if stale (do_call D (Vif (Update_noa v tsf)));
          ath9k_update_p2p_ps_timer D (Some v);
          with_lock Rcu_read (do {
            sta \<leftarrow> call D (Vif (Find_sta v));
            absent \<leftarrow> gets (\<lambda>s. noa_absent (vifs s v));
            asleep \<leftarrow> gets (\<lambda>s. sleeping (nodes s (unat sta - 1)));
            if sta = 0 then ret ()
            else if asleep = absent then ret ()
            else do {
              set_sleeping (unat sta - 1) absent;
              if absent then do_call D (Tx (Tx_aggr_sleep (unat sta - 1)))
              else do_call D (Tx (Tx_aggr_wakeup (unat sta - 1)))
            }
          })
        })
   }"

definition ath9k_update_p2p_ps :: "device \<Rightarrow> nat \<Rightarrow> (softc, unit) state" where
  "ath9k_update_p2p_ps D v = do {
     timer \<leftarrow> gets has_p2p_timer;
     p2p \<leftarrow> gets (\<lambda>s. vtype (vifs s v) = IF_STATION \<and> vp2p (vifs s v));
     if \<not> timer then ret ()
     else if \<not> p2p then ret ()
     else do {
       modify (\<lambda>s. s\<lparr>p2p_ps_vif := Some v\<rparr>);
       tsf \<leftarrow> call D (Hw Hw_gettsf32);
       do_call D (Vif (Parse_noa v tsf));
       ath9k_update_p2p_ps_timer D (Some v)
     }
   }"

section \<open>The reset\<close>

definition ath_prepare_reset :: "device \<Rightarrow> (softc, bool) state" where
  "ath_prepare_reset D = do {
     do_call D (Work Stop_queues);
     do_call D (Reset Stop_ani);
     do_call D (Irq Hw_disable_interrupts);
     drained \<leftarrow> call D (Reset Drain_all_txq);
     stopped \<leftarrow> call D (Reset Stoprecv);
     ret (drained \<noteq> 0 \<and> stopped \<noteq> 0)
   }"

definition schedule_queue :: "device \<Rightarrow> nat \<Rightarrow> (softc, unit) state" where
  "schedule_queue D i = do {
     setup \<leftarrow> gets (\<lambda>s. txqsetup s i);
     only_if setup (with_lock (Axq_lock i) (do_call D (Reset (Txq_schedule i))))
   }"

definition ath_complete_reset :: "device \<Rightarrow> bool \<Rightarrow> (softc, bool) state" where
  "ath_complete_reset D start = do {
     r \<leftarrow> call D (Reset Startrecv);
     if r \<noteq> 0 then ret False
     else do {
       do_call D (Reset Cmn_update_txpow);
       clear_op OP_HW_RESET;
       do_call D (Irq Hw_set_interrupts);
       do_call D (Irq Hw_enable_interrupts);
       onchan \<leftarrow> gets (\<lambda>s. CONF_OFFCHANNEL \<notin> conf_flags s);
       only_if (onchan \<and> start) (do {
         beacons \<leftarrow> gets (\<lambda>s. OP_BEACONS \<in> op_flags s);
         only_if beacons (do {
           sta \<leftarrow> gets (\<lambda>s. opmode s = IF_STATION \<and> OP_PRIM_STA_VIF \<in> op_flags s);
           if sta then with_lock Sc_pm_lock
             (modify (\<lambda>s. s\<lparr>ps_flags := ps_flags s OR (PS_BEACON_SYNC OR PS_WAIT_FOR_BEACON)\<rparr>))
           else do_call D (Reset Set_beacon)
         });
         ath_restart_work D;
         for_each (schedule_queue D) [0..<num_tx_queues D]
       });
       modify (\<lambda>s. s\<lparr>gtt_cnt := 0\<rparr>);
       do_call D (Work Wake_queues);
       ath9k_p2p_ps_timer D;
       ret True
     }
   }"

definition ath_reset_internal :: "device \<Rightarrow> nat option \<Rightarrow> (softc, int) state" where
  "ath_reset_internal D hchan = do {
     ath_cancel_work_inner D;
     do_call D (Work Intr_tasklet_disable);
     r \<leftarrow> with_lock Sc_pcu_lock (do {
       offchannel \<leftarrow> gets (\<lambda>s. CONF_OFFCHANNEL \<in> conf_flags s);
       cur \<leftarrow> gets curchan;
       let fastcc = (offchannel \<and> hchan \<noteq> None);
       let hchan = (case hchan of None \<Rightarrow> cur | Some c \<Rightarrow> Some c);
       prepared \<leftarrow> ath_prepare_reset D;
       r \<leftarrow> call D (Reset (Hw_reset hchan (\<not> offchannel) (fastcc \<and> prepared)));
       if r \<noteq> 0 then do {
         do_call D (Irq Hw_enable_interrupts);
         ath9k_queue_reset D RESET_BB_HANG;
         ret (sint r)
       } else do {
         mci \<leftarrow> call D (Reset Mci_is_enabled);
         offchannel \<leftarrow> gets (\<lambda>s. CONF_OFFCHANNEL \<in> conf_flags s);
         only_if (mci \<noteq> 0 \<and> offchannel) (do_call D (Reset Mci_set_txpower));
         ok \<leftarrow> ath_complete_reset D True;
         if \<not> ok then ret (- EIO)
         else do {
           modify (\<lambda>s. s\<lparr>cur_power_level := curtxpow s div 2\<rparr>);
           ret 0
         }
       }
     });
     do_call D (Work Intr_tasklet_enable);
     ret r
   }"

definition ath_reset :: "device \<Rightarrow> (softc, int) state" where
  "ath_reset D = awake D (ath_reset_internal D None)"

definition ath_reset_work :: "device \<Rightarrow> (softc, unit) state" where
  "ath_reset_work D = do { _ \<leftarrow> ath_reset D; ret () }"

section \<open>Spectral scan\<close>

definition ath9k_spectral_scan_config :: "device \<Rightarrow> spectral_mode \<Rightarrow> (softc, int) state" where
  "ath9k_spectral_scan_config D mode =
     (if \<not> has_spectral D then ret (- 1)
      else do {
        (case mode of
           SPECTRAL_DISABLED \<Rightarrow> modify (\<lambda>s. s\<lparr>spec_enabled := False\<rparr>)
         | SPECTRAL_BACKGROUND \<Rightarrow> modify (\<lambda>s. s\<lparr>spec_endless := True, spec_enabled := True\<rparr>)
         | SPECTRAL_CHANSCAN \<Rightarrow> modify (\<lambda>s. s\<lparr>spec_endless := False, spec_enabled := True\<rparr>)
         | SPECTRAL_MANUAL \<Rightarrow> modify (\<lambda>s. s\<lparr>spec_endless := False, spec_enabled := True\<rparr>)
         | SPECTRAL_other \<Rightarrow> ret ());
        if mode = SPECTRAL_other then ret (- 1)
        else do {
          awake D (do {
            en \<leftarrow> gets spec_enabled;
            endl \<leftarrow> gets spec_endless;
            do_call D (Hw (Spectral_config en endl))
          });
          modify (\<lambda>s. s\<lparr>spectral := mode\<rparr>);
          ret 0
        }
      })"

definition ath9k_spectral_scan_trigger :: "device \<Rightarrow> (softc, unit) state" where
  "ath9k_spectral_scan_trigger D =
     (if cfg_tx99 D then ret ()
      else if \<not> has_spectral D then ret ()
      else awake D (do {
        f \<leftarrow> call D (Hw Hw_getrxfilter);
        do_call D (Hw (Hw_setrxfilter (f OR phyradar_phyerr D)));
        mode \<leftarrow> gets spectral;
        _ \<leftarrow> ath9k_spectral_scan_config D mode;
        do_call D (Hw Spectral_trigger)
      }))"

section \<open>Changing the channel\<close>

text \<open>The surveys: which one is in use follows the operating channel.\<close>

definition switch_survey :: "nat \<Rightarrow> (softc, unit) state" where
  "switch_survey pos = do {
     offchannel \<leftarrow> gets (\<lambda>s. CONF_OFFCHANNEL \<in> conf_flags s);
     cur \<leftarrow> gets cur_survey;
     if \<not> offchannel \<and> cur \<noteq> Some pos then do {
       (case cur of
          None \<Rightarrow> ret ()
        | Some c \<Rightarrow> modify (\<lambda>s. s\<lparr>survey_in_use := (survey_in_use s)(c := False)\<rparr>));
       modify (\<lambda>s. s\<lparr>cur_survey := Some pos\<rparr>);
       modify (\<lambda>s. s\<lparr>survey_time := (survey_time s)(pos := 0)\<rparr>);
       modify (\<lambda>s. s\<lparr>survey_in_use := (survey_in_use s)(pos := True)\<rparr>)
     } else do {
       in_use \<leftarrow> gets (\<lambda>s. survey_in_use s pos);
       only_if (\<not> in_use) (modify (\<lambda>s. s\<lparr>survey_time := (survey_time s)(pos := 0)\<rparr>))
     }
   }"

definition ath_set_channel :: "device \<Rightarrow> nat \<Rightarrow> (softc, int) state" where
  "ath_set_channel D pos = do {
     invalid \<leftarrow> gets (\<lambda>s. OP_INVALID \<in> op_flags s);
     if invalid then ret (- EIO)
     else do {
       old_pos \<leftarrow> gets curchan;
       with_lock Cc_lock (do_call D (Reset Update_survey_stats));
       do_call D (Reset (Get_channel pos));
       switch_survey pos;
       r \<leftarrow> ath_reset_internal D (Some pos);
       if r \<noteq> 0 then ret r
       else do {
         (case old_pos of None \<Rightarrow> ret () | Some p \<Rightarrow> do_call D (Reset (Update_survey_nf p)));
         radar \<leftarrow> gets radar_enabled;
         (if radar then do {
            do_call D (Hw Hw_set_radar_params);
            f \<leftarrow> call D (Hw Hw_getrxfilter);
            do_call D (Hw (Hw_setrxfilter (f OR phyradar_phyerr D)))
          } else do {
            scan \<leftarrow> gets (\<lambda>s. OP_SCANNING \<in> op_flags s \<and> spectral s = SPECTRAL_CHANSCAN);
            only_if scan (ath9k_spectral_scan_trigger D)
          });
         ret 0
       }
     }
   }"

section \<open>Locks and the use count\<close>

definition reset_locks :: "drv_lock set" where
  "reset_locks = {Sc_pcu_lock, Sc_pm_lock, Cc_lock, Rcu_read} \<union> range Axq_lock"

lemma uses_case_spectral [uses_intros]:
  "uses A a \<Longrightarrow> uses A b \<Longrightarrow> uses A c \<Longrightarrow> uses A d \<Longrightarrow> uses A e \<Longrightarrow>
   uses A (case m of SPECTRAL_DISABLED \<Rightarrow> a | SPECTRAL_BACKGROUND \<Rightarrow> b | SPECTRAL_CHANSCAN \<Rightarrow> c
     | SPECTRAL_MANUAL \<Rightarrow> d | SPECTRAL_other \<Rightarrow> e)"
  by (cases m) auto

lemma keeps_case_spectral [keeps_intros]:
  "keeps g a \<Longrightarrow> keeps g b \<Longrightarrow> keeps g c \<Longrightarrow> keeps g d \<Longrightarrow> keeps g e \<Longrightarrow>
   keeps g (case m of SPECTRAL_DISABLED \<Rightarrow> a | SPECTRAL_BACKGROUND \<Rightarrow> b | SPECTRAL_CHANSCAN \<Rightarrow> c
     | SPECTRAL_MANUAL \<Rightarrow> d | SPECTRAL_other \<Rightarrow> e)"
  by (cases m) auto

lemma uses_work [uses_intros]:
  "uses A (ath_cancel_work_inner D)" "uses A (ath_cancel_work D)" "uses A (ath_restart_work D)"
  "uses A (ath9k_queue_reset D type)" "uses A (ath_prepare_reset D)" "uses A (set_sleeping n b)"
  "uses A (ath9k_update_p2p_ps_timer D avp)" "uses A (ath9k_update_p2p_ps D v)"
  "uses A (switch_survey pos)"
  unfolding ath_cancel_work_inner_def ath_cancel_work_def ath_restart_work_def ath9k_queue_reset_def
    ath_prepare_reset_def set_sleeping_def ath9k_update_p2p_ps_def ath9k_update_p2p_ps_timer_def
    switch_survey_def Let_def
  by (intro uses_intros; simp)+

lemma uses_p2p [uses_intros]: "{Rcu_read} \<subseteq> A \<Longrightarrow> uses A (ath9k_p2p_ps_timer D)"
  unfolding ath9k_p2p_ps_timer_def Let_def by (intro uses_intros; simp)+

lemma uses_complete_reset [uses_intros]:
  "reset_locks - {Sc_pcu_lock} \<subseteq> A \<Longrightarrow> uses A (ath_complete_reset D start)"
  unfolding ath_complete_reset_def schedule_queue_def
  by (intro uses_intros; auto simp: reset_locks_def)+

lemma uses_reset_internal [uses_intros]:
  "reset_locks \<subseteq> A \<Longrightarrow> uses A (ath_reset_internal D hchan)"
  unfolding ath_reset_internal_def Let_def
  by (intro uses_intros; auto simp: reset_locks_def)+

lemma uses_reset [uses_intros]:
  "reset_locks \<subseteq> A \<Longrightarrow> uses A (ath_reset D)"
  "reset_locks \<subseteq> A \<Longrightarrow> uses A (ath_reset_work D)"
  unfolding ath_reset_def ath_reset_work_def
  by (intro uses_intros; auto simp: reset_locks_def)+

lemma uses_spectral [uses_intros]:
  "{Sc_pm_lock, Cc_lock} \<subseteq> A \<Longrightarrow> uses A (ath9k_spectral_scan_config D mode)"
  "{Sc_pm_lock, Cc_lock} \<subseteq> A \<Longrightarrow> uses A (ath9k_spectral_scan_trigger D)"
  unfolding ath9k_spectral_scan_trigger_def ath9k_spectral_scan_config_def
  by (intro uses_intros; auto)+

lemma uses_set_channel [uses_intros]: "reset_locks \<subseteq> A \<Longrightarrow> uses A (ath_set_channel D pos)"
  unfolding ath_set_channel_def by (intro uses_intros; auto simp: reset_locks_def)+

lemma keeps_reset_fields [keeps_intros]:
  assumes "unwritten g"
  shows "keeps g (set_sleeping n b)" "keeps g (switch_survey pos)"
  unfolding set_sleeping_def switch_survey_def Let_def
  by (intro keeps_intros unwrittenD [OF assms]; simp add: sc_view_def)+

lemma keeps_reset_parts [keeps_intros]:
  assumes "steady D g"
  shows "keeps g (ath_cancel_work_inner D)" "keeps g (ath_cancel_work D)"
    "keeps g (ath_restart_work D)" "keeps g (ath9k_queue_reset D type)"
    "keeps g (ath_prepare_reset D)"
    "keeps g (ath9k_update_p2p_ps_timer D avp)" "keeps g (ath9k_update_p2p_ps D v)"
    "keeps g (ath9k_p2p_ps_timer D)"
    "keeps g (schedule_queue D i)"
  unfolding ath_cancel_work_inner_def ath_cancel_work_def ath_restart_work_def ath9k_queue_reset_def
    ath_prepare_reset_def set_sleeping_def ath9k_update_p2p_ps_def ath9k_update_p2p_ps_timer_def
    switch_survey_def ath9k_p2p_ps_timer_def schedule_queue_def Let_def
  using assms by (intro keeps_intros assms steadyD(2) [OF assms] unwrittenD [OF steadyD(2) [OF assms]]; simp add: sc_view_def)+

lemma keeps_reset [keeps_intros]:
  assumes "steady D g"
  shows "keeps g (ath_complete_reset D start)" "keeps g (ath_reset_internal D h)"
    "keeps g (ath_reset D)" "keeps g (ath_reset_work D)"
    "keeps g (ath9k_spectral_scan_config D mode)"
    "keeps g (ath9k_spectral_scan_trigger D)"
    "keeps g (ath_set_channel D pos)"
  unfolding ath_complete_reset_def ath_reset_internal_def ath_reset_def ath_reset_work_def
    ath9k_spectral_scan_config_def ath9k_spectral_scan_trigger_def ath_set_channel_def Let_def
  using assms by (intro keeps_intros assms steadyD(2) [OF assms] unwrittenD [OF steadyD(2) [OF assms]]; simp add: sc_view_def)+

section \<open>Fields a reset leaves alone\<close>

text \<open>A projection of the state that depends on none of the fields a reset writes.\<close>

definition reset_indep :: "(softc \<Rightarrow> 'b) \<Rightarrow> bool" where
  "reset_indep g \<longleftrightarrow> (\<forall>s x. g (s\<lparr>trace := x\<rparr>) = g s) \<and> (\<forall>s x. g (s\<lparr>ps_flags := x\<rparr>) = g s) \<and>
     (\<forall>s x. g (s\<lparr>gtt_cnt := x\<rparr>) = g s) \<and> (\<forall>s x. g (s\<lparr>cur_power_level := x\<rparr>) = g s) \<and>
     (\<forall>s x. g (s\<lparr>nodes := x\<rparr>) = g s)"

lemma reset_indepD:
  assumes "reset_indep g"
  shows "g (s\<lparr>trace := t\<rparr>) = g s" "g (s\<lparr>ps_flags := f\<rparr>) = g s" "g (s\<lparr>gtt_cnt := n\<rparr>) = g s"
    "g (s\<lparr>cur_power_level := l\<rparr>) = g s" "g (s\<lparr>nodes := ns\<rparr>) = g s"
  using assms unfolding reset_indep_def by blast+

lemma keeps_indep:
  assumes "frames D g" "reset_indep g"
  shows "keeps g (call D c)" "keeps g (do_call D c)" "keeps g m \<Longrightarrow> keeps g (with_lock l m)"
    "keeps g (set_sleeping n b)"
  using keeps_call [OF assms(1)] keeps_with_lock [of g m l] assms(2)
  by (simp_all add: untraced_def reset_indepD keeps_def set_sleeping_def)

lemma keeps_indep_parts:
  assumes "frames D g" "reset_indep g"
  shows "keeps g (ath_cancel_work_inner D)" "keeps g (ath_restart_work D)" "keeps g (ath_prepare_reset D)"
    "keeps g (ath9k_update_p2p_ps_timer D avp)" "keeps g (schedule_queue D i)"
  unfolding ath_cancel_work_inner_def ath_restart_work_def ath_prepare_reset_def
    ath9k_update_p2p_ps_timer_def schedule_queue_def Let_def
  by (intro keeps_rules keeps_case_option keeps_indep [OF assms]; simp add: reset_indepD [OF assms(2)])+

lemma keeps_indep_p2p:
  assumes "frames D g" "reset_indep g"
  shows "keeps g (ath9k_p2p_ps_timer D)"
  unfolding ath9k_p2p_ps_timer_def Let_def
  by (intro keeps_rules keeps_case_option keeps_indep [OF assms] keeps_indep_parts [OF assms])

text \<open>A projection that also ignores the operation flags is kept by a whole reset.\<close>

lemma keeps_indep_reset:
  assumes "frames D g" "reset_indep g" "\<And>s x. g (s\<lparr>op_flags := x\<rparr>) = g s"
  shows "keeps g (ath_complete_reset D start)" "keeps g (ath_reset_internal D h)"
proof -
  note r = keeps_rules keeps_case_option keeps_for_each keeps_indep [OF assms(1,2)]
    keeps_indep_parts [OF assms(1,2)] keeps_indep_p2p [OF assms(1,2)]
  have op: "keeps g (set_op f)" "keeps g (clear_op f)" for f
    using assms(3) by (simp_all add: keeps_def)
  show c: "keeps g (ath_complete_reset D start)" for start
    unfolding ath_complete_reset_def by (intro r op; simp add: reset_indepD [OF assms(2)])
  show "keeps g (ath_reset_internal D h)"
    unfolding ath_reset_internal_def ath9k_queue_reset_def Let_def
    by (intro r op c; simp add: reset_indepD [OF assms(2)])
qed

lemma op_flags_indep [simp]: "reset_indep op_flags"
  by (simp add: reset_indep_def)

lemma op_flags_complete:
  assumes "frames D op_flags"
  shows "op_flags (exec (ath_complete_reset D start) s) =
    (if res (ath_complete_reset D start) s then op_flags s - {OP_HW_RESET} else op_flags s)"
proof -
  note k = keepsD [OF keeps_indep(3)] keepsD [OF keeps_indep_p2p [OF assms op_flags_indep]]
    keepsD [OF keeps_indep_parts(2) [OF assms op_flags_indep]]
    keepsD [OF keeps_for_each [OF keeps_indep_parts(5) [OF assms op_flags_indep]]]
  show ?thesis
    using assms by (simp add: ath_complete_reset_def k with_lock_def)
qed

section \<open>Properties\<close>

text \<open>
  Whatever the other functions do, resetting and changing the channel, from the reset work
  or from a callback, takes the driver's locks in the order of nesting \<open>sc_pcu_lock\<close>, then
  \<open>sc_pm_lock\<close>, \<open>cc_lock\<close> and the queues' locks, none of them twice, releases all it took on
  every path, and leaves the use count as it was.
\<close>

theorem reset_balanced:
  assumes "locked s = Some L" "set L \<inter> reset_locks = {}" "frames D ps_usecount"
  shows "locked (exec (ath_reset_work D) s) = Some L \<and> locked (exec (ath_set_channel D pos) s) = Some L \<and>
    ps_usecount (exec (ath_reset_work D) s) = ps_usecount s \<and>
    ps_usecount (exec (ath_set_channel D pos) s) = ps_usecount s"
  using usesD [OF uses_reset(2) [OF order_refl] assms(1,2)]
    usesD [OF uses_set_channel [OF order_refl] assms(1,2)]
    keepsD [OF keeps_reset(4) [OF steady_usecount [OF assms(3)]]] keepsD [OF keeps_reset(7) [OF steady_usecount [OF assms(3)]]]
  by auto

text \<open>
  C37: After a channel change on a device that is present exactly the operating channel's survey
  is marked in use: this is kept by every change, and a change that is not off-channel makes
  the new channel the operating one.
\<close>

theorem channel_survey:
  assumes "frames D cur_survey" "frames D survey_in_use" "frames D op_flags" "frames D conf_flags"
    and "\<forall>p. survey_in_use s p = (cur_survey s = Some p)"
  shows "(\<forall>p. survey_in_use (exec (ath_set_channel D pos) s) p =
      (cur_survey (exec (ath_set_channel D pos) s) = Some p)) \<and>
    cur_survey (exec (ath_set_channel D pos) s) =
      (if OP_INVALID \<in> op_flags s \<or> CONF_OFFCHANNEL \<in> conf_flags s then cur_survey s else Some pos)"
proof -
  let ?g = "\<lambda>s. (cur_survey s, survey_in_use s)"
  have g: "frames D ?g" "reset_indep ?g" "\<And>s x. ?g (s\<lparr>op_flags := x\<rparr>) = ?g s"
    using assms(1,2) by (simp_all add: frames_def reset_indep_def)
  have u: "untraced ?g" by (simp add: untraced_def)
  have awake: "keeps ?g (awake D m)" if "keeps ?g m" for m :: "(softc, 'c) state"
    unfolding awake_def ath9k_ps_wakeup_def ath9k_ps_restore_def
    by (intro keeps_rules keeps_indep [OF g(1,2)] that; simp)
  have scan: "keeps ?g (ath9k_spectral_scan_trigger D)"
    unfolding ath9k_spectral_scan_trigger_def ath9k_spectral_scan_config_def
    by (intro keeps_rules keeps_case_spectral keeps_indep [OF g(1,2)] awake; simp)
  define tail where "tail old = do {
       r \<leftarrow> ath_reset_internal D (Some pos);
       if r \<noteq> 0 then ret r
       else do {
         (case old of None \<Rightarrow> ret () | Some p \<Rightarrow> do_call D (Reset (Update_survey_nf p)));
         radar \<leftarrow> gets radar_enabled;
         (if radar then do {
            do_call D (Hw Hw_set_radar_params);
            f \<leftarrow> call D (Hw Hw_getrxfilter);
            do_call D (Hw (Hw_setrxfilter (f OR phyradar_phyerr D)))
          } else do {
            scan \<leftarrow> gets (\<lambda>s. OP_SCANNING \<in> op_flags s \<and> spectral s = SPECTRAL_CHANSCAN);
            only_if scan (ath9k_spectral_scan_trigger D)
          });
         ret 0
       }
     }" for old
  have tail: "keeps ?g (tail old)" for old
    unfolding tail_def by (intro keeps_rules keeps_case_option keeps_indep [OF g(1,2)]
      keeps_indep_reset(2) [OF g] scan)
  have tail': "cur_survey (exec (tail old) t) = cur_survey t" "survey_in_use (exec (tail old) t) = survey_in_use t"
    for old t using keepsD [OF tail, of old t] by simp_all
  show ?thesis
    using assms unfolding ath_set_channel_def tail_def [symmetric]
    by (auto simp: switch_survey_def with_lock_def tail' split: option.split)
qed

lemma world0_frames:
  "frames dev0 ps_usecount" "frames dev0 cur_survey" "frames dev0 survey_in_use" "frames dev0 op_flags"
  "frames dev0 conf_flags"
  by (rule frames_world0, simp)+

theorem reset_balanced_witness:
  "locked (exec (ath_reset_work dev0) softc0) = Some []"
  using reset_balanced [of softc0 "[]" dev0 0] world0_frames by (simp add: softc0_def locked_def)

theorem channel_survey_witness:
  "cur_survey (exec (ath_set_channel dev0 6) (softc0\<lparr>op_flags := {}\<rparr>)) = Some 6"
  using channel_survey [OF world0_frames(2-5), of "softc0\<lparr>op_flags := {}\<rparr>" 6] by (simp add: softc0_def)

text \<open>
  The reset flag that keeps the interrupt handler off: a reset that succeeds clears it; if
  the chip cannot be reset it is set, another reset is queued, the interrupts are enabled and
  the chip's status is the result.
\<close>

theorem reset_flag:
  assumes "frames D op_flags"
  shows "(res (ath_reset_internal D h) s \<noteq> 0 \<or> OP_HW_RESET \<notin> op_flags (exec (ath_reset_internal D h) s)) \<and>
    ((\<exists>t c x f. fst (world D (Reset (Hw_reset c x f)) t) = 0) \<or>
     res (ath_reset_internal D h) s \<noteq> 0 \<and> OP_HW_RESET \<in> op_flags (exec (ath_reset_internal D h) s) \<and>
     Call (Work Queue_hw_reset_work) \<in> set (trace (exec (ath_reset_internal D h) s)) \<and>
     Call (Irq Hw_enable_interrupts) \<in> set (trace (exec (ath_reset_internal D h) s)))"
proof -
  have k: "op_flags (exec (ath_prepare_reset D) t) = op_flags t" for t
    using keepsD [OF keeps_indep_parts(3) [OF assms op_flags_indep]] .
  have z: "sint w = 0 \<longleftrightarrow> w = 0" for w :: u32 by (rule signed_eq_0_iff)
  show ?thesis
    using assms by (auto simp: ath_reset_internal_def Let_def with_lock_def k op_flags_complete
      ath9k_queue_reset_def EIO_def z)
qed

theorem reset_flag_witness:
  "OP_HW_RESET \<in> op_flags (exec (ath_reset_internal (dev0\<lparr>world := \<lambda>c s. (1, s)\<rparr>) None) softc0)"
  using reset_flag [of "dev0\<lparr>world := \<lambda>c s. (1, s)\<rparr>" None softc0] by (simp add: frames_def)

end
