(* ===== verification/Ath_Interrupt.thy ===== *)
theory Ath_Interrupt
  imports Ath_Reset
begin

text \<open>
  Interrupts in \<open>ath9k/main.c\<close>: the handler \<open>ath_isr\<close> and the tasklet \<open>ath9k_tasklet\<close> it
  schedules. The wake-on-wireless part of the handler belongs to a build option that is off
  here.
\<close>

datatype isr_ret = IRQ_NONE | IRQ_HANDLED

definition MAX_GTT_CNT :: u8 where "MAX_GTT_CNT = 5"

section \<open>\<open>ath9k_tasklet\<close>\<close>

text \<open>A reset request of the tasklet: the reference count keeps the interrupts off until the reset.\<close>

definition tasklet_reset :: "device \<Rightarrow> reset_type \<Rightarrow> (softc, unit) state" where
  "tasklet_reset D type = do {
     ath9k_queue_reset D type;
     modify (\<lambda>s. s\<lparr>intr_ref_cnt := intr_ref_cnt s + 1\<rparr>)
   }"

text \<open>The three checks; \<open>True\<close> means \<open>goto out\<close>.\<close>

definition check_fatal :: "device \<Rightarrow> u32 \<Rightarrow> (softc, bool) state" where
  "check_fatal D status =
     (if status AND INT_FATAL D \<noteq> 0 then do { tasklet_reset D RESET_FATAL_INT; ret True }
      else ret False)"

definition check_watchdog :: "device \<Rightarrow> u32 \<Rightarrow> (softc, bool) state" where
  "check_watchdog D status =
     (if hang_watchdog D \<and> status AND INT_BB_WATCHDOG D \<noteq> 0 then do {
        with_lock Cc_lock (do {
          do_call D (Power Cycle_counters_update);
          do_call D (Irq Bb_watchdog_dbg_info)
        });
        hang \<leftarrow> call D (Irq Bb_watchdog_check);
        if hang \<noteq> 0 then do { tasklet_reset D RESET_BB_WATCHDOG; ret True } else ret False
      } else ret False)"

definition check_gtt :: "device \<Rightarrow> u32 \<Rightarrow> (softc, bool) state" where
  "check_gtt D status =
     (if status AND INT_GTT D \<noteq> 0 then do {
        modify (\<lambda>s. s\<lparr>gtt_cnt := gtt_cnt s + 1\<rparr>);
        n \<leftarrow> gets gtt_cnt;
        if n \<ge> MAX_GTT_CNT then do {
          alive \<leftarrow> call D (Irq Hw_check_alive);
          if alive = 0 then do { tasklet_reset D RESET_TX_GTT; ret True } else ret False
        } else ret False
      } else ret False)"

definition check_tsfoor :: "device \<Rightarrow> u32 \<Rightarrow> (softc, unit) state" where
  "check_tsfoor D status = with_lock Sc_pm_lock (do {
     ps \<leftarrow> gets ps_enabled;
     only_if (status AND INT_TSFOOR D \<noteq> 0 \<and> ps)
       (modify (\<lambda>s. s\<lparr>ps_flags := ps_flags s OR (PS_WAIT_FOR_BEACON OR PS_BEACON_SYNC)\<rparr>))
   })"

definition rxmask :: "device \<Rightarrow> u32" where
  "rxmask D = (if cap_edma D then INT_RXHP D OR INT_RXLP D OR INT_RXEOL D OR INT_RXORN D
     else INT_RX D OR INT_RXEOL D OR INT_RXORN D)"

definition tasklet_work :: "device \<Rightarrow> u32 \<Rightarrow> (softc, unit) state" where
  "tasklet_work D status = do {
     check_tsfoor D status;
     only_if (status AND rxmask D \<noteq> 0) (do {
       only_if (cap_edma D \<and> status AND INT_RXHP D \<noteq> 0) (do_call D (Irq (Rx_tasklet True)));
       do_call D (Irq (Rx_tasklet False))
     });
     only_if (status AND INT_TX D \<noteq> 0) (do {
       (if cap_edma D then do {
          modify (\<lambda>s. s\<lparr>gtt_cnt := 0\<rparr>);
          do_call D (Irq Tx_edma_tasklet)
        } else do_call D (Irq Tx_tasklet));
       do_call D (Work Wake_up_tx_wait)
     });
     only_if (status AND INT_GENTIMER D \<noteq> 0) (do_call D (Irq Gen_timer_isr));
     do_call D (Irq (Btcoex_handle_interrupt status));
     do_call D (Irq Hw_enable_interrupts)
   }"

definition ath9k_tasklet :: "device \<Rightarrow> (softc, unit) state" where
  "ath9k_tasklet D = do {
     status \<leftarrow> gets intrstatus;
     awake D (with_lock Sc_pcu_lock (do {
       out \<leftarrow> check_fatal D status;
       if out then ret ()
       else do {
         out \<leftarrow> check_watchdog D status;
         if out then ret ()
         else do {
           out \<leftarrow> check_gtt D status;
           if out then ret () else tasklet_work D status
         }
       }
     }))
   }"

section \<open>\<open>ath_isr\<close>\<close>

definition sched_intr :: "device \<Rightarrow> u32" where
  "sched_intr D = INT_FATAL D OR INT_BB_WATCHDOG D OR INT_RXORN D OR INT_RXEOL D OR INT_RX D OR
     INT_RXLP D OR INT_RXHP D OR INT_TX D OR INT_BMISS D OR INT_CST D OR INT_GTT D OR INT_TSFOOR D OR
     INT_GENTIMER D OR INT_MCI D"

text \<open>From the handling of the beacon timer to the label \<open>chip_reset\<close>.\<close>

definition isr_handle :: "device \<Rightarrow> u32 \<Rightarrow> (softc, unit) state" where
  "isr_handle D status = do {
     only_if (status AND INT_SWBA D \<noteq> 0) (do_call D (Work Bcon_tasklet_schedule));
     only_if (status AND INT_TXURN D \<noteq> 0) (do_call D (Irq Hw_updatetxtriglevel));
     only_if (status AND INT_RXEOL D \<noteq> 0) (do {
       modify (\<lambda>s. s\<lparr>imask := imask s AND NOT (INT_RXEOL D OR INT_RXORN D)\<rparr>);
       do_call D (Irq Hw_set_interrupts)
     });
     only_if (\<not> cap_autosleep D \<and> status AND INT_TIM_TIMER D \<noteq> 0) (do {
       idle \<leftarrow> gets ps_idle;
       if idle then ret ()
       else do {
         _ \<leftarrow> ath9k_setpower D PM_AWAKE;
         with_lock Sc_pm_lock (do {
           do_call D (Power (Hw_setrxabort False));
           modify (\<lambda>s. s\<lparr>ps_flags := ps_flags s OR PS_WAIT_FOR_BEACON\<rparr>)
         })
       }
     })
   }"

definition chip_reset :: "device \<Rightarrow> u32 \<Rightarrow> bool \<Rightarrow> (softc, isr_ret) state" where
  "chip_reset D status sched = do {
     do_call D (Irq (Debug_stat_interrupt status));
     only_if sched (do {
       do_call D (Irq Hw_disable_interrupts);
       do_call D (Work Intr_tasklet_schedule)
     });
     ret IRQ_HANDLED
   }"

definition ath_isr :: "device \<Rightarrow> (softc, isr_ret) state" where
  "ath_isr D = do {
     invalid \<leftarrow> gets (\<lambda>s. OP_INVALID \<in> op_flags s);
     if invalid then ret IRQ_NONE
     else do {
       pend \<leftarrow> call D (Irq Hw_intrpend);
       resetting \<leftarrow> gets (\<lambda>s. OP_HW_RESET \<in> op_flags s);
       if pend = 0 then ret IRQ_NONE
       else if resetting then do {
         do_call D (Irq Hw_kill_interrupts);
         ret IRQ_HANDLED
       } else do {
         isr \<leftarrow> call D (Irq Hw_getisr);
         mask \<leftarrow> gets imask;
         let status = isr AND mask;
         trigger \<leftarrow> gets diag_trigger_error;
         let status = (if trigger then status OR INT_FATAL D else status);
         modify (\<lambda>s. s\<lparr>diag_trigger_error := False\<rparr>);
         if status = 0 then ret IRQ_NONE
         else do {
           modify (\<lambda>s. s\<lparr>intrstatus := status\<rparr>);
           let sched = (status AND sched_intr D \<noteq> 0);
           if status AND INT_FATAL D \<noteq> 0 then chip_reset D status sched
           else if hang_watchdog D \<and> status AND INT_BB_WATCHDOG D \<noteq> 0 then chip_reset D status sched
           else do {
             isr_handle D status;
             chip_reset D status sched
           }
         }
       }
     }
   }"

section \<open>Lemmas\<close>

lemma uses_interrupt [uses_intros]:
  "uses A (tasklet_reset D type)" "uses A (check_fatal D status)" "uses A (check_gtt D status)"
  "{Cc_lock} \<subseteq> A \<Longrightarrow> uses A (check_watchdog D status)"
  "{Sc_pm_lock} \<subseteq> A \<Longrightarrow> uses A (check_tsfoor D status)"
  "{Sc_pm_lock} \<subseteq> A \<Longrightarrow> uses A (tasklet_work D status)"
  "{Sc_pm_lock} \<subseteq> A \<Longrightarrow> uses A (isr_handle D status)"
  "uses A (chip_reset D status sched)"
  "{Sc_pm_lock} \<subseteq> A \<Longrightarrow> uses A (ath_isr D)"
  "{Sc_pcu_lock, Sc_pm_lock, Cc_lock} \<subseteq> A \<Longrightarrow> uses A (ath9k_tasklet D)"
  unfolding tasklet_reset_def check_fatal_def check_watchdog_def check_gtt_def check_tsfoor_def
    tasklet_work_def isr_handle_def chip_reset_def ath_isr_def ath9k_tasklet_def Let_def
  by (intro uses_intros; auto)+

lemma keeps_interrupt [keeps_intros]:
  assumes "steady D g"
  shows "keeps g (tasklet_reset D type)" "keeps g (check_fatal D status)"
    "keeps g (check_gtt D status)" "keeps g (check_watchdog D status)"
    "keeps g (check_tsfoor D status)" "keeps g (tasklet_work D status)"
    "keeps g (isr_handle D status)" "keeps g (chip_reset D status sched)"
    "keeps g (ath_isr D)" "keeps g (ath9k_tasklet D)"
  unfolding tasklet_reset_def check_fatal_def check_watchdog_def check_gtt_def check_tsfoor_def
    tasklet_work_def isr_handle_def chip_reset_def ath_isr_def ath9k_tasklet_def Let_def
  using assms by (intro keeps_intros assms steadyD(2) [OF assms] unwrittenD [OF steadyD(2) [OF assms]]; simp add: sc_view_def)+

text \<open>How often a call was made.\<close>

definition calls :: "call \<Rightarrow> softc \<Rightarrow> nat" where
  "calls c s = count_list (trace s) (Call c)"

text \<open>What a part of the tasklet does: interrupts enabled, resets queued, references taken.\<close>

definition tasklet_effect :: "softc \<Rightarrow> softc \<Rightarrow> nat \<Rightarrow> nat \<Rightarrow> bool" where
  "tasklet_effect s s' en q \<longleftrightarrow>
     calls (Irq Hw_enable_interrupts) s' = calls (Irq Hw_enable_interrupts) s + en \<and>
     calls (Work Queue_hw_reset_work) s' = calls (Work Queue_hw_reset_work) s + q \<and>
     intr_ref_cnt s' = intr_ref_cnt s + int q \<and> (q = 0 \<or> OP_HW_RESET \<in> op_flags s')"

lemma tasklet_effect_parts:
  assumes "frames D intr_ref_cnt" "frames D op_flags"
  shows "tasklet_effect s (exec (check_fatal D status) s) 0 (if res (check_fatal D status) s then 1 else 0)"
    "tasklet_effect s (exec (check_watchdog D status) s) 0 (if res (check_watchdog D status) s then 1 else 0)"
    "tasklet_effect s (exec (check_gtt D status) s) 0 (if res (check_gtt D status) s then 1 else 0)"
    "tasklet_effect s (exec (tasklet_work D status) s) 1 0"
    "tasklet_effect s (exec (ath9k_ps_wakeup D) s) 0 0"
  using assms
  by (simp_all add: tasklet_effect_def calls_def check_fatal_def check_watchdog_def check_gtt_def
      tasklet_reset_def ath9k_queue_reset_def with_lock_def tasklet_work_def check_tsfoor_def
      ath9k_ps_wakeup_def)

lemma tasklet_effect_trans:
  "tasklet_effect s t a 0 \<Longrightarrow> tasklet_effect t u b q \<Longrightarrow> tasklet_effect s u (a + b) q"
  by (simp add: tasklet_effect_def)

lemma tasklet_effect_restore:
  assumes "frames D intr_ref_cnt" "frames D op_flags" "tasklet_effect s t en q"
  shows "tasklet_effect s (exec (ath9k_ps_restore D) t) en q"
  using assms by (simp add: tasklet_effect_def calls_def with_lock_def ath9k_ps_restore_def)

lemma tasklet_effect_locked:
  assumes "\<And>t. tasklet_effect t (exec m t) 0 1 \<or> tasklet_effect t (exec m t) 1 0"
  shows "tasklet_effect s (exec (with_lock l m) s) 0 1 \<or> tasklet_effect s (exec (with_lock l m) s) 1 0"
  using assms [of "s\<lparr>trace := Lock (Acquire l) # trace s\<rparr>"]
  by (simp add: tasklet_effect_def calls_def with_lock_def)

section \<open>Properties\<close>

text \<open>
  A run of the tasklet either enables the interrupts exactly once and asks for no reset, or
  leaves them off, queues exactly one reset with the reset flag set and takes exactly one
  reference that keeps them off until the reset.
\<close>

theorem tasklet_reset_or_enable:
  assumes "frames D intr_ref_cnt" "frames D op_flags"
  shows "tasklet_effect s (exec (ath9k_tasklet D) s) 0 1 \<or> tasklet_effect s (exec (ath9k_tasklet D) s) 1 0"
proof -
  define body where "body = do {
       out \<leftarrow> check_fatal D (intrstatus s);
       if out then ret ()
       else do {
         out \<leftarrow> check_watchdog D (intrstatus s);
         if out then ret ()
         else do {
           out \<leftarrow> check_gtt D (intrstatus s);
           if out then ret () else tasklet_work D (intrstatus s)
         }
       }
     }"
  note e = tasklet_effect_parts [OF assms]
  have "tasklet_effect t (exec body t) 0 1 \<or> tasklet_effect t (exec body t) 1 0" for t
  proof -
    let ?a = "exec (check_fatal D (intrstatus s)) t"
    let ?b = "exec (check_watchdog D (intrstatus s)) ?a"
    let ?c = "exec (check_gtt D (intrstatus s)) ?b"
    note e1 = e(1) [of t "intrstatus s"] and e2 = e(2) [of ?a "intrstatus s"]
      and e3 = e(3) [of ?b "intrstatus s"] and e4 = e(4) [of ?c "intrstatus s"]
    show ?thesis
      using e1 e2 e3 e4 tasklet_effect_trans [of t ?a 0 ?b] tasklet_effect_trans [of t ?b 0 ?c]
        tasklet_effect_trans [of t ?c 0 "exec (tasklet_work D (intrstatus s)) ?c" 1 0]
      by (auto simp: body_def split: if_splits)
  qed
  note locked = tasklet_effect_locked [OF this, of "exec (ath9k_ps_wakeup D) s" Sc_pcu_lock]
  have "exec (ath9k_tasklet D) s =
      exec (ath9k_ps_restore D) (exec (with_lock Sc_pcu_lock body) (exec (ath9k_ps_wakeup D) s))"
    by (simp add: ath9k_tasklet_def awake_def body_def cong: if_cong)
  then show ?thesis
    using locked tasklet_effect_trans [OF e(5) [of s]] tasklet_effect_restore [OF assms] by auto
qed

theorem tasklet_reset_or_enable_witness:
  "tasklet_effect softc0 (exec (ath9k_tasklet dev0) softc0) 0 1 \<or>
   tasklet_effect softc0 (exec (ath9k_tasklet dev0) softc0) 1 0"
  by (rule tasklet_reset_or_enable) (rule frames_world0, simp)+

text \<open>
  The status the handler works on, when \<open>ath9k_hw_getisr\<close> answers \<open>isr\<close>; whether it goes straight to the label
  \<open>chip_reset\<close>; and what the handler does for such a status after it read it, the latest first.
\<close>

definition isr_status :: "device \<Rightarrow> u32 \<Rightarrow> softc \<Rightarrow> u32" where
  "isr_status D isr s = isr AND imask s OR (if diag_trigger_error s then INT_FATAL D else 0)"

definition isr_urgent :: "device \<Rightarrow> u32 \<Rightarrow> bool" where
  "isr_urgent D status \<longleftrightarrow> status AND INT_FATAL D \<noteq> 0 \<or>
     hang_watchdog D \<and> status AND INT_BB_WATCHDOG D \<noteq> 0"

definition isr_beacon :: "device \<Rightarrow> u32 \<Rightarrow> softc \<Rightarrow> bool" where
  "isr_beacon D status s \<longleftrightarrow> \<not> isr_urgent D status \<and> \<not> cap_autosleep D \<and>
     status AND INT_TIM_TIMER D \<noteq> 0 \<and> \<not> ps_idle s"

definition isr_log :: "device \<Rightarrow> u32 \<Rightarrow> softc \<Rightarrow> drv_ev list" where
  "isr_log D status s =
     (if status AND sched_intr D = 0 then []
      else [Call (Work Intr_tasklet_schedule), Call (Irq Hw_disable_interrupts)]) @
     [Call (Irq (Debug_stat_interrupt status))] @
     (if isr_beacon D status s
      then [Lock (Release Sc_pm_lock), Call (Power (Hw_setrxabort False)), Lock (Acquire Sc_pm_lock),
        Lock (Release Sc_pm_lock), Call (Power (Hw_setpower PM_AWAKE)), Lock (Acquire Sc_pm_lock)]
      else []) @
     (if isr_urgent D status then []
      else (if status AND INT_RXEOL D \<noteq> 0 then [Call (Irq Hw_set_interrupts)] else []) @
        (if status AND INT_TXURN D \<noteq> 0 then [Call (Irq Hw_updatetxtriglevel)] else []) @
        (if status AND INT_SWBA D \<noteq> 0 then [Call (Work Bcon_tasklet_schedule)] else []))"

lemma isr_handle_eq:
  assumes "frames D imask" "frames D intrstatus" "frames D diag_trigger_error" "frames D ps_flags" "frames D ps_idle"
    and "\<not> isr_urgent D status"
  shows "trace (exec (chip_reset D status (status AND sched_intr D \<noteq> 0)) (exec (isr_handle D status) t)) =
      isr_log D status t @ trace t"
    "intrstatus (exec (isr_handle D status) t) = intrstatus t"
    "diag_trigger_error (exec (isr_handle D status) t) = diag_trigger_error t"
    "imask (exec (isr_handle D status) t) =
      (if status AND INT_RXEOL D \<noteq> 0 then imask t AND NOT (INT_RXEOL D OR INT_RXORN D) else imask t)"
    "ps_flags (exec (isr_handle D status) t) =
      (if isr_beacon D status t then ps_flags t OR PS_WAIT_FOR_BEACON else ps_flags t)"
  using assms
  by (simp_all add: isr_handle_def chip_reset_def isr_log_def isr_beacon_def with_lock_def ath9k_setpower_def)

lemma chip_reset_eq:
  "trace (exec (chip_reset D status b) t) =
     (if b then [Call (Work Intr_tasklet_schedule), Call (Irq Hw_disable_interrupts)] else []) @
     Call (Irq (Debug_stat_interrupt status)) # trace t"
  "frames D g \<Longrightarrow> untraced g \<Longrightarrow> g (exec (chip_reset D status b) t) = g t"
  "res (chip_reset D status b) t = IRQ_HANDLED"
  by (simp_all add: chip_reset_def untraced_def)

lemma isr_log_urgent:
  "isr_urgent D status \<Longrightarrow> isr_log D status s =
     (if status AND sched_intr D = 0 then []
      else [Call (Work Intr_tasklet_schedule), Call (Irq Hw_disable_interrupts)]) @
     [Call (Irq (Debug_stat_interrupt status))]"
  by (simp add: isr_log_def isr_beacon_def)

text \<open>The part of the handler behind the reading of the status.\<close>

definition isr_rest :: "device \<Rightarrow> u32 \<Rightarrow> (softc, isr_ret) state" where
  "isr_rest D status =
     (if status = 0 then ret IRQ_NONE
      else do {
        modify (\<lambda>s. s\<lparr>intrstatus := status\<rparr>);
        if isr_urgent D status then chip_reset D status (status AND sched_intr D \<noteq> 0)
        else do { isr_handle D status; chip_reset D status (status AND sched_intr D \<noteq> 0) }
      })"

lemma ath_isr_split:
  "ath_isr D = do {
     invalid \<leftarrow> gets (\<lambda>s. OP_INVALID \<in> op_flags s);
     if invalid then ret IRQ_NONE
     else do {
       pend \<leftarrow> call D (Irq Hw_intrpend);
       resetting \<leftarrow> gets (\<lambda>s. OP_HW_RESET \<in> op_flags s);
       if pend = 0 then ret IRQ_NONE
       else if resetting then do { do_call D (Irq Hw_kill_interrupts); ret IRQ_HANDLED }
       else do {
         isr \<leftarrow> call D (Irq Hw_getisr);
         status \<leftarrow> gets (isr_status D isr);
         modify (\<lambda>s. s\<lparr>diag_trigger_error := False\<rparr>);
         isr_rest D status
       }
     }
   }"
proof -
  have tail: "(if status AND INT_FATAL D \<noteq> 0 then m
      else if hang_watchdog D \<and> status AND INT_BB_WATCHDOG D \<noteq> 0 then m else n) =
      (if isr_urgent D status then m else n)" for status and m n :: "(softc, isr_ret) state"
    by (auto simp: isr_urgent_def)
  have get: "do { mask \<leftarrow> gets imask; trigger \<leftarrow> gets diag_trigger_error; f (isr AND mask) trigger } =
      do { status \<leftarrow> gets (isr_status D isr); g status }"
    if "\<And>x b. f x b = g (x OR (if b then INT_FATAL D else 0))" for isr and f and g :: "u32 \<Rightarrow> (softc, isr_ret) state"
    by (simp add: that isr_status_def gets_def State_Monad.bind_def)
  show ?thesis
    unfolding ath_isr_def isr_rest_def Let_def tail by (subst get) auto
qed

lemma isr_rest_eq:
  assumes "frames D imask" "frames D intrstatus" "frames D diag_trigger_error" "frames D ps_flags" "frames D ps_idle"
  shows "trace (exec (isr_rest D status) t) = (if status = 0 then [] else isr_log D status t) @ trace t \<and>
    res (isr_rest D status) t = (if status = 0 then IRQ_NONE else IRQ_HANDLED) \<and>
    intrstatus (exec (isr_rest D status) t) = (if status = 0 then intrstatus t else status) \<and>
    diag_trigger_error (exec (isr_rest D status) t) = diag_trigger_error t \<and>
    imask (exec (isr_rest D status) t) =
      (if status = 0 \<or> isr_urgent D status \<or> status AND INT_RXEOL D = 0 then imask t
       else imask t AND NOT (INT_RXEOL D OR INT_RXORN D)) \<and>
    ps_flags (exec (isr_rest D status) t) =
      (if isr_beacon D status t then ps_flags t OR PS_WAIT_FOR_BEACON else ps_flags t)"
proof -
  let ?t = "t\<lparr>intrstatus := status\<rparr>"
  consider "status = 0" | "status \<noteq> 0" "isr_urgent D status" | "status \<noteq> 0" "\<not> isr_urgent D status" by blast
  then show ?thesis
  proof cases
    case 1
    then show ?thesis by (simp add: isr_rest_def isr_beacon_def)
  next
    case 2
    then show ?thesis
      using assms by (simp add: isr_rest_def isr_beacon_def isr_log_urgent chip_reset_eq untraced_def)
  next
    case 3
    have "isr_log D status ?t = isr_log D status t" "isr_beacon D status ?t = isr_beacon D status t"
      by (simp_all add: isr_log_def isr_beacon_def)
    with 3 show ?thesis
      using isr_handle_eq [OF assms 3(2), of ?t] assms
      by (simp add: isr_rest_def chip_reset_eq(2,3) untraced_def)
  qed
qed

text \<open>
  C23: The interrupt handler, on every path. On an absent device it answers \<open>IRQ_NONE\<close> and touches
  nothing. When the chip has no interrupt pending it answers \<open>IRQ_NONE\<close> and asking the chip is all it did.
  While a reset is pending it kills the interrupts, does nothing else and answers \<open>IRQ_HANDLED\<close>. Otherwise
  the status is what the chip reports within the requested mask, and the fatal bit when the diagnosis
  forces it, which it does once. An empty status is not for this device: \<open>IRQ_NONE\<close>, and the handler
  has only asked the chip. With any other status the handler answers \<open>IRQ_HANDLED\<close>, has stored the status
  for the tasklet and has done what \<open>isr_log\<close> says in this order, nothing else: for a status that is not urgent the beacon
  tasklet, the trigger level, the mask of the receive interrupts and the wakeup for a
  beacon, each exactly when its bit is set; then, exactly when the status has a bit of the
  tasklet's, every interrupt turned off before the tasklet is scheduled.
\<close>

theorem isr_contract:
  assumes "frames D op_flags" "frames D imask" "frames D intrstatus" "frames D diag_trigger_error"
    "frames D ps_flags" "frames D ps_idle"
    and "s' = exec (ath_isr D) s" "r = res (ath_isr D) s"
    and "asked = exec (call D (Irq Hw_intrpend)) s"
    and "status = isr_status D (fst (world D (Irq Hw_getisr) asked)) s"
  shows "(if OP_INVALID \<in> op_flags s then r = IRQ_NONE \<and> s' = s
    else if fst (world D (Irq Hw_intrpend) s) = 0 then r = IRQ_NONE \<and> s' = asked
    else if OP_HW_RESET \<in> op_flags s then
      r = IRQ_HANDLED \<and> s' = exec (do_call D (Irq Hw_kill_interrupts)) asked
    else \<not> diag_trigger_error s' \<and>
      (if status = 0 then
         r = IRQ_NONE \<and> intrstatus s' = intrstatus s \<and> imask s' = imask s \<and> ps_flags s' = ps_flags s \<and>
         trace s' = Call (Irq Hw_getisr) # Call (Irq Hw_intrpend) # trace s
       else
         r = IRQ_HANDLED \<and> intrstatus s' = status \<and>
         imask s' = (if isr_urgent D status \<or> status AND INT_RXEOL D = 0 then imask s
           else imask s AND NOT (INT_RXEOL D OR INT_RXORN D)) \<and>
         ps_flags s' = (if isr_beacon D status s then ps_flags s OR PS_WAIT_FOR_BEACON else ps_flags s) \<and>
         trace s' = isr_log D status s @ Call (Irq Hw_getisr) # Call (Irq Hw_intrpend) # trace s))"
proof (cases "OP_INVALID \<in> op_flags s \<or> fst (world D (Irq Hw_intrpend) s) = 0 \<or> OP_HW_RESET \<in> op_flags s")
  case True
  then show ?thesis using assms(1) by (auto simp: assms(7-9) ath_isr_def)
next
  case False
  define t where "t = (exec (call D (Irq Hw_getisr)) asked)\<lparr>diag_trigger_error := False\<rparr>"
  have t: "trace t = Call (Irq Hw_getisr) # Call (Irq Hw_intrpend) # trace s" "imask t = imask s"
    "intrstatus t = intrstatus s" "diag_trigger_error t = False" "ps_flags t = ps_flags s" "ps_idle t = ps_idle s"
    using assms(1-6) by (simp_all add: t_def assms(9))
  have st: "isr_status D x (u\<lparr>trace := es\<rparr>) = isr_status D x u"
    "isr_status D x (snd (world D c u)) = isr_status D x u" for x u es c
    using assms(2,4) by (simp_all add: isr_status_def)
  have run: "s' = exec (isr_rest D status) t" "r = res (isr_rest D status) t"
    unfolding assms(7,8) ath_isr_split t_def
    using False assms(1) by (simp_all add: st assms(9,10))
  have "isr_log D status t = isr_log D status s" "isr_beacon D status t = isr_beacon D status s"
    "\<not> isr_beacon D 0 s" by (simp_all add: isr_log_def isr_beacon_def t)
  with isr_rest_eq [OF assms(2-6), of status t, folded run, unfolded t] False show ?thesis by simp
qed

text \<open>
  A chip that has the interrupts \<open>isr\<close> raised, none when it is zero, and a driver that asked for the
  transmission, the beacon and some receive interrupts.
\<close>

definition dev_irq :: "u32 \<Rightarrow> device" where
  "dev_irq isr = dev0\<lparr>world := (\<lambda>c s.
     if c = Irq Hw_intrpend then (if isr = 0 then 0 else 1, s)
     else if c = Irq Hw_getisr then (isr, s) else world0 c s)\<rparr>"

definition softc_irq :: softc where
  "softc_irq = softc0\<lparr>op_flags := {}, imask := 0x10070\<rparr>"

lemma frames_dev_irq: "(\<And>s m. g (s\<lparr>power_mode := m\<rparr>) = g s) \<Longrightarrow> frames (dev_irq isr) g"
  by (simp add: frames_def dev_irq_def world0_def split: option.split)

text \<open>
  A transmission and a beacon interrupt with one nobody asked for; the same while a reset is pending; no
  interrupt; the forced fatal error; and an absent device.
\<close>

theorem isr_contract_witness:
  "res (ath_isr (dev_irq 0x90040)) softc_irq = IRQ_HANDLED \<and>
   intrstatus (exec (ath_isr (dev_irq 0x90040)) softc_irq) = 0x10040 \<and>
   trace (exec (ath_isr (dev_irq 0x90040)) softc_irq) =
     [Call (Work Intr_tasklet_schedule), Call (Irq Hw_disable_interrupts),
      Call (Irq (Debug_stat_interrupt 0x10040)), Call (Work Bcon_tasklet_schedule),
      Call (Irq Hw_getisr), Call (Irq Hw_intrpend)] \<and>
   res (ath_isr (dev_irq 0x90040)) (softc_irq\<lparr>op_flags := {OP_HW_RESET}\<rparr>) = IRQ_HANDLED \<and>
   trace (exec (ath_isr (dev_irq 0x90040)) (softc_irq\<lparr>op_flags := {OP_HW_RESET}\<rparr>)) =
     [Call (Irq Hw_kill_interrupts), Call (Irq Hw_intrpend)] \<and>
   res (ath_isr (dev_irq 0)) softc_irq = IRQ_NONE \<and>
   trace (exec (ath_isr (dev_irq 0)) softc_irq) = [Call (Irq Hw_intrpend)] \<and>
   intrstatus (exec (ath_isr (dev_irq 0x80000)) (softc_irq\<lparr>diag_trigger_error := True\<rparr>)) = 0x40000000 \<and>
   res (ath_isr (dev_irq 0x90040)) softc0 = IRQ_NONE"
proof -
  have f: "frames (dev_irq isr) op_flags" "frames (dev_irq isr) imask" "frames (dev_irq isr) intrstatus"
    "frames (dev_irq isr) diag_trigger_error" "frames (dev_irq isr) ps_flags" "frames (dev_irq isr) ps_idle" for isr
    by (rule frames_dev_irq, simp)+
  note e = isr_log_def isr_status_def isr_urgent_def isr_beacon_def dev_irq_def dev0_def softc_irq_def softc0_def
    sched_intr_def
  show ?thesis
    using isr_contract [where D = "dev_irq 0x90040" and s = "softc_irq", OF f refl refl refl refl]
      isr_contract [where D = "dev_irq 0x90040" and s = "softc_irq\<lparr>op_flags := {OP_HW_RESET}\<rparr>", OF f refl refl refl refl]
      isr_contract [where D = "dev_irq 0" and s = "softc_irq", OF f refl refl refl refl]
      isr_contract [where D = "dev_irq 0x80000" and s = "softc_irq\<lparr>diag_trigger_error := True\<rparr>", OF f refl refl refl refl]
      isr_contract [where D = "dev_irq 0x90040" and s = "softc0", OF f refl refl refl refl]
    by (simp add: e)
qed

end
