(* ===== verification/Ath_Tx.thy ===== *)
theory Ath_Tx
  imports Ath_Interrupt Contention
begin

text \<open>
  Transmission in \<open>ath9k/main.c\<close>: the length of the transmit buffer list and the contention
  window the driver derives from it, \<open>ath9k_tx\<close>, the tests for pending frames and
  \<open>ath9k_flush\<close>, and the state of the last beacon.
\<close>

section \<open>The buffer list and the contention window\<close>

fun count_loop :: "'a list \<Rightarrow> u32 \<Rightarrow> u32" where
  "count_loop [] sz = sz"
| "count_loop (x # xs) sz = count_loop xs (sz + 1)"

definition ath_tx_get_buf_size :: "(softc, u32) state" where
  "ath_tx_get_buf_size = gets (\<lambda>s. count_loop (txbuf s) 0)"

text \<open>\<open>None\<close> is the \<open>BUG_ON\<close> of a queue whose number is not its index.\<close>

definition ath_cw_update :: "device \<Rightarrow> nat \<Rightarrow> u32 \<Rightarrow> (softc, int option) state" where
  "ath_cw_update D qnum buf_size = do {
     q \<leftarrow> gets (\<lambda>s. axq_qnum (txqs s qnum));
     if q \<noteq> of_nat qnum then ret None
     else do {
       let cw = tqi_cw_of buf_size;
       ok \<leftarrow> call D (Tx (Set_txq_props qnum cw));
       if ok = 0 then ret (Some (- EIO))
       else do {
         do_call D (Tx (Reset_tx_queue qnum));
         ret (Some 0)
       }
     }
   }"

definition ath_tx_default_wait :: "u32 \<Rightarrow> u32" where
  "ath_tx_default_wait buf_size = 10000"

section \<open>\<open>ath9k_tx\<close>\<close>

text \<open>A frame: its number, its queue, and what its frame control says.\<close>

definition TX_PRIORITY :: nat where "TX_PRIORITY = 3"

record frame =
  skb :: nat
  queue_mapping :: nat
  is_data :: bool
  is_nullfunc :: bool
  has_pm :: bool
  is_pspoll :: bool

definition wake_for_tx :: "device \<Rightarrow> bool \<Rightarrow> (softc, unit) state" where
  "wake_for_tx D pspoll = do {
     ath9k_ps_wakeup D;
     with_lock Sc_pm_lock (do {
       only_if (\<not> cap_autosleep D) (do_call D (Power (Hw_setrxabort False)));
       if pspoll then modify (\<lambda>s. s\<lparr>ps_flags := ps_flags s OR PS_WAIT_FOR_PSPOLL_DATA\<rparr>)
       else modify (\<lambda>s. s\<lparr>ps_flags := ps_flags s OR PS_WAIT_FOR_TX_ACK\<rparr>)
     });
     ath9k_ps_restore D
   }"

definition tx_exit :: "device \<Rightarrow> nat \<Rightarrow> (softc, unit) state" where
  "tx_exit D sk = do_call D (Tx (Free_txskb sk))"

definition ath9k_tx :: "device \<Rightarrow> frame \<Rightarrow> (softc, unit) state" where
  "ath9k_tx D f = do {
     modify (\<lambda>s. s\<lparr>txbuf_fff := True\<rparr>);
     ps \<leftarrow> gets ps_enabled;
     let pm = (has_pm f \<or> ps \<and> is_data f \<and> \<not> is_nullfunc f);
     mode \<leftarrow> gets power_mode;
     only_if (mode = PM_NETWORK_SLEEP) (wake_for_tx D (is_pspoll f));
     mode \<leftarrow> gets power_mode;
     if mode = PM_FULL_SLEEP then tx_exit D (skb f)
     else do {
       q \<leftarrow> gets (\<lambda>s. txq_map s (queue_mapping f));
       r \<leftarrow> call D (Tx (Tx_start (skb f) TX_PRIORITY pm q));
       if r \<noteq> 0 then tx_exit D (skb f) else ret ()
     }
   }"

section \<open>Pending frames\<close>

definition ath9k_has_pending_frames :: "nat \<Rightarrow> (softc, bool) state" where
  "ath9k_has_pending_frames i =
     with_lock (Axq_lock i) (gets (\<lambda>s. axq_depth (txqs s i) \<noteq> 0 \<or> axq_acq (txqs s i)))"

fun has_tx_pending_loop :: "nat list \<Rightarrow> (softc, bool) state" where
  "has_tx_pending_loop [] = ret False"
| "has_tx_pending_loop (i # is) = do {
     setup \<leftarrow> gets (\<lambda>s. txqsetup s i);
     depth \<leftarrow> gets (\<lambda>s. axq_depth (txqs s i));
     if \<not> setup then has_tx_pending_loop is
     else if depth = 0 then has_tx_pending_loop is
     else do {
       npend \<leftarrow> ath9k_has_pending_frames i;
       if npend then ret True else has_tx_pending_loop is
     }
   }"

definition ath9k_has_tx_pending :: "device \<Rightarrow> (softc, bool) state" where
  "ath9k_has_tx_pending D = has_tx_pending_loop [0..<num_tx_queues D]"

fun tx_frames_pending_loop :: "nat list \<Rightarrow> (softc, bool) state" where
  "tx_frames_pending_loop [] = ret False"
| "tx_frames_pending_loop (i # is) = do {
     setup \<leftarrow> gets (\<lambda>s. txqsetup s i);
     if \<not> setup then tx_frames_pending_loop is
     else do {
       pend \<leftarrow> ath9k_has_pending_frames i;
       if pend then ret True else tx_frames_pending_loop is
     }
   }"

definition ath9k_tx_frames_pending :: "device \<Rightarrow> (softc, bool) state" where
  "ath9k_tx_frames_pending D = tx_frames_pending_loop [0..<num_tx_queues D]"

text \<open>
  \<open>wait_event_timeout\<close> evaluates the test and, as long as it fails, waits; its result is
  positive when the test held in time.
\<close>

definition flush_drop :: "device \<Rightarrow> (softc, unit) state" where
  "flush_drop D = do {
     awake D (do {
       drained \<leftarrow> with_lock Sc_pcu_lock (call D (Reset Drain_all_txq));
       only_if (drained = 0) (do { _ \<leftarrow> ath_reset D; ret () })
     });
     do_call D (Work Wake_queues)
   }"

definition ath9k_flush :: "device \<Rightarrow> bool \<Rightarrow> (softc, unit) state" where
  "ath9k_flush D dr = with_lock Sc_mutex (do {
     do_call D (Work Cancel_tx_complete_work);
     if unplugged D then ret ()
     else do {
       invalid \<leftarrow> gets (\<lambda>s. OP_INVALID \<in> op_flags s);
       if invalid then ret ()
       else do {
         pending \<leftarrow> ath9k_has_tx_pending D;
         w \<leftarrow> call D (Work (Wait_tx_pending pending));
         let dr = (if sint w > 0 then False else dr);
         only_if dr (flush_drop D);
         do_call D (Work Queue_tx_complete_work)
       }
     }
   })"

section \<open>The last beacon\<close>

text \<open>
  The status word of \<open>ath9k_hw_txprocdesc\<close> is \<open>-EINPROGRESS\<close>, or else one when the transmission
  had an error.
\<close>

definition ath9k_tx_last_beacon :: "device \<Rightarrow> (softc, bool) state" where
  "ath9k_tx_last_beacon D = do {
     slot \<leftarrow> gets bslot0;
     (case slot of
        None \<Rightarrow> ret False
      | Some v \<Rightarrow> do {
          en \<leftarrow> gets (\<lambda>s. venable_beacon (vifs s v));
          if \<not> en then ret False
          else do {
            processed \<leftarrow> gets bcn_tx_processed;
            only_if (\<not> processed \<and> \<not> cap_edma D) (do {
              do_call D (Work Bcon_tasklet_disable);
              bf \<leftarrow> gets (\<lambda>s. av_bcbuf (vifs s v));
              (case bf of
                 None \<Rightarrow> ret ()
               | Some b \<Rightarrow> do {
                   status \<leftarrow> call D (Vif (Txprocdesc b));
                   if sint status = - EINPROGRESS then ret ()
                   else modify (\<lambda>s. s\<lparr>bcn_tx_processed := True, bcn_tx_last := (status AND 1 = 0)\<rparr>)
                 });
              do_call D (Work Bcon_tasklet_enable)
            });
            gets bcn_tx_last
          }
        })
   }"

section \<open>Locks and the use count\<close>

lemma uses_pending [uses_intros]:
  "{Axq_lock i} \<subseteq> A \<Longrightarrow> uses A (ath9k_has_pending_frames i)"
  unfolding ath9k_has_pending_frames_def by (intro uses_intros) simp

lemma uses_pending_loops [uses_intros]:
  "range Axq_lock \<subseteq> A \<Longrightarrow> uses A (has_tx_pending_loop is)"
  "range Axq_lock \<subseteq> A \<Longrightarrow> uses A (tx_frames_pending_loop is)"
proof (induction "is")
  case (Cons i "is")
  {
    case 1
    then show ?case using Cons by (simp only: has_tx_pending_loop.simps) (intro uses_intros; auto)
  next
    case 2
    then show ?case using Cons by (simp only: tx_frames_pending_loop.simps) (intro uses_intros; auto)
  }
qed (simp_all add: uses_rules)

lemma uses_tx [uses_intros]:
  "uses A ath_tx_get_buf_size" "uses A (ath_cw_update D qnum n)" "uses A (tx_exit D sk)"
  "{Sc_pm_lock, Cc_lock} \<subseteq> A \<Longrightarrow> uses A (wake_for_tx D b)"
  "{Sc_pm_lock, Cc_lock} \<subseteq> A \<Longrightarrow> uses A (ath9k_tx D f)"
  "range Axq_lock \<subseteq> A \<Longrightarrow> uses A (ath9k_has_tx_pending D)"
  "range Axq_lock \<subseteq> A \<Longrightarrow> uses A (ath9k_tx_frames_pending D)"
  "uses A (ath9k_tx_last_beacon D)"
  unfolding ath_tx_get_buf_size_def ath_cw_update_def tx_exit_def wake_for_tx_def ath9k_tx_def
    ath9k_has_tx_pending_def ath9k_tx_frames_pending_def ath9k_tx_last_beacon_def Let_def
  by (intro uses_intros; simp)+

lemma uses_flush [uses_intros]:
  "insert Sc_mutex reset_locks \<subseteq> A \<Longrightarrow> uses A (ath9k_flush D dr)"
  unfolding ath9k_flush_def flush_drop_def Let_def
  by (intro uses_intros; auto simp: reset_locks_def)+

lemma keeps_wake_for_tx [keeps_intros]:
  assumes "steady D g"
  shows "keeps g (wake_for_tx D b)"
  unfolding wake_for_tx_def
  by (intro keeps_woken [OF assms] keeps_intros assms steadyD(2) [OF assms] unwrittenD [OF steadyD(2) [OF assms]];
      simp add: sc_view_def)

lemma keeps_pending [keeps_intros]:
  assumes "unwritten g"
  shows "keeps g (ath9k_has_pending_frames i)"
  "keeps g (has_tx_pending_loop is)" "keeps g (tx_frames_pending_loop is)"
proof -
  show p: "keeps g (ath9k_has_pending_frames i)" for i
    unfolding ath9k_has_pending_frames_def by (intro keeps_intros assms)
  show "keeps g (has_tx_pending_loop is)"
    by (induction "is") (simp_all only: has_tx_pending_loop.simps, (intro keeps_rules p)+)
  show "keeps g (tx_frames_pending_loop is)"
    by (induction "is") (simp_all only: tx_frames_pending_loop.simps, (intro keeps_rules p)+)
qed

lemma keeps_buf_size [keeps_intros]: "keeps g ath_tx_get_buf_size"
  unfolding ath_tx_get_buf_size_def by (intro keeps_intros)

lemma keeps_tx [keeps_intros]:
  assumes "steady D g"
  shows "keeps g (ath_cw_update D qnum n)" "keeps g (ath9k_tx_frames_pending D)"
    "keeps g (ath9k_tx_last_beacon D)" "keeps g (ath9k_flush D dr)"
  unfolding ath_cw_update_def ath9k_tx_frames_pending_def ath9k_tx_last_beacon_def ath9k_flush_def
    flush_drop_def ath9k_has_tx_pending_def Let_def
  using assms by (intro keeps_intros assms steadyD(2) [OF assms] unwrittenD [OF steadyD(2) [OF assms]]; simp add: sc_view_def)+

text \<open>A transmission exports the buffer list; the rest of it leaves the pointer alone.\<close>

definition tx_rest :: "device \<Rightarrow> frame \<Rightarrow> (softc, unit) state" where
  "tx_rest D f = do {
     ps \<leftarrow> gets ps_enabled;
     let pm = (has_pm f \<or> ps \<and> is_data f \<and> \<not> is_nullfunc f);
     mode \<leftarrow> gets power_mode;
     only_if (mode = PM_NETWORK_SLEEP) (wake_for_tx D (is_pspoll f));
     mode \<leftarrow> gets power_mode;
     if mode = PM_FULL_SLEEP then tx_exit D (skb f)
     else do {
       q \<leftarrow> gets (\<lambda>s. txq_map s (queue_mapping f));
       r \<leftarrow> call D (Tx (Tx_start (skb f) TX_PRIORITY pm q));
       if r \<noteq> 0 then tx_exit D (skb f) else ret ()
     }
   }"

lemma ath9k_tx_split: "exec (ath9k_tx D f) s = exec (tx_rest D f) (s\<lparr>txbuf_fff := True\<rparr>)"
  by (simp add: ath9k_tx_def tx_rest_def)

lemma keeps_tx_rest:
  assumes "steady D g"
  shows "keeps g (tx_rest D f)"
  unfolding tx_rest_def tx_exit_def Let_def
  by (intro keeps_intros assms steadyD(2) [OF assms] unwrittenD [OF steadyD(2) [OF assms]]; simp add: sc_view_def)

lemma keeps_transmit:
  assumes "steady D g" "\<And>s. g (s\<lparr>txbuf_fff := True\<rparr>) = g s"
  shows "keeps g (ath9k_tx D f)"
  unfolding keeps_def ath9k_tx_split keepsD [OF keeps_tx_rest [OF assms(1)]] by (simp add: assms(2))

lemma tx_exports: "steady D txbuf_fff \<Longrightarrow> txbuf_fff (exec (ath9k_tx D f) s)"
  unfolding ath9k_tx_split using keepsD [OF keeps_tx_rest] by fastforce

section \<open>Properties\<close>

lemma count_loop_length: "count_loop xs n = n + of_nat (length xs)"
  by (induction xs arbitrary: n) simp_all

text \<open>
  The driver's window follows the number of transmit buffers: \<open>ath_tx_get_buf_size\<close> counts
  the list, and with that count \<open>ath_cw_update\<close> asks for the window 511 above forty buffers,
  below that for 15, 7, 3 or 1, never for another; it resets the queue exactly when the
  properties were accepted, and answers \<open>-EIO\<close> when not.
\<close>

theorem driver_window:
  assumes "length (txbuf s) < 2 ^ 32" "axq_qnum (txqs s q) = of_nat q"
  shows "let n = length (txbuf s);
       w = (if n > 40 then 511 else if n > 20 then 15 else if n > 10 then 7 else if n > 5 then 3 else 1);
       b = res ath_tx_get_buf_size s; ok = fst (world D (Tx (Set_txq_props q w)) s)
     in unat b = n \<and> res (ath_cw_update D q b) s = Some (if ok = 0 then - EIO else 0) \<and>
        trace (exec (ath_cw_update D q b) s) =
          (if ok = 0 then [] else [Call (Tx (Reset_tx_queue q))]) @ Call (Tx (Set_txq_props q w)) # trace s"
proof -
  have b: "res ath_tx_get_buf_size s = of_nat (length (txbuf s))"
    by (simp add: ath_tx_get_buf_size_def count_loop_length)
  have u: "unat (of_nat (length (txbuf s)) :: u32) = length (txbuf s)"
    using assms(1) by (simp add: unat_of_nat)
  have w: "tqi_cw_of (of_nat (length (txbuf s))) = (if length (txbuf s) > 40 then 511
      else if length (txbuf s) > 20 then 15 else if length (txbuf s) > 10 then 7
      else if length (txbuf s) > 5 then 3 else 1)"
    unfolding tqi_cw_of_def word_less_nat_alt u by simp
  show ?thesis
    unfolding Let_def b u ath_cw_update_def w using assms(2) by simp
qed

theorem driver_window_witness:
  "res (ath_cw_update dev0 3 (res ath_tx_get_buf_size (softc0\<lparr>txbuf := [0..<50]\<rparr>))) (softc0\<lparr>txbuf := [0..<50]\<rparr>)
     = Some (- EIO)"
proof -
  have "axq_qnum (txqs (softc0\<lparr>txbuf := [0..<50]\<rparr>) 3) = of_nat 3" by (simp add: softc0_def)
  from driver_window [OF _ this, of dev0] show ?thesis
    by (simp add: Let_def world0_def softc0_def)
qed

text \<open>
  Every frame given to \<open>ath9k_tx\<close> is either handed to \<open>ath_tx_start\<close> once, with the power
  management bit set exactly when it had it or when it is a proper data frame sent in power
  saving, or, in full sleep, only freed; a frame that \<open>ath_tx_start\<close> refuses is freed.
\<close>

theorem tx_start_or_free:
  assumes "power_mode s \<noteq> PM_NETWORK_SLEEP"
  shows "let pm = (has_pm f \<or> ps_enabled s \<and> is_data f \<and> \<not> is_nullfunc f);
      start = Tx (Tx_start (skb f) TX_PRIORITY pm (txq_map s (queue_mapping f)));
      ok = fst (world D start (s\<lparr>txbuf_fff := True\<rparr>)) = 0;
      free = Call (Tx (Free_txskb (skb f)))
    in trace (exec (ath9k_tx D f) s) =
      (if power_mode s = PM_FULL_SLEEP then [free] else if ok then [Call start] else [free, Call start]) @ trace s"
  using assms by (simp add: ath9k_tx_def tx_exit_def Let_def)

definition frame0 :: frame where
  "frame0 = \<lparr>skb = 7, queue_mapping = 2, is_data = True, is_nullfunc = False, has_pm = False, is_pspoll = False\<rparr>"

theorem tx_start_or_free_witness:
  "trace (exec (ath9k_tx dev0 frame0) (softc0\<lparr>power_mode := PM_AWAKE, ps_enabled := True\<rparr>)) =
     [Call (Tx (Tx_start 7 TX_PRIORITY True 2))]"
proof -
  have "power_mode (softc0\<lparr>power_mode := PM_AWAKE, ps_enabled := True\<rparr>) \<noteq> PM_NETWORK_SLEEP" by simp
  from tx_start_or_free [OF this, of frame0 dev0] show ?thesis
    by (simp add: Let_def world0_def softc0_def frame0_def)
qed

lemma wait_flag_any:
  "(f OR PS_WAIT_FOR_PSPOLL_DATA) AND PS_WAIT_ANY \<noteq> 0" "(f OR PS_WAIT_FOR_TX_ACK) AND PS_WAIT_ANY \<noteq> 0"
proof -
  have "bit ((f OR PS_WAIT_FOR_PSPOLL_DATA) AND PS_WAIT_ANY) 2"
    "bit ((f OR PS_WAIT_FOR_TX_ACK) AND PS_WAIT_ANY) 3"
    by (simp_all add: PS_WAIT_ANY_def ps_flag_defs bit_simps bit_numeral_rec)
  then show "(f OR PS_WAIT_FOR_PSPOLL_DATA) AND PS_WAIT_ANY \<noteq> 0" "(f OR PS_WAIT_FOR_TX_ACK) AND PS_WAIT_ANY \<noteq> 0"
    by (metis bit_0_eq bot_apply bot_bool_def)+
qed

lemma wakeup_first:
  assumes "power_world D" "ps_usecount s = 0"
  shows "power_mode (exec (ath9k_ps_wakeup D) s) = PM_AWAKE" "ps_usecount (exec (ath9k_ps_wakeup D) s) = 1"
    "ps_flags (exec (ath9k_ps_wakeup D) s) = ps_flags s" "ps_idle (exec (ath9k_ps_wakeup D) s) = ps_idle s"
    "\<not> sleep_timer_armed (exec (ath9k_ps_wakeup D) s)"
  using assms(2) power_world_simps [OF assms(1)] by (simp_all add: ath9k_ps_wakeup_def with_lock_def)

lemma restore_waiting:
  assumes "power_world D" "ps_flags s AND PS_WAIT_ANY \<noteq> 0" "\<not> sleep_timer_armed s"
  shows "power_mode (exec (ath9k_ps_restore D) s) = power_mode s"
    "ps_usecount (exec (ath9k_ps_restore D) s) = ps_usecount s - 1"
    "ps_flags (exec (ath9k_ps_restore D) s) = ps_flags s"
    "sleep_timer_armed (exec (ath9k_ps_restore D) s) \<longleftrightarrow> ps_usecount s = 1 \<and> ps_idle s"
  using assms(2,3) power_world_simps [OF assms(1)]
  by (simp_all add: ath9k_ps_restore_def with_lock_def sleep_timer_armed_def)

lemma wake_for_tx_eq:
  assumes "power_world D" "ps_usecount s = 0"
  shows "power_mode (exec (wake_for_tx D b) s) = PM_AWAKE \<and> ps_usecount (exec (wake_for_tx D b) s) = 0 \<and>
    ps_flags (exec (wake_for_tx D b) s) = ps_flags s OR (if b then PS_WAIT_FOR_PSPOLL_DATA else PS_WAIT_FOR_TX_ACK) \<and>
    sleep_timer_armed (exec (wake_for_tx D b) s) = ps_idle s"
proof -
  define mid where "mid = with_lock Sc_pm_lock (do {
       only_if (\<not> cap_autosleep D) (do_call D (Power (Hw_setrxabort False)));
       if b then modify (\<lambda>s. s\<lparr>ps_flags := ps_flags s OR PS_WAIT_FOR_PSPOLL_DATA\<rparr>)
       else modify (\<lambda>s. s\<lparr>ps_flags := ps_flags s OR PS_WAIT_FOR_TX_ACK\<rparr>)
     })"
  have mid: "power_mode (exec mid t) = power_mode t" "ps_usecount (exec mid t) = ps_usecount t"
    "ps_flags (exec mid t) = ps_flags t OR (if b then PS_WAIT_FOR_PSPOLL_DATA else PS_WAIT_FOR_TX_ACK)"
    "ps_idle (exec mid t) = ps_idle t" "\<not> sleep_timer_armed (exec mid t)" if "\<not> sleep_timer_armed t" for t
    using power_world_simps [OF assms(1)] that by (simp_all add: mid_def with_lock_def sleep_timer_armed_def)
  let ?t = "exec mid (exec (ath9k_ps_wakeup D) s)"
  note first = wakeup_first [OF assms]
  have "ps_flags ?t AND PS_WAIT_ANY \<noteq> 0" using wait_flag_any by (simp add: mid first)
  from restore_waiting [OF assms(1) this mid(5) [OF first(5)]] show ?thesis
    unfolding wake_for_tx_def mid_def [symmetric] by (simp add: mid first)
qed

text \<open>
  A frame sent while the chip sleeps with nobody using it wakes the chip, and dropping the
  use count again does not put it back to sleep, because the wait flag set in between, for
  the polled data or for the acknowledgement, is one of those the restore looks at; nor is the sleep timer
  armed, as the device is not idle. The functions of the queues leave the power mode of a chip alone whose
  sleep timer is off.
\<close>

theorem tx_wakes_chip:
  assumes "power_world D" "ps_usecount s = 0" "power_mode s = PM_NETWORK_SLEEP" "\<not> ps_idle s"
    and "\<forall>c s. sleep_timer_armed s \<or> power_mode (snd (world D (Tx c) s)) = power_mode s"
  shows "power_mode (exec (ath9k_tx D f) s) = PM_AWAKE \<and> ps_usecount (exec (ath9k_tx D f) s) = 0 \<and>
    ps_flags (exec (ath9k_tx D f) s) =
      ps_flags s OR (if is_pspoll f then PS_WAIT_FOR_PSPOLL_DATA else PS_WAIT_FOR_TX_ACK) \<and>
    (\<exists>pm q. Call (Tx (Tx_start (skb f) TX_PRIORITY pm q)) \<in> set (trace (exec (ath9k_tx D f) s)))"
proof -
  have tx: "\<not> armed_by (trace s) \<Longrightarrow> power_mode (snd (world D (Tx c) s)) = power_mode s" for c s
    using assms(5) unfolding sleep_timer_armed_def by blast
  have "ps_usecount (s\<lparr>txbuf_fff := True\<rparr>) = 0" using assms(2) by simp
  from wake_for_tx_eq [OF assms(1) this, of "is_pspoll f"] show ?thesis
    using assms(3,4) power_world_simps(1-4) [OF assms(1)]
    by (auto simp: ath9k_tx_def tx_exit_def Let_def sleep_timer_armed_def tx)
qed

theorem tx_wakes_chip_witness:
  "power_mode (exec (ath9k_tx dev0 frame0) (softc0\<lparr>power_mode := PM_NETWORK_SLEEP\<rparr>)) = PM_AWAKE"
  using tx_wakes_chip [OF power_world_dev0, of "softc0\<lparr>power_mode := PM_NETWORK_SLEEP\<rparr>" frame0]
  by (simp add: softc0_def world0_def)

lemma pending_frames_eq:
  "res (ath9k_has_pending_frames i) s = (axq_depth (txqs s i) \<noteq> 0 \<or> axq_acq (txqs s i))"
  "txqs (exec (ath9k_has_pending_frames i) s) = txqs s"
  "txqsetup (exec (ath9k_has_pending_frames i) s) = txqsetup s"
  by (simp_all add: ath9k_has_pending_frames_def with_lock_def)

text \<open>
  \<open>ath9k_tx_frames_pending\<close> says whether some queue that is set up has frames at the chip or
  scheduled in software; \<open>ath9k_has_tx_pending\<close>, which flushing waits for, only looks at the
  frames at the chip.
\<close>

theorem pending_iff:
  "res (ath9k_tx_frames_pending D) s =
     (\<exists>i < num_tx_queues D. txqsetup s i \<and> (axq_depth (txqs s i) \<noteq> 0 \<or> axq_acq (txqs s i))) \<and>
   res (ath9k_has_tx_pending D) s = (\<exists>i < num_tx_queues D. txqsetup s i \<and> axq_depth (txqs s i) \<noteq> 0)"
proof -
  have "res (tx_frames_pending_loop is) s =
     (\<exists>i \<in> set is. txqsetup s i \<and> (axq_depth (txqs s i) \<noteq> 0 \<or> axq_acq (txqs s i)))" for "is"
    by (induction "is" arbitrary: s) (simp_all add: pending_frames_eq)
  moreover have "res (has_tx_pending_loop is) s = (\<exists>i \<in> set is. txqsetup s i \<and> axq_depth (txqs s i) \<noteq> 0)" for "is"
    by (induction "is" arbitrary: s) (simp_all add: pending_frames_eq)
  ultimately show ?thesis by (auto simp: ath9k_tx_frames_pending_def ath9k_has_tx_pending_def)
qed

end
