(* ===== verification/Ath_Iface.thy ===== *)
theory Ath_Iface
  imports Ath_Tx
begin

text \<open>
  Starting and stopping the device and its interfaces in \<open>ath9k/main.c\<close>: \<open>ath9k_start\<close>,
  \<open>ath9k_stop\<close>, the summary over the active interfaces (operating mode, address mask), adding,
  changing and removing interfaces, association and the other changes of a BSS.
\<close>

section \<open>Start and stop\<close>

definition start_imask :: "device \<Rightarrow> u32" where
  "start_imask D =
     (let m = INT_TX D OR INT_RXEOL D OR INT_RXORN D OR INT_FATAL D OR INT_GLOBAL D;
          m = (if cap_edma D then m OR (INT_RXHP D OR INT_RXLP D) else m OR INT_RX D);
          m = (if hang_watchdog D then m OR INT_BB_WATCHDOG D else m);
          m = (if srev_9300_20_or_later D then m OR INT_GTT D else m)
      in if cap_ht D then m OR INT_CST D else m)"

definition ath9k_start :: "device \<Rightarrow> (softc, int) state" where
  "ath9k_start D = awake D (with_lock Sc_mutex (do {
     pos \<leftarrow> gets conf_chan;
     do_call D (Reset (Get_channel pos));
     do_call D (Reset (Hw_configpcipowersave False));
     with_lock Sc_pcu_lock (do {
       modify (\<lambda>s. s\<lparr>intr_ref_cnt := - 1\<rparr>);
       r \<leftarrow> call D (Reset (Hw_reset (Some pos) True False));
       only_if (r \<noteq> 0) (modify (\<lambda>s. s\<lparr>reset_power_on := False\<rparr>));
       modify (\<lambda>s. s\<lparr>imask := start_imask D\<rparr>);
       do_call D (Reset Mci_enable);
       clear_op OP_INVALID;
       modify (\<lambda>s. s\<lparr>is_monitoring := False\<rparr>);
       ok \<leftarrow> ath_complete_reset D False;
       only_if (\<not> ok) (modify (\<lambda>s. s\<lparr>reset_power_on := False\<rparr>));
       only_if (has_led D) (do {
         do_call D (Hw Hw_cfg_output);
         do_call D (Hw (Hw_set_gpio False))
       });
       do_call D (Hw Init_crypto);
       do_call D (Hw Hw_reset_tsf)
     });
     ret 0
   }))"

definition stop_hardware :: "device \<Rightarrow> (softc, bool) state" where
  "stop_hardware D = do {
     with_lock Sc_pcu_lock (do {
       modify (\<lambda>s. s\<lparr>imask := imask s AND NOT (INT_GLOBAL D)\<rparr>);
       do_call D (Irq Hw_disable_interrupts)
     });
     do_call D (Work Synchronize_irq);
     do_call D (Work Intr_tasklet_kill);
     do_call D (Work Bcon_tasklet_kill);
     prev_idle \<leftarrow> gets ps_idle;
     modify (\<lambda>s. s\<lparr>ps_idle := True\<rparr>);
     with_lock Sc_pcu_lock (do {
       only_if (has_led D) (do {
         do_call D (Hw (Hw_set_gpio True));
         do_call D (Hw Hw_cfg_gpio_input)
       });
       _ \<leftarrow> ath_prepare_reset D;
       frag \<leftarrow> gets rx_frag;
       only_if frag (do {
         do_call D (Reset Kfree_rx_frag);
         modify (\<lambda>s. s\<lparr>rx_frag := False\<rparr>)
       });
       cur \<leftarrow> gets curchan;
       only_if (cur = None) (do {
         pos \<leftarrow> gets conf_chan;
         do_call D (Reset (Get_channel pos));
         modify (\<lambda>s. s\<lparr>curchan := Some pos\<rparr>)
       });
       cur \<leftarrow> gets curchan;
       do_call D (Reset (Hw_reset cur True False));
       do_call D (Reset Hw_phy_disable);
       do_call D (Reset (Hw_configpcipowersave True))
     });
     ret prev_idle
   }"

definition ath9k_stop :: "device \<Rightarrow> (softc, unit) state" where
  "ath9k_stop D = with_lock Sc_mutex (do {
     ath_cancel_work D;
     invalid \<leftarrow> gets (\<lambda>s. OP_INVALID \<in> op_flags s);
     if invalid then ret ()
     else do {
       prev_idle \<leftarrow> awake D (stop_hardware D);
       set_op OP_INVALID;
       modify (\<lambda>s. s\<lparr>ps_idle := prev_idle\<rparr>)
     }
   })"

section \<open>The summary over the interfaces\<close>

definition ath9k_uses_beacons :: "iftype \<Rightarrow> bool" where
  "ath9k_uses_beacons t \<longleftrightarrow> (case t of IF_AP \<Rightarrow> True | IF_ADHOC \<Rightarrow> True | IF_MESH_POINT \<Rightarrow> True | _ \<Rightarrow> False)"

record vif_iter_data =
  hw_macaddr :: "u8 list"
  mask_bytes :: "u8 list"
  has_hw_macaddr :: bool
  naps :: nat
  nmeshes :: nat
  nstations :: nat
  nwds :: nat
  nadhocs :: nat

definition ath9k_vif_iter :: "vif \<Rightarrow> vif_iter_data \<Rightarrow> vif_iter_data" where
  "ath9k_vif_iter v d =
     (let d = (if has_hw_macaddr d then
                 d\<lparr>mask_bytes := map2 (\<lambda>m x. m AND NOT x) (mask_bytes d) (map2 (XOR) (hw_macaddr d) (vaddr v))\<rparr>
               else d\<lparr>hw_macaddr := vaddr v, has_hw_macaddr := True\<rparr>)
      in case vtype v of
           IF_AP \<Rightarrow> d\<lparr>naps := naps d + 1\<rparr>
         | IF_STATION \<Rightarrow> d\<lparr>nstations := nstations d + 1\<rparr>
         | IF_ADHOC \<Rightarrow> d\<lparr>nadhocs := nadhocs d + 1\<rparr>
         | IF_MESH_POINT \<Rightarrow> d\<lparr>nmeshes := nmeshes d + 1\<rparr>
         | IF_WDS \<Rightarrow> d\<lparr>nwds := nwds d + 1\<rparr>
         | _ \<Rightarrow> d)"

definition iter_data0 :: vif_iter_data where
  "iter_data0 = \<lparr>hw_macaddr = replicate 6 0, mask_bytes = replicate 6 0xff, has_hw_macaddr = False,
     naps = 0, nmeshes = 0, nstations = 0, nwds = 0, nadhocs = 0\<rparr>"

definition ath9k_calculate_iter_data :: "nat option \<Rightarrow> (softc, vif_iter_data) state" where
  "ath9k_calculate_iter_data v = do {
     d \<leftarrow> gets (\<lambda>s. fold (\<lambda>n. ath9k_vif_iter (vifs s n))
            ((case v of None \<Rightarrow> [] | Some n \<Rightarrow> [n]) @ active_vifs s) iter_data0);
     modify (\<lambda>s. s\<lparr>macaddr := hw_macaddr d\<rparr>);
     ret d
   }"

definition set_primary :: "nat \<Rightarrow> bool \<Rightarrow> (softc, unit) state" where
  "set_primary v b = modify (\<lambda>s. s\<lparr>vifs := (vifs s)(v := (vifs s v)\<lparr>primary_sta_vif := b\<rparr>)\<rparr>)"

definition ath9k_set_assoc_state :: "device \<Rightarrow> nat \<Rightarrow> (softc, unit) state" where
  "ath9k_set_assoc_state D v = do {
     set_op OP_PRIM_STA_VIF;
     set_primary v True;
     mode \<leftarrow> gets opmode;
     if mode \<noteq> IF_STATION then ret ()
     else do {
       modify (\<lambda>s. s\<lparr>curbssid := vbssid (vifs s v)\<rparr>);
       modify (\<lambda>s. s\<lparr>curaid := vaid (vifs s v)\<rparr>);
       do_call D (Hw Hw_write_associd);
       modify (\<lambda>s. s\<lparr>last_rssi := rssi_dummy D\<rparr>);
       modify (\<lambda>s. s\<lparr>avgbrssi := rssi_dummy D\<rparr>);
       with_lock Sc_pm_lock
         (modify (\<lambda>s. s\<lparr>ps_flags := ps_flags s OR (PS_BEACON_SYNC OR PS_WAIT_FOR_BEACON)\<rparr>));
       mci \<leftarrow> call D (Reset Mci_is_enabled);
       only_if (mci \<noteq> 0) (do_call D (Reset (Mci_update_wlan_channels False)))
     }
   }"

definition ath9k_sta_vif_iter :: "device \<Rightarrow> nat \<Rightarrow> (softc, unit) state" where
  "ath9k_sta_vif_iter D v = do {
     t \<leftarrow> gets (\<lambda>s. vtype (vifs s v));
     if t \<noteq> IF_STATION then ret ()
     else do {
       prim \<leftarrow> gets (\<lambda>s. primary_sta_vif (vifs s v));
       only_if prim (ath9k_set_assoc_state D v)
     }
   }"

definition ath9k_calculate_summary_state :: "device \<Rightarrow> nat option \<Rightarrow> (softc, unit) state" where
  "ath9k_calculate_summary_state D v = do {
     old_opmode \<leftarrow> gets opmode;
     d \<leftarrow> ath9k_calculate_iter_data v;
     modify (\<lambda>s. s\<lparr>bssidmask := mask_bytes d\<rparr>);
     do_call D (Hw Hw_setbssidmask);
     (if naps d > 0 then do {
        do_call D (Hw (Hw_set_tsfadjust True));
        modify (\<lambda>s. s\<lparr>opmode := IF_AP\<rparr>)
      } else do {
        do_call D (Hw (Hw_set_tsfadjust False));
        if nmeshes d \<noteq> 0 then modify (\<lambda>s. s\<lparr>opmode := IF_MESH_POINT\<rparr>)
        else if nwds d \<noteq> 0 then modify (\<lambda>s. s\<lparr>opmode := IF_AP\<rparr>)
        else if nadhocs d \<noteq> 0 then modify (\<lambda>s. s\<lparr>opmode := IF_ADHOC\<rparr>)
        else modify (\<lambda>s. s\<lparr>opmode := IF_STATION\<rparr>)
      });
     do_call D (Hw Hw_setopmode);
     (if nstations d + nadhocs d + nmeshes d > 0
      then modify (\<lambda>s. s\<lparr>imask := imask s OR INT_TSFOOR D\<rparr>)
      else modify (\<lambda>s. s\<lparr>imask := imask s AND NOT (INT_TSFOOR D)\<rparr>));
     do_call D (Irq Hw_set_interrupts);
     to_sta \<leftarrow> gets (\<lambda>s. opmode s = IF_STATION \<and> old_opmode = IF_AP \<and> OP_PRIM_STA_VIF \<in> op_flags s);
     act \<leftarrow> gets active_vifs;
     only_if to_sta (for_each (ath9k_sta_vif_iter D) act)
   }"

section \<open>Adding, changing and removing interfaces\<close>

definition ath9k_add_interface :: "device \<Rightarrow> nat \<Rightarrow> (softc, int) state" where
  "ath9k_add_interface D v = with_lock Sc_mutex (do {
     n \<leftarrow> gets nvifs;
     if cfg_tx99 D \<and> sint n \<ge> 1 then ret (- EOPNOTSUPP)
     else do {
       only_if (cfg_tx99 D) (modify (\<lambda>s. s\<lparr>tx99_vif := Some v\<rparr>));
       modify (\<lambda>s. s\<lparr>nvifs := nvifs s + 1\<rparr>);
       awake D (ath9k_calculate_summary_state D (Some v));
       t \<leftarrow> gets (\<lambda>s. vtype (vifs s v));
       only_if (ath9k_uses_beacons t) (do_call D (Vif (Beacon_assign_slot v)));
       do_call D (Tx (Tx_vif_init v));
       ret 0
     }
   })"

definition ath9k_change_interface :: "device \<Rightarrow> nat \<Rightarrow> iftype \<Rightarrow> bool \<Rightarrow> (softc, int) state" where
  "ath9k_change_interface D v new_type p2p = with_lock Sc_mutex
     (if cfg_tx99 D then ret (- EOPNOTSUPP)
      else do {
        t \<leftarrow> gets (\<lambda>s. vtype (vifs s v));
        only_if (ath9k_uses_beacons t) (do_call D (Vif (Beacon_remove_slot v)));
        modify (\<lambda>s. s\<lparr>vifs := (vifs s)(v := (vifs s v)\<lparr>vtype := new_type, vp2p := p2p\<rparr>)\<rparr>);
        awake D (ath9k_calculate_summary_state D (Some v));
        t \<leftarrow> gets (\<lambda>s. vtype (vifs s v));
        only_if (ath9k_uses_beacons t) (do_call D (Vif (Beacon_assign_slot v)));
        ret 0
      })"

definition ath9k_remove_interface :: "device \<Rightarrow> nat \<Rightarrow> (softc, unit) state" where
  "ath9k_remove_interface D v = with_lock Sc_mutex (do {
     with_lock Sc_pcu_lock (do {
       p \<leftarrow> gets p2p_ps_vif;
       only_if (p = Some v) (do {
         modify (\<lambda>s. s\<lparr>p2p_ps_vif := None\<rparr>);
         ath9k_update_p2p_ps_timer D None
       })
     });
     modify (\<lambda>s. s\<lparr>nvifs := nvifs s - 1\<rparr>);
     modify (\<lambda>s. s\<lparr>tx99_vif := None\<rparr>);
     t \<leftarrow> gets (\<lambda>s. vtype (vifs s v));
     only_if (ath9k_uses_beacons t) (do_call D (Vif (Beacon_remove_slot v)));
     awake D (ath9k_calculate_summary_state D None);
     do_call D (Tx (Tx_vif_cleanup v))
   })"

section \<open>Changes of a BSS\<close>

datatype bss_change = BSS_ASSOC | BSS_IBSS | BSS_BEACON_ENABLED | BSS_BEACON_INT | BSS_ERP_SLOT | BSS_P2P_PS

definition ath9k_bss_assoc_iter :: "device \<Rightarrow> nat \<Rightarrow> (softc, unit) state" where
  "ath9k_bss_assoc_iter D v = do {
     prim \<leftarrow> gets (\<lambda>s. OP_PRIM_STA_VIF \<in> op_flags s);
     if prim then ret ()
     else do {
       assoc \<leftarrow> gets (\<lambda>s. vassoc (vifs s v));
       only_if assoc (ath9k_set_assoc_state D v)
     }
   }"

definition drop_primary :: "nat \<Rightarrow> (softc, unit) state" where
  "drop_primary v = do {
     lost \<leftarrow> gets (\<lambda>s. primary_sta_vif (vifs s v) \<and> \<not> vassoc (vifs s v));
     only_if lost (do {
       clear_op OP_PRIM_STA_VIF;
       set_primary v False;
       mode \<leftarrow> gets opmode;
       only_if (mode = IF_STATION) (clear_op OP_BEACONS)
     })
   }"

definition clear_associd :: "device \<Rightarrow> (softc, unit) state" where
  "clear_associd D = do {
     none \<leftarrow> gets (\<lambda>s. OP_PRIM_STA_VIF \<notin> op_flags s \<and> opmode s = IF_STATION);
     only_if none (do {
       modify (\<lambda>s. s\<lparr>curbssid := replicate 6 0\<rparr>);
       modify (\<lambda>s. s\<lparr>curaid := 0\<rparr>);
       do_call D (Hw Hw_write_associd);
       mci \<leftarrow> call D (Reset Mci_is_enabled);
       only_if (mci \<noteq> 0) (do_call D (Reset (Mci_update_wlan_channels True)))
     })
   }"

definition bss_assoc_changed :: "device \<Rightarrow> nat \<Rightarrow> (softc, unit) state" where
  "bss_assoc_changed D v = do {
     drop_primary v;
     act \<leftarrow> gets active_vifs;
     for_each (ath9k_bss_assoc_iter D) act;
     clear_associd D
   }"

definition bss_slot_changed :: "device \<Rightarrow> nat \<Rightarrow> (softc, unit) state" where
  "bss_slot_changed D v = do {
     short \<leftarrow> gets (\<lambda>s. vshort_slot (vifs s v));
     let st = (if short then 9 else 20);
     t \<leftarrow> gets (\<lambda>s. vtype (vifs s v));
     if t = IF_AP then do {
       modify (\<lambda>s. s\<lparr>bcn_slottime := st\<rparr>);
       modify (\<lambda>s. s\<lparr>bcn_updateslot := Slot_UPDATE\<rparr>)
     } else do {
       modify (\<lambda>s. s\<lparr>slottime := st\<rparr>);
       do_call D (Hw Hw_init_global_settings)
     }
   }"

definition bss_other_changes :: "device \<Rightarrow> nat \<Rightarrow> bss_change set \<Rightarrow> (softc, unit) state" where
  "bss_other_changes D v changed = do {
     only_if (BSS_IBSS \<in> changed) (do {
       modify (\<lambda>s. s\<lparr>curbssid := vbssid (vifs s v)\<rparr>);
       modify (\<lambda>s. s\<lparr>curaid := vaid (vifs s v)\<rparr>);
       do_call D (Hw Hw_write_associd)
     });
     only_if (BSS_BEACON_ENABLED \<in> changed \<or> BSS_BEACON_INT \<in> changed) (do_call D (Vif (Beacon_config v)));
     only_if (BSS_ERP_SLOT \<in> changed) (bss_slot_changed D v);
     only_if (BSS_P2P_PS \<in> changed)
       (with_lock Sc_pcu_lock (with_lock Sc_pm_lock (do {
          f \<leftarrow> gets ps_flags;
          only_if (f AND PS_BEACON_SYNC = 0) (ath9k_update_p2p_ps D v)
        })));
     only_if (BSS_ASSOC \<in> changed \<or> BSS_IBSS \<in> changed \<or> BSS_BEACON_ENABLED \<in> changed)
       (do_call D (Reset Check_ani))
   }"

definition ath9k_bss_info_changed :: "device \<Rightarrow> nat \<Rightarrow> bss_change set \<Rightarrow> (softc, unit) state" where
  "ath9k_bss_info_changed D v changed = awake D (with_lock Sc_mutex (do {
     only_if (BSS_ASSOC \<in> changed) (bss_assoc_changed D v);
     bss_other_changes D v changed
   }))"

section \<open>Locks and the use count\<close>

definition all_locks :: "drv_lock set" where
  "all_locks = insert Sc_mutex reset_locks"

lemmas lock_sets = all_locks_def reset_locks_def

lemma uses_start_stop [uses_intros]:
  "all_locks \<subseteq> A \<Longrightarrow> uses A (ath9k_start D)"
  "{Sc_pcu_lock} \<subseteq> A \<Longrightarrow> uses A (stop_hardware D)"
  "all_locks \<subseteq> A \<Longrightarrow> uses A (ath9k_stop D)"
  unfolding ath9k_start_def stop_hardware_def ath9k_stop_def
  by (intro uses_intros; auto simp: lock_sets)+

lemma uses_iface [uses_intros]:
  "uses A (ath9k_calculate_iter_data w)" "uses A (set_primary v b)"
  "{Sc_pm_lock} \<subseteq> A \<Longrightarrow> uses A (ath9k_set_assoc_state D v)"
  "{Sc_pm_lock} \<subseteq> A \<Longrightarrow> uses A (ath9k_sta_vif_iter D v)"
  "{Sc_pm_lock} \<subseteq> A \<Longrightarrow> uses A (ath9k_calculate_summary_state D w)"
  "all_locks \<subseteq> A \<Longrightarrow> uses A (ath9k_add_interface D v)"
  "all_locks \<subseteq> A \<Longrightarrow> uses A (ath9k_change_interface D v t p)"
  "all_locks \<subseteq> A \<Longrightarrow> uses A (ath9k_remove_interface D v)"
  "{Sc_pm_lock} \<subseteq> A \<Longrightarrow> uses A (ath9k_bss_assoc_iter D v)"
  "uses A (drop_primary v)" "uses A (clear_associd D)"
  "{Sc_pm_lock} \<subseteq> A \<Longrightarrow> uses A (bss_assoc_changed D v)"
  "uses A (bss_slot_changed D v)"
  "all_locks - {Sc_mutex} \<subseteq> A \<Longrightarrow> uses A (bss_other_changes D v ch)"
  "all_locks \<subseteq> A \<Longrightarrow> uses A (ath9k_bss_info_changed D v ch)"
  unfolding ath9k_calculate_iter_data_def set_primary_def ath9k_set_assoc_state_def
    ath9k_sta_vif_iter_def ath9k_calculate_summary_state_def ath9k_add_interface_def
    ath9k_change_interface_def ath9k_remove_interface_def ath9k_bss_assoc_iter_def
    bss_assoc_changed_def bss_slot_changed_def ath9k_bss_info_changed_def bss_other_changes_def
    drop_primary_def clear_associd_def Let_def
  by (intro uses_intros; auto simp: lock_sets)+

lemma keeps_start_stop [keeps_intros]:
  assumes "steady D g"
  shows "keeps g (ath9k_start D)" "keeps g (stop_hardware D)"
    "keeps g (ath9k_stop D)"
  unfolding ath9k_start_def stop_hardware_def ath9k_stop_def
  using assms by (intro keeps_intros assms steadyD(2) [OF assms] unwrittenD [OF steadyD(2) [OF assms]]; simp add: sc_view_def)+

lemma keeps_primary [keeps_intros]:
  assumes "unwritten g"
  shows "keeps g (set_primary v b)" "keeps g (drop_primary v)"
  unfolding set_primary_def drop_primary_def
  by (intro keeps_intros assms unwrittenD [OF assms]; simp add: sc_view_def)+

lemma keeps_iface [keeps_intros]:
  assumes "steady D g"
  shows "keeps g (ath9k_calculate_iter_data w)"
    "keeps g (ath9k_set_assoc_state D v)" "keeps g (ath9k_sta_vif_iter D v)"
    "keeps g (ath9k_calculate_summary_state D w)" "keeps g (ath9k_add_interface D v)"
    "keeps g (ath9k_change_interface D v t p)" "keeps g (ath9k_remove_interface D v)"
    "keeps g (ath9k_bss_assoc_iter D v)" "keeps g (clear_associd D)"
    "keeps g (bss_assoc_changed D v)" "keeps g (bss_other_changes D v ch)"
    "keeps g (bss_slot_changed D v)" "keeps g (ath9k_bss_info_changed D v ch)"
  unfolding ath9k_calculate_iter_data_def set_primary_def ath9k_set_assoc_state_def
    ath9k_sta_vif_iter_def ath9k_calculate_summary_state_def ath9k_add_interface_def
    ath9k_change_interface_def ath9k_remove_interface_def ath9k_bss_assoc_iter_def
    bss_assoc_changed_def bss_slot_changed_def ath9k_bss_info_changed_def bss_other_changes_def
    drop_primary_def clear_associd_def Let_def
  using assms by (intro keeps_intros assms steadyD(2) [OF assms] unwrittenD [OF steadyD(2) [OF assms]]; simp add: sc_view_def)+

section \<open>Lemmas on the summary\<close>

definition iter_ok :: "vif_iter_data \<Rightarrow> bool" where
  "iter_ok d \<longleftrightarrow> length (hw_macaddr d) = 6 \<and> length (mask_bytes d) = 6"

lemma vif_iter_fields:
  "naps (ath9k_vif_iter v d) = naps d + (if vtype v = IF_AP then 1 else 0)"
  "nstations (ath9k_vif_iter v d) = nstations d + (if vtype v = IF_STATION then 1 else 0)"
  "nadhocs (ath9k_vif_iter v d) = nadhocs d + (if vtype v = IF_ADHOC then 1 else 0)"
  "nmeshes (ath9k_vif_iter v d) = nmeshes d + (if vtype v = IF_MESH_POINT then 1 else 0)"
  "nwds (ath9k_vif_iter v d) = nwds d + (if vtype v = IF_WDS then 1 else 0)"
  "has_hw_macaddr (ath9k_vif_iter v d)"
  "hw_macaddr (ath9k_vif_iter v d) = (if has_hw_macaddr d then hw_macaddr d else vaddr v)"
  "mask_bytes (ath9k_vif_iter v d) = (if has_hw_macaddr d then
     map2 (\<lambda>m x. m AND NOT x) (mask_bytes d) (map2 (XOR) (hw_macaddr d) (vaddr v)) else mask_bytes d)"
  by (cases "vtype v"; simp add: ath9k_vif_iter_def Let_def)+

lemma fold_counts:
  "naps (fold ath9k_vif_iter vs d) = naps d + length (filter (\<lambda>v. vtype v = IF_AP) vs)"
  "nstations (fold ath9k_vif_iter vs d) = nstations d + length (filter (\<lambda>v. vtype v = IF_STATION) vs)"
  "nadhocs (fold ath9k_vif_iter vs d) = nadhocs d + length (filter (\<lambda>v. vtype v = IF_ADHOC) vs)"
  "nmeshes (fold ath9k_vif_iter vs d) = nmeshes d + length (filter (\<lambda>v. vtype v = IF_MESH_POINT) vs)"
  "nwds (fold ath9k_vif_iter vs d) = nwds d + length (filter (\<lambda>v. vtype v = IF_WDS) vs)"
  by (induction vs arbitrary: d) (simp_all add: vif_iter_fields)

lemma fold_mask:
  assumes "has_hw_macaddr d" "iter_ok d" "\<forall>v \<in> set vs. length (vaddr v) = 6"
  shows "hw_macaddr (fold ath9k_vif_iter vs d) = hw_macaddr d \<and>
    length (mask_bytes (fold ath9k_vif_iter vs d)) = 6 \<and>
    (\<forall>i < 6. \<forall>k < 8. bit (mask_bytes (fold ath9k_vif_iter vs d) ! i) k =
      (bit (mask_bytes d ! i) k \<and> (\<forall>v \<in> set vs. bit (vaddr v ! i) k = bit (hw_macaddr d ! i) k)))"
  using assms
proof (induction vs arbitrary: d)
  case Nil
  then show ?case by (simp add: iter_ok_def)
next
  case (Cons v vs)
  let ?d = "ath9k_vif_iter v d"
  have ok: "has_hw_macaddr ?d" "iter_ok ?d"
    using Cons.prems by (auto simp: vif_iter_fields iter_ok_def)
  have hw: "hw_macaddr ?d = hw_macaddr d" using Cons.prems(1) by (simp add: vif_iter_fields)
  have "bit (mask_bytes ?d ! i) k = (bit (mask_bytes d ! i) k \<and> bit (vaddr v ! i) k = bit (hw_macaddr d ! i) k)"
    if "i < 6" "k < 8" for i k
    using that Cons.prems by (auto simp: vif_iter_fields iter_ok_def bit_simps)
  then show ?case using Cons.IH [OF ok] Cons.prems(3) by (auto simp: hw)
qed

text \<open>The interfaces a summary looks at: the given one first, then the active ones.\<close>

definition summarised :: "nat option \<Rightarrow> softc \<Rightarrow> vif list" where
  "summarised v s = map (vifs s) ((case v of None \<Rightarrow> [] | Some n \<Rightarrow> [n]) @ active_vifs s)"

lemma iter_data_eq:
  "res (ath9k_calculate_iter_data v) s = fold ath9k_vif_iter (summarised v s) iter_data0"
  "exec (ath9k_calculate_iter_data v) s =
     s\<lparr>macaddr := hw_macaddr (fold ath9k_vif_iter (summarised v s) iter_data0)\<rparr>"
  by (simp_all add: ath9k_calculate_iter_data_def summarised_def fold_map comp_def)

lemma bit_255: "k < 8 \<Longrightarrow> bit (255 :: u8) k"
proof -
  have e: "(255 :: u8) = mask 8" by (simp add: mask_eq_exp_minus_1)
  show "k < 8 \<Longrightarrow> bit (255 :: u8) k" unfolding e by (simp only: bit_mask_iff) simp
qed

lemma fold_mask_start:
  assumes "\<forall>v \<in> set (v0 # vs). length (vaddr v) = 6"
  defines "d \<equiv> fold ath9k_vif_iter (v0 # vs) iter_data0"
  shows "hw_macaddr d = vaddr v0" "length (mask_bytes d) = 6"
    "\<forall>i < 6. \<forall>k < 8. bit (mask_bytes d ! i) k = (\<forall>v \<in> set vs. bit (vaddr v ! i) k = bit (vaddr v0 ! i) k)"
proof -
  let ?d = "ath9k_vif_iter v0 iter_data0"
  have "has_hw_macaddr ?d" "iter_ok ?d" "hw_macaddr ?d = vaddr v0" "mask_bytes ?d = replicate 6 255"
    using assms(1) by (simp_all add: vif_iter_fields iter_data0_def iter_ok_def)
  note f = fold_mask [OF this(1,2), of vs, unfolded this(3,4)]
  have m: "hw_macaddr d = vaddr v0 \<and> length (mask_bytes d) = 6 \<and> (\<forall>i < 6. \<forall>k < 8. bit (mask_bytes d ! i) k =
      (bit (replicate 6 (255 :: u8) ! i) k \<and> (\<forall>v \<in> set vs. bit (vaddr v ! i) k = bit (vaddr v0 ! i) k)))"
    unfolding d_def fold_simps(2) using assms(1) by (intro f) simp
  then show "hw_macaddr d = vaddr v0" "length (mask_bytes d) = 6" by simp_all
  show "\<forall>i < 6. \<forall>k < 8. bit (mask_bytes d ! i) k = (\<forall>v \<in> set vs. bit (vaddr v ! i) k = bit (vaddr v0 ! i) k)"
  proof (intro allI impI)
    fix i k :: nat
    assume k: "i < 6" "k < 8"
    then have "bit (replicate 6 (255 :: u8) ! i) k" using bit_255 [of k] by (simp only: nth_replicate)
    with m k show "bit (mask_bytes d ! i) k = (\<forall>v \<in> set vs. bit (vaddr v ! i) k = bit (vaddr v0 ! i) k)"
      by (simp only: simp_thms)
  qed
qed

text \<open>The operating mode of a list of interfaces.\<close>

definition mode_of :: "vif list \<Rightarrow> iftype" where
  "mode_of vs =
     (let has = (\<lambda>t. \<exists>v \<in> set vs. vtype v = t)
      in if has IF_AP then IF_AP else if has IF_MESH_POINT then IF_MESH_POINT
         else if has IF_WDS then IF_AP else if has IF_ADHOC then IF_ADHOC else IF_STATION)"

lemma filter_pos: "(0 < length (filter P xs)) = (\<exists>x \<in> set xs. P x)" "(filter P xs \<noteq> []) = (\<exists>x \<in> set xs. P x)"
  by (auto simp: filter_empty_conv)

lemma keeps_summary_tail:
  assumes "frames D g" "untraced g"
    "\<And>s x. g (s\<lparr>op_flags := x\<rparr>) = g s" "\<And>s x. g (s\<lparr>vifs := x\<rparr>) = g s" "\<And>s x. g (s\<lparr>curbssid := x\<rparr>) = g s"
    "\<And>s x. g (s\<lparr>curaid := x\<rparr>) = g s" "\<And>s x. g (s\<lparr>last_rssi := x\<rparr>) = g s"
    "\<And>s x. g (s\<lparr>avgbrssi := x\<rparr>) = g s" "\<And>s x. g (s\<lparr>ps_flags := x\<rparr>) = g s"
  shows "keeps g (ath9k_set_assoc_state D v)" "keeps g (ath9k_sta_vif_iter D v)"
proof -
  have op: "keeps g (set_op f)" for f using assms(3) by (simp add: keeps_def)
  show a: "keeps g (ath9k_set_assoc_state D v)" for v
    unfolding ath9k_set_assoc_state_def set_primary_def
    by (intro keeps_rules op keeps_call [OF assms(1,2)] keeps_with_lock [OF assms(2)]; simp add: assms(3-9))
  show "keeps g (ath9k_sta_vif_iter D v)"
    unfolding ath9k_sta_vif_iter_def by (intro keeps_rules a)
qed

section \<open>Properties\<close>

text \<open>
  The summary over the interfaces: the first one's address becomes the chip's; a bit of the
  address mask is set exactly when all interfaces agree on that bit; the operating mode
  follows the precedence access point, mesh, WDS (as access point), ad hoc, station; and the
  out-of-range interrupt is requested exactly when there is a station, ad hoc or mesh
  interface.
\<close>

theorem summary_state:
  assumes "summarised w s = v0 # vs" "\<forall>v \<in> set (v0 # vs). length (vaddr v) = 6"
    and "frames D macaddr" "frames D bssidmask" "frames D opmode" "frames D imask"
  shows "let s' = exec (ath9k_calculate_summary_state D w) s in
    macaddr s' = vaddr v0 \<and> opmode s' = mode_of (v0 # vs) \<and>
    (\<forall>i < 6. \<forall>k < 8. bit (bssidmask s' ! i) k = (\<forall>v \<in> set vs. bit (vaddr v ! i) k = bit (vaddr v0 ! i) k)) \<and>
    imask s' = (if \<exists>v \<in> set (v0 # vs). vtype v \<in> {IF_STATION, IF_ADHOC, IF_MESH_POINT}
                then imask s OR INT_TSFOOR D else imask s AND NOT (INT_TSFOOR D))"
proof -
  let ?g = "\<lambda>s. (macaddr s, bssidmask s, opmode s, imask s)"
  have g: "frames D ?g" "untraced ?g" using assms(3-6) by (simp_all add: frames_def untraced_def)
  have tail: "keeps ?g (for_each (ath9k_sta_vif_iter D) as)" for as
    by (intro keeps_for_each keeps_summary_tail(2) [OF g]; simp)
  have tail': "macaddr (exec (for_each (ath9k_sta_vif_iter D) as) t) = macaddr t"
    "bssidmask (exec (for_each (ath9k_sta_vif_iter D) as) t) = bssidmask t"
    "opmode (exec (for_each (ath9k_sta_vif_iter D) as) t) = opmode t"
    "imask (exec (for_each (ath9k_sta_vif_iter D) as) t) = imask t" for as t
    using keepsD [OF tail, of as t] by simp_all
  define d where "d = fold ath9k_vif_iter (v0 # vs) iter_data0"
  note m = fold_mask_start [OF assms(2), folded d_def]
  have c: "naps d = length (filter (\<lambda>v. vtype v = IF_AP) (v0 # vs))"
    "nstations d = length (filter (\<lambda>v. vtype v = IF_STATION) (v0 # vs))"
    "nadhocs d = length (filter (\<lambda>v. vtype v = IF_ADHOC) (v0 # vs))"
    "nmeshes d = length (filter (\<lambda>v. vtype v = IF_MESH_POINT) (v0 # vs))"
    "nwds d = length (filter (\<lambda>v. vtype v = IF_WDS) (v0 # vs))"
    unfolding d_def fold_counts by (simp_all add: iter_data0_def)
  have pos: "(0 < naps d) = (\<exists>v \<in> set (v0 # vs). vtype v = IF_AP)"
    "(nmeshes d \<noteq> 0) = (\<exists>v \<in> set (v0 # vs). vtype v = IF_MESH_POINT)"
    "(nwds d \<noteq> 0) = (\<exists>v \<in> set (v0 # vs). vtype v = IF_WDS)"
    "(nadhocs d \<noteq> 0) = (\<exists>v \<in> set (v0 # vs). vtype v = IF_ADHOC)"
    "(0 < nstations d + nadhocs d + nmeshes d) =
       (\<exists>v \<in> set (v0 # vs). vtype v \<in> {IF_STATION, IF_ADHOC, IF_MESH_POINT})"
    unfolding c by (auto simp only: filter_pos length_0_conv add_gr_0 insert_iff empty_iff)
  have fin: "macaddr (exec (ath9k_calculate_summary_state D w) s) = hw_macaddr d"
    "bssidmask (exec (ath9k_calculate_summary_state D w) s) = mask_bytes d"
    "opmode (exec (ath9k_calculate_summary_state D w) s) = mode_of (v0 # vs)"
    "imask (exec (ath9k_calculate_summary_state D w) s) =
      (if \<exists>v \<in> set (v0 # vs). vtype v \<in> {IF_STATION, IF_ADHOC, IF_MESH_POINT}
       then imask s OR INT_TSFOOR D else imask s AND NOT (INT_TSFOOR D))"
    unfolding mode_of_def Let_def pos [symmetric]
    using assms(3-6)
    by (simp_all add: ath9k_calculate_summary_state_def iter_data_eq assms(1) d_def [symmetric] tail'
        del: fold.simps set_simps)
  show ?thesis unfolding Let_def fin using m by simp
qed

theorem summary_state_witness:
  "opmode (exec (ath9k_calculate_summary_state dev0 (Some 3)) softc0) = IF_STATION"
proof -
  have f: "frames dev0 macaddr" "frames dev0 bssidmask" "frames dev0 opmode" "frames dev0 imask"
    by (rule frames_world0, simp)+
  have "summarised (Some 3) softc0 = [vifs softc0 3]" by (simp add: summarised_def softc0_def)
  from summary_state [OF this _ f] show ?thesis by (simp add: Let_def mode_of_def softc0_def)
qed

text \<open>The primary station: the operation flag is set exactly when one interface carries the mark.\<close>

definition one_primary :: "softc \<Rightarrow> bool" where
  "one_primary s \<longleftrightarrow>
     (if OP_PRIM_STA_VIF \<in> op_flags s then \<exists>!n. primary_sta_vif (vifs s n) else \<forall>n. \<not> primary_sta_vif (vifs s n))"

text \<open>What the mark depends on, and that the functions of other files leave it alone.\<close>

definition assoc_view :: "softc \<Rightarrow> bool \<times> (nat \<Rightarrow> bool) \<times> (nat \<Rightarrow> bool) \<times> nat list" where
  "assoc_view s = (OP_PRIM_STA_VIF \<in> op_flags s, \<lambda>n. primary_sta_vif (vifs s n), \<lambda>n. vassoc (vifs s n), active_vifs s)"

lemma assoc_viewD:
  assumes "frames D assoc_view"
  shows "(OP_PRIM_STA_VIF \<in> op_flags (snd (world D c s))) = (OP_PRIM_STA_VIF \<in> op_flags s)"
    "primary_sta_vif (vifs (snd (world D c s)) n) = primary_sta_vif (vifs s n)"
    "vassoc (vifs (snd (world D c s)) n) = vassoc (vifs s n)"
    "active_vifs (snd (world D c s)) = active_vifs s"
  using frames_world [OF assms, of c s] by (auto simp: assoc_view_def fun_eq_iff)

lemma assoc_state_view:
  assumes "frames D assoc_view"
  shows "assoc_view (exec (ath9k_set_assoc_state D v) s) =
    (True, (\<lambda>n. primary_sta_vif (vifs s n))(v := True), \<lambda>n. vassoc (vifs s n), active_vifs s)"
  by (simp add: ath9k_set_assoc_state_def set_primary_def assoc_view_def assoc_viewD [OF assms] with_lock_def
      only_if_def fun_eq_iff)

lemma assoc_iter_view:
  assumes "frames D assoc_view" "assoc_view s = (f, p, a, act)"
  shows "assoc_view (exec (ath9k_bss_assoc_iter D v) s) =
    (if \<not> f \<and> a v then (True, p(v := True), a, act) else (f, p, a, act))"
  using assms(2) assoc_state_view [OF assms(1), of v s]
  by (auto simp: ath9k_bss_assoc_iter_def assoc_view_def only_if_def)

lemma assoc_loop_view:
  assumes "frames D assoc_view"
  shows "assoc_view s = (f, p, a, act) \<Longrightarrow>
    assoc_view (exec (for_each (ath9k_bss_assoc_iter D) vs) s) =
      (case filter a vs of [] \<Rightarrow> (f, p, a, act) | v # _ \<Rightarrow> if f then (f, p, a, act) else (True, p(v := True), a, act))"
proof (induction vs arbitrary: s f p)
  case Nil
  then show ?case by simp
next
  case (Cons v vs)
  let ?s = "exec (ath9k_bss_assoc_iter D v) s"
  show ?case
  proof (cases "\<not> f \<and> a v")
    case True
    then have "assoc_view ?s = (True, p(v := True), a, act)"
      using assoc_iter_view [OF assms Cons.prems, of v] by simp
    from Cons.IH [OF this] True show ?thesis by (auto split: list.splits)
  next
    case False
    then have "assoc_view ?s = (f, p, a, act)" using assoc_iter_view [OF assms Cons.prems, of v] by auto
    from Cons.IH [OF this] False show ?thesis by (auto split: list.splits)
  qed
qed

lemma assoc_view_indep [simp]: "reset_indep assoc_view" "untraced assoc_view"
  by (simp_all add: reset_indep_def untraced_def assoc_view_def)

text \<open>The rules for the parts of the handler that leave the mark alone.\<close>

lemma keeps_assoc_view:
  assumes "frames D assoc_view"
  shows "keeps assoc_view (ath9k_ps_wakeup D)" "keeps assoc_view (ath9k_ps_restore D)"
    "keeps assoc_view (ath9k_update_p2p_ps D v)" "keeps assoc_view (bss_slot_changed D v)"
    "keeps assoc_view (clear_associd D)" "keeps assoc_view (bss_other_changes D v changed)"
proof -
  note k = keeps_rules keeps_call [OF assms assoc_view_indep(2)] keeps_with_lock [OF assoc_view_indep(2)]
    keeps_indep_parts [OF assms assoc_view_indep(1)]
  show p: "keeps assoc_view (ath9k_ps_wakeup D)" "keeps assoc_view (ath9k_ps_restore D)"
    "keeps assoc_view (ath9k_update_p2p_ps D v)" "keeps assoc_view (bss_slot_changed D v)"
    "keeps assoc_view (clear_associd D)"
    unfolding ath9k_ps_wakeup_def ath9k_ps_restore_def ath9k_update_p2p_ps_def bss_slot_changed_def
      clear_associd_def Let_def
    by (intro k; simp add: assoc_view_def)+
  show "keeps assoc_view (bss_other_changes D v changed)"
    unfolding bss_other_changes_def by (intro k p; simp add: assoc_view_def)
qed

definition view_one :: "bool \<times> (nat \<Rightarrow> bool) \<times> (nat \<Rightarrow> bool) \<times> nat list \<Rightarrow> bool" where
  "view_one V = (case V of (f, p, a, act) \<Rightarrow> if f then \<exists>!n. p n else \<forall>n. \<not> p n)"

lemma one_primary_view: "one_primary s = view_one (assoc_view s)"
  by (simp add: one_primary_def view_one_def assoc_view_def)

text \<open>The part of the handler for a change of association.\<close>

lemma assoc_changed_view:
  assumes "frames D assoc_view" "one_primary s"
  shows "one_primary (exec (bss_assoc_changed D v) s) \<and>
    ((\<exists>n \<in> set (active_vifs s). vassoc (vifs s n)) \<longrightarrow> OP_PRIM_STA_VIF \<in> op_flags (exec (bss_assoc_changed D v) s)) \<and>
    (\<forall>n. primary_sta_vif (vifs (exec (bss_assoc_changed D v) s) n) \<longrightarrow>
      vassoc (vifs s n) \<or> n \<noteq> v \<and> primary_sta_vif (vifs s n))"
proof -
  let ?a = "\<lambda>n. vassoc (vifs s n)"
  obtain f p where v: "assoc_view (exec (drop_primary v) s) = (f, p, ?a, active_vifs s)"
    and one: "view_one (f, p, ?a, active_vifs s)"
    and kept: "\<forall>n. p n \<longrightarrow> ?a n \<or> n \<noteq> v \<and> primary_sta_vif (vifs s n)"
  proof (cases "primary_sta_vif (vifs s v) \<and> \<not> vassoc (vifs s v)")
    case True
    then have "assoc_view (exec (drop_primary v) s) = (False, (\<lambda>n. primary_sta_vif (vifs s n))(v := False), ?a, active_vifs s)"
      by (simp add: drop_primary_def set_primary_def assoc_view_def fun_eq_iff)
    then show ?thesis
      by (rule that) (use True assms(2) in \<open>auto simp: one_primary_def view_one_def split: if_splits\<close>)
  next
    case False
    then have "assoc_view (exec (drop_primary v) s) = assoc_view s" by (auto simp: drop_primary_def)
    then show ?thesis unfolding assoc_view_def [of s]
      by (rule that) (use assms(2) False in \<open>auto simp: one_primary_view assoc_view_def [of s]\<close>)
  qed
  have act: "active_vifs (exec (drop_primary v) s) = active_vifs s" using v by (simp add: assoc_view_def)
  define t where "t = exec (bss_assoc_changed D v) s"
  have t: "assoc_view t = (case filter ?a (active_vifs s) of [] \<Rightarrow> (f, p, ?a, active_vifs s)
      | v # _ \<Rightarrow> if f then (f, p, ?a, active_vifs s) else (True, p(v := True), ?a, active_vifs s))"
    using keepsD [OF keeps_assoc_view(5) [OF assms(1)]] assoc_loop_view [OF assms(1) v, of "active_vifs s"]
    by (simp add: t_def bss_assoc_changed_def act)
  have "one_primary t"
    unfolding one_primary_view t using one by (auto simp: view_one_def split: list.splits if_splits)
  moreover have "\<exists>n \<in> set (active_vifs s). ?a n \<Longrightarrow> fst (assoc_view t)"
    unfolding t by (auto simp: filter_empty_conv split: list.splits)
  moreover have "?a n \<or> n \<noteq> v \<and> primary_sta_vif (vifs s n)" if "fst (snd (assoc_view t)) n" for n
    using that kept unfolding t by (auto split: list.splits if_splits dest!: filter_eq_ConsD)
  ultimately show ?thesis unfolding t_def [symmetric] by (auto simp: assoc_view_def)
qed

text \<open>
  C19: The driver has at most one primary station interface: a change of a BSS keeps the rule that
  the operation flag is set exactly when one interface carries the primary mark, and after a
  change of association the flag is set whenever an active interface is associated, so losing
  the primary hands the role to another one; and an interface that then carries the mark is associated,
  or it is not the one that changed and carried the mark before.
\<close>

theorem primary_station:
  assumes "frames D assoc_view" "one_primary s"
  shows "let s' = exec (ath9k_bss_info_changed D v changed) s
    in one_primary s' \<and>
       (BSS_ASSOC \<in> changed \<and> (\<exists>n \<in> set (active_vifs s). vassoc (vifs s n)) \<longrightarrow> OP_PRIM_STA_VIF \<in> op_flags s') \<and>
       (BSS_ASSOC \<in> changed \<longrightarrow> (\<forall>n. primary_sta_vif (vifs s' n) \<longrightarrow>
          vassoc (vifs s n) \<or> n \<noteq> v \<and> primary_sta_vif (vifs s n)))"
proof -
  note a = assms(1) assoc_view_indep(2)
  define t where "t = (exec (ath9k_ps_wakeup D) s)\<lparr>trace := Lock (Acquire Sc_mutex) # trace (exec (ath9k_ps_wakeup D) s)\<rparr>"
  define u where "u = exec (only_if (BSS_ASSOC \<in> changed) (bss_assoc_changed D v)) t"
  have u: "assoc_view (exec (ath9k_bss_info_changed D v changed) s) = assoc_view u"
    using keepsD [OF keeps_assoc_view(6) [OF a(1)], of v changed u] keepsD [OF keeps_assoc_view(2) [OF a(1)]] a(2)
    by (simp add: ath9k_bss_info_changed_def awake_def with_lock_def u_def t_def untraced_def)
  have "assoc_view t = assoc_view s"
    using keepsD [OF keeps_assoc_view(1) [OF a(1)], of s] a(2) by (simp add: t_def untraced_def)
  then have t: "one_primary t" "active_vifs t = active_vifs s" "\<And>n. vassoc (vifs t n) = vassoc (vifs s n)"
    "\<And>n. primary_sta_vif (vifs t n) = primary_sta_vif (vifs s n)"
    using assms(2) by (auto simp: one_primary_view assoc_view_def fun_eq_iff)
  have f: "OP_PRIM_STA_VIF \<in> op_flags x \<longleftrightarrow> fst (assoc_view x)"
    "primary_sta_vif (vifs x n) \<longleftrightarrow> fst (snd (assoc_view x)) n" for x n by (simp_all add: assoc_view_def)
  show ?thesis
    using assoc_changed_view [OF a(1) t(1), of v] t
    by (auto simp: Let_def one_primary_view f u u_def)
qed

text \<open>Two stations; the first, the primary, has just lost its access point.\<close>

definition softc_two_sta :: softc where
  "softc_two_sta = softc0\<lparr>op_flags := {OP_PRIM_STA_VIF}, active_vifs := [0, 1],
     vifs := (vifs softc0)(0 := (vifs softc0 0)\<lparr>primary_sta_vif := True\<rparr>, 1 := (vifs softc0 1)\<lparr>vassoc := True\<rparr>)\<rparr>"

theorem primary_station_witness:
  "one_primary (exec (ath9k_bss_info_changed dev0 0 {BSS_ASSOC}) softc_two_sta) \<and>
   OP_PRIM_STA_VIF \<in> op_flags (exec (ath9k_bss_info_changed dev0 0 {BSS_ASSOC}) softc_two_sta) \<and>
   \<not> primary_sta_vif (vifs (exec (ath9k_bss_info_changed dev0 0 {BSS_ASSOC}) softc_two_sta) 0)"
proof -
  have f: "frames dev0 assoc_view" by (rule frames_world0) (simp add: assoc_view_def)
  have "one_primary softc_two_sta" by (auto simp: one_primary_def softc_two_sta_def softc0_def)
  from primary_station [OF f this, of 0 "{BSS_ASSOC}"] show ?thesis
    by (auto simp: softc_two_sta_def softc0_def Let_def)
qed

end
