(* ===== verification/Ath_Config.thy ===== *)
theory Ath_Config
  imports Ath_Iface
begin

text \<open>
  Configuration callbacks of \<open>ath9k/main.c\<close>: \<open>ath9k_config\<close> (idle, power saving, monitor, channel,
  power), the receive filter, stations and their keys, the queue parameters with the EIFS update,
  the time function, aggregation, surveys, coverage class, antennas and scan flags.
\<close>

section \<open>Configuration\<close>

datatype conf_change = CH_IDLE | CH_PS | CH_MONITOR | CH_CHANNEL | CH_POWER

definition config_idle :: "device \<Rightarrow> (softc, bool) state" where
  "config_idle D = do {
     modify (\<lambda>s. s\<lparr>ps_idle := CONF_IDLE \<in> conf_flags s\<rparr>);
     idle \<leftarrow> gets ps_idle;
     if idle then do {
       ath_cancel_work D;
       do_call D (Reset Stop_btcoex);
       ret False
     } else do {
       do_call D (Reset Start_btcoex);
       gets chip_fullsleep
     }
   }"

definition config_power :: "device \<Rightarrow> (softc, unit) state" where
  "config_power D = do {
     modify (\<lambda>s. s\<lparr>reg_max_antenna_gain := conf_max_antenna_gain s\<rparr>);
     modify (\<lambda>s. s\<lparr>txpowlimit := 2 * conf_power_level s\<rparr>);
     do_call D (Reset Cmn_update_txpow);
     modify (\<lambda>s. s\<lparr>cur_power_level := curtxpow s div 2\<rparr>)
   }"

definition ath9k_config :: "device \<Rightarrow> conf_change set \<Rightarrow> (softc, int) state" where
  "ath9k_config D changed = awake D (with_lock Sc_mutex (do {
     reset_channel \<leftarrow> (if CH_IDLE \<in> changed then config_idle D else ret False);
     only_if (CH_PS \<in> changed) (with_lock Sc_pm_lock (do {
       on \<leftarrow> gets (\<lambda>s. CONF_PS \<in> conf_flags s);
       if on then ath9k_enable_ps D else ath9k_disable_ps D
     }));
     only_if (CH_MONITOR \<in> changed)
       (modify (\<lambda>s. s\<lparr>is_monitoring := CONF_MONITOR \<in> conf_flags s\<rparr>));
     pos \<leftarrow> gets conf_chan;
     r \<leftarrow> (if CH_CHANNEL \<in> changed \<or> reset_channel then ath_set_channel D pos else ret 0);
     if r < 0 then ret (- EINVAL)
     else do {
       only_if (CH_POWER \<in> changed) (config_power D);
       ret 0
     }
   }))"

text \<open>The filter flags left over are the result.\<close>

definition ath9k_configure_filter :: "device \<Rightarrow> u32 \<Rightarrow> (softc, u32) state" where
  "ath9k_configure_filter D flags = do {
     let kept = flags AND supported_filters D;
     modify (\<lambda>s. s\<lparr>rxfilter := kept\<rparr>);
     awake D (do {
       rfilt \<leftarrow> call D (Hw Calcrxfilter);
       do_call D (Hw (Hw_setrxfilter rfilt))
     });
     ret kept
   }"

section \<open>Stations and keys\<close>

definition set_node :: "nat \<Rightarrow> (node \<Rightarrow> node) \<Rightarrow> (softc, unit) state" where
  "set_node n f = modify (\<lambda>s. s\<lparr>nodes := (nodes s)(n := f (nodes s n))\<rparr>)"

definition ath_node_attach :: "device \<Rightarrow> nat \<Rightarrow> nat \<Rightarrow> (softc, unit) state" where
  "ath_node_attach D n v = do {
     set_node n (\<lambda>a. a\<lparr>nvif := v\<rparr>);
     set_node n (\<lambda>a. a\<lparr>key_idx := [0, 0, 0, 0]\<rparr>);
     do_call D (Tx (Tx_node_init n))
   }"

definition ath_node_detach :: "device \<Rightarrow> nat \<Rightarrow> (softc, unit) state" where
  "ath_node_detach D n = do_call D (Tx (Tx_node_cleanup n))"

definition key0 :: key_conf where
  "key0 = \<lparr>hw_key_idx = 0, cipher = CIPHER_other, pairwise = False, generate_iv = False,
     generate_mmic = False, sw_mgmt_tx = False\<rparr>"

definition ath9k_sta_add :: "device \<Rightarrow> nat \<Rightarrow> nat \<Rightarrow> (softc, int) state" where
  "ath9k_sta_add D v n = do {
     ath_node_attach D n v;
     t \<leftarrow> gets (\<lambda>s. vtype (vifs s v));
     if t \<noteq> IF_AP \<and> t \<noteq> IF_AP_VLAN then ret 0
     else do {
       key \<leftarrow> call D (Vif (Key_config v (Some n) key0));
       only_if (sint key > 0) (do {
         set_node n (\<lambda>a. a\<lparr>ps_key := ucast key\<rparr>);
         set_node n (\<lambda>a. a\<lparr>key_idx := (key_idx a)[0 := ucast key]\<rparr>)
       });
       ret 0
     }
   }"

definition ath9k_del_ps_key :: "device \<Rightarrow> nat \<Rightarrow> (softc, unit) state" where
  "ath9k_del_ps_key D n = do {
     k \<leftarrow> gets (\<lambda>s. ps_key (nodes s n));
     if k = 0 then ret ()
     else do {
       do_call D (Vif (Key_delete (key0\<lparr>hw_key_idx := k\<rparr>)));
       set_node n (\<lambda>a. a\<lparr>ps_key := 0\<rparr>);
       set_node n (\<lambda>a. a\<lparr>key_idx := (key_idx a)[0 := 0]\<rparr>)
     }
   }"

definition ath9k_sta_remove :: "device \<Rightarrow> nat \<Rightarrow> (softc, int) state" where
  "ath9k_sta_remove D n = do { ath9k_del_ps_key D n; ath_node_detach D n; ret 0 }"

definition ath9k_sta_set_tx_filter :: "device \<Rightarrow> nat \<Rightarrow> bool \<Rightarrow> (softc, unit) state" where
  "ath9k_sta_set_tx_filter D n b = for_each (\<lambda>i. do {
     k \<leftarrow> gets (\<lambda>s. key_idx (nodes s n) ! i);
     only_if (k \<noteq> 0) (do_call D (Vif (Hw_set_tx_filter k b)))
   }) [0, 1, 2, 3]"

datatype sta_notify_cmd = STA_NOTIFY_SLEEP | STA_NOTIFY_AWAKE

fun ath9k_sta_notify :: "device \<Rightarrow> nat \<Rightarrow> sta_notify_cmd \<Rightarrow> (softc, unit) state" where
  "ath9k_sta_notify D n STA_NOTIFY_SLEEP = do {
     set_sleeping n True;
     do_call D (Tx (Tx_aggr_sleep n));
     ath9k_sta_set_tx_filter D n True
   }"
| "ath9k_sta_notify D n STA_NOTIFY_AWAKE = do {
     ath9k_sta_set_tx_filter D n False;
     set_sleeping n False;
     do_call D (Tx (Tx_aggr_wakeup n))
   }"

text \<open>The loops over the key slots: the first slot that holds \<open>x\<close> gets \<open>y\<close>.\<close>

fun replace_first :: "'a \<Rightarrow> 'a \<Rightarrow> 'a list \<Rightarrow> 'a list" where
  "replace_first x y [] = []"
| "replace_first x y (z # zs) = (if z = x then y # zs else z # replace_first x y zs)"

datatype set_key_cmd = SET_KEY | DISABLE_KEY | KEY_CMD_other

definition install_key :: "device \<Rightarrow> nat \<Rightarrow> nat option \<Rightarrow> key_conf \<Rightarrow> (softc, key_conf \<times> int) state" where
  "install_key D v sta key = do {
     (case sta of None \<Rightarrow> ret () | Some n \<Rightarrow> ath9k_del_ps_key D n);
     let key = key\<lparr>hw_key_idx := 0\<rparr>;
     r \<leftarrow> call D (Vif (Key_config v sta key));
     let r = sint r;
     let key = (if r \<ge> 0 then
                  key\<lparr>hw_key_idx := word_of_int r, generate_iv := True,
                      generate_mmic := generate_mmic key \<or> cipher key = CIPHER_TKIP,
                      sw_mgmt_tx := sw_mgmt_tx key \<or> sw_mgmt_crypto D \<and> cipher key = CIPHER_CCMP\<rparr>
                else key);
     let r = (if r \<ge> 0 then 0 else r);
     (case sta of
        None \<Rightarrow> ret ()
      | Some n \<Rightarrow> only_if (hw_key_idx key \<noteq> 0)
          (set_node n (\<lambda>a. a\<lparr>key_idx := replace_first 0 (hw_key_idx key) (key_idx a)\<rparr>)));
     ret (key, r)
   }"

definition disable_key :: "device \<Rightarrow> nat option \<Rightarrow> key_conf \<Rightarrow> (softc, key_conf \<times> int) state" where
  "disable_key D sta key = do {
     do_call D (Vif (Key_delete key));
     (case sta of
        None \<Rightarrow> ret ()
      | Some n \<Rightarrow> set_node n (\<lambda>a. a\<lparr>key_idx := replace_first (hw_key_idx key) 0 (key_idx a)\<rparr>));
     ret (key\<lparr>hw_key_idx := 0\<rparr>, 0)
   }"

definition ath9k_set_key ::
    "device \<Rightarrow> set_key_cmd \<Rightarrow> nat \<Rightarrow> nat option \<Rightarrow> key_conf \<Rightarrow> (softc, key_conf \<times> int) state" where
  "ath9k_set_key D cmd v sta key = do {
     t \<leftarrow> gets (\<lambda>s. vtype (vifs s v));
     if nohwcrypt D then ret (key, - ENOSPC)
     else if (t = IF_ADHOC \<or> t = IF_MESH_POINT) \<and> (cipher key = CIPHER_TKIP \<or> cipher key = CIPHER_CCMP) \<and>
             \<not> pairwise key then ret (key, - EOPNOTSUPP)
     else with_lock Sc_mutex (awake D
       (case cmd of
          SET_KEY \<Rightarrow> install_key D v sta key
        | DISABLE_KEY \<Rightarrow> disable_key D sta key
        | KEY_CMD_other \<Rightarrow> ret (key, - EINVAL)))
   }"

section \<open>Queue parameters\<close>

record queue_params =
  qp_aifs :: u8
  qp_cw_min :: u16
  qp_cw_max :: u16
  qp_txop :: u16

definition NUM_ACS :: nat where "NUM_ACS = 4"
definition AC_BE :: nat where "AC_BE = 2"

definition update_eifs :: "device \<Rightarrow> u8 \<Rightarrow> (softc, unit) state" where
  "update_eifs D aifs = do {
     sifs_in_clock \<leftarrow> ath9k_ioread32 (AR_D_GBL_IFS_SIFS (chip_regs D));
     slottime_in_clock \<leftarrow> ath9k_ioread32 (AR_D_GBL_IFS_SLOT (chip_regs D));
     let eifs_in_clock = sifs_in_clock + ucast aifs * slottime_in_clock;
     ath9k_iowrite32 eifs_in_clock (AR_D_GBL_IFS_EIFS (chip_regs D))
   }"

definition ath9k_conf_tx :: "device \<Rightarrow> nat \<Rightarrow> queue_params \<Rightarrow> (softc, int) state" where
  "ath9k_conf_tx D queue params =
     (if queue \<ge> NUM_ACS then ret 0
      else do {
        q \<leftarrow> gets (\<lambda>s. axq_qnum (txqs s (txq_map s queue)));
        awake D (with_lock Sc_mutex (do {
          let burst = ucast (qp_txop params) * 32;
          do_call D (Tx (Update_max_aggr_framelen queue burst));
          r \<leftarrow> call D (Tx (Txq_update q (ucast (qp_aifs params)) (ucast (qp_cw_min params))
                 (ucast (qp_cw_max params)) burst));
          only_if (queue = AC_BE \<and> eifs_equal_to_aifs D) (update_eifs D (qp_aifs params));
          ret (sint r)
        }))
      })"

section \<open>The time function, aggregation\<close>

definition ath9k_get_tsf :: "device \<Rightarrow> (softc, 64 word) state" where
  "ath9k_get_tsf D = with_lock Sc_mutex (awake D (do { do_call D (Hw Hw_gettsf64); gets tsf64 }))"

definition ath9k_set_tsf :: "device \<Rightarrow> 64 word \<Rightarrow> (softc, unit) state" where
  "ath9k_set_tsf D tsf = with_lock Sc_mutex (awake D (do_call D (Hw (Hw_settsf64 tsf))))"

definition ath9k_reset_tsf :: "device \<Rightarrow> (softc, unit) state" where
  "ath9k_reset_tsf D = with_lock Sc_mutex (awake D (do_call D (Hw Hw_reset_tsf)))"

datatype ampdu_action = RX_START | RX_STOP | TX_START | TX_STOP_FLUSH | TX_STOP_FLUSH_CONT | TX_STOP_CONT
  | TX_OPERATIONAL | AMPDU_other

definition ampdu_tx_stop :: "device \<Rightarrow> nat \<Rightarrow> u16 \<Rightarrow> bool \<Rightarrow> (softc, int) state" where
  "ampdu_tx_stop D n tid flush = awake D (do {
     do_call D (Tx (Tx_aggr_stop n tid));
     only_if (\<not> flush) (do_call D (Tx (Stop_tx_ba_cb n tid)));
     ret 0
   })"

definition ath9k_ampdu_action :: "device \<Rightarrow> ampdu_action \<Rightarrow> nat \<Rightarrow> u16 \<Rightarrow> (softc, int) state" where
  "ath9k_ampdu_action D action n tid = with_lock Sc_mutex
     (case action of
        RX_START \<Rightarrow> ret 0
      | RX_STOP \<Rightarrow> ret 0
      | TX_START \<Rightarrow> awake D (do {
          r \<leftarrow> call D (Tx (Tx_aggr_start n tid));
          only_if (r = 0) (do_call D (Tx (Start_tx_ba_cb n tid)));
          ret (sint r)
        })
      | TX_STOP_FLUSH \<Rightarrow> ampdu_tx_stop D n tid True
      | TX_STOP_FLUSH_CONT \<Rightarrow> ampdu_tx_stop D n tid True
      | TX_STOP_CONT \<Rightarrow> ampdu_tx_stop D n tid False
      | TX_OPERATIONAL \<Rightarrow> awake D (do { do_call D (Tx (Tx_aggr_resume n tid)); ret 0 })
      | AMPDU_other \<Rightarrow> ret 0)"

text \<open>Minimum spacing of subframes in microseconds.\<close>

definition ath9k_parse_mpdudensity :: "u8 \<Rightarrow> u8" where
  "ath9k_parse_mpdudensity d =
     (if d = 0 then 0 else if d \<in> {1, 2, 3} then 1 else if d = 4 then 2 else if d = 5 then 4
      else if d = 6 then 8 else if d = 7 then 16 else 0)"

section \<open>Surveys, coverage class\<close>

record survey_info =
  si_channel :: nat
  si_in_use :: bool
  si_time :: u32

text \<open>A band is the list of its channels' positions (\<open>hw_value\<close>) in the survey table.\<close>

definition survey_channel :: "nat list option \<Rightarrow> nat list option \<Rightarrow> nat \<Rightarrow> nat option" where
  "survey_channel b2 b5 idx =
     (let (sband, idx) = (case b2 of
            None \<Rightarrow> (None, idx)
          | Some cs \<Rightarrow> if idx \<ge> length cs then (None, idx - length cs) else (Some cs, idx));
          sband = (case sband of None \<Rightarrow> b5 | Some cs \<Rightarrow> Some cs)
      in case sband of
           None \<Rightarrow> None
         | Some cs \<Rightarrow> if idx \<ge> length cs then None else Some (cs ! idx))"

definition ath9k_get_survey :: "device \<Rightarrow> nat \<Rightarrow> (softc, int + survey_info) state" where
  "ath9k_get_survey D idx =
     (if cfg_tx99 D then ret (Inl (- EOPNOTSUPP))
      else with_lock Cc_lock (do {
        only_if (idx = 0) (do_call D (Reset Update_survey_stats));
        (case survey_channel (channels_2ghz D) (channels_5ghz D) idx of
           None \<Rightarrow> ret (Inl (- ENOENT))
         | Some pos \<Rightarrow> gets (\<lambda>s. Inr \<lparr>si_channel = pos, si_in_use = survey_in_use s pos,
                                        si_time = survey_time s pos\<rparr>))
      }))"

definition ath9k_set_coverage_class :: "device \<Rightarrow> u8 \<Rightarrow> (softc, unit) state" where
  "ath9k_set_coverage_class D c =
     (if cfg_tx99 D then ret ()
      else with_lock Sc_mutex (do {
        modify (\<lambda>s. s\<lparr>coverage_class := c\<rparr>);
        awake D (do_call D (Hw Hw_init_global_settings))
      }))"

section \<open>Antennas, scanning\<close>

lemma unat_half_less: "cap \<noteq> 0 \<Longrightarrow> unat (drop_bit 1 cap) < unat (cap :: u32)"
proof -
  assume "cap \<noteq> 0"
  then have "0 < unat cap" by (simp add: unat_gt_0)
  then show ?thesis by (subst unat_drop_bit_eq) (simp add: drop_bit_eq_div)
qed

function fill_loop :: "u32 \<Rightarrow> u32 \<Rightarrow> nat \<Rightarrow> u32 \<Rightarrow> u32" where
  "fill_loop cap new i filled =
     (if cap = 0 \<or> new = 0 then filled
      else if cap AND 1 = 0 then fill_loop (drop_bit 1 cap) new (i + 1) filled
      else fill_loop (drop_bit 1 cap) (drop_bit 1 new) (i + 1)
             (if new AND 1 \<noteq> 0 then filled OR push_bit i 1 else filled))"
  by auto
termination
  by (relation "measure (\<lambda>(cap, new, i, filled). unat cap)", simp)
    (simp only: in_measure prod.case de_Morgan_disj, elim conjE, rule unat_half_less, assumption)+

declare fill_loop.simps [simp del]

definition fill_chainmask :: "u32 \<Rightarrow> u32 \<Rightarrow> u32" where
  "fill_chainmask cap new = fill_loop cap new 0 0"

definition validate_antenna_mask :: "device \<Rightarrow> u32 \<Rightarrow> bool" where
  "validate_antenna_mask D val \<longleftrightarrow>
     (if srev_9300_20_or_later D then True
      else if val AND 7 \<in> {1, 3, 7} then True
      else if val AND 7 = 2 then caps_rx_chainmask D = 1
      else False)"

definition ath9k_set_antenna :: "device \<Rightarrow> u32 \<Rightarrow> u32 \<Rightarrow> (softc, int) state" where
  "ath9k_set_antenna D tx_ant rx_ant =
     (let rx_ant = (if caps_rx_chainmask D \<noteq> 1 then rx_ant OR tx_ant else rx_ant)
      in if \<not> validate_antenna_mask D rx_ant \<or> tx_ant = 0 then ret (- EINVAL)
         else do {
           modify (\<lambda>s. s\<lparr>ant_rx := ucast rx_ant\<rparr>);
           modify (\<lambda>s. s\<lparr>ant_tx := ucast tx_ant\<rparr>);
           if caps_rx_chainmask D = 1 then ret 0
           else do {
             modify (\<lambda>s. s\<lparr>rxchainmask :=
               (if srev_9100 D then 7 else fill_chainmask (caps_rx_chainmask D) rx_ant)\<rparr>);
             modify (\<lambda>s. s\<lparr>txchainmask := fill_chainmask (caps_tx_chainmask D) tx_ant\<rparr>);
             do_call D (Hw Reload_chainmask);
             ret 0
           }
         })"

definition ath9k_get_antenna :: "(softc, u32 \<times> u32) state" where
  "ath9k_get_antenna = gets (\<lambda>s. (ucast (ant_tx s), ucast (ant_rx s)))"

definition ath9k_sw_scan_start :: "(softc, unit) state" where
  "ath9k_sw_scan_start = set_op OP_SCANNING"

definition ath9k_sw_scan_complete :: "(softc, unit) state" where
  "ath9k_sw_scan_complete = clear_op OP_SCANNING"

text \<open>The counters of the chip's error statistics that mac80211 asks for, and where they go.\<close>

record mib_stats =
  ackrcv_bad :: u32
  rts_bad :: u32
  fcs_bad :: u32
  rts_good :: u32

record low_level_stats =
  dot11ACKFailureCount :: u32
  dot11RTSFailureCount :: u32
  dot11FCSErrorCount :: u32
  dot11RTSSuccessCount :: u32

definition ath9k_get_stats :: "mib_stats \<Rightarrow> low_level_stats \<Rightarrow> int \<times> low_level_stats" where
  "ath9k_get_stats mib stats = (0, stats\<lparr>dot11ACKFailureCount := ackrcv_bad mib, dot11RTSFailureCount := rts_bad mib,
     dot11FCSErrorCount := fcs_bad mib, dot11RTSSuccessCount := rts_good mib\<rparr>)"

section \<open>Locks and the use count\<close>

lemma uses_set_node [uses_intros]: "uses A (set_node n f)"
  unfolding set_node_def by (intro uses_intros; simp)

lemma keeps_set_node [keeps_intros]:
  assumes "unwritten g"
  shows "keeps g (set_node n f)"
  unfolding set_node_def by (intro keeps_intros unwrittenD [OF assms]; simp add: sc_view_def)

lemma uses_case_cmd [uses_intros]:
  "uses A a \<Longrightarrow> uses A b \<Longrightarrow> uses A c \<Longrightarrow> uses A (case cmd of SET_KEY \<Rightarrow> a | DISABLE_KEY \<Rightarrow> b | KEY_CMD_other \<Rightarrow> c)"
  by (cases cmd) auto

lemma keeps_case_cmd [keeps_intros]:
  "keeps g a \<Longrightarrow> keeps g b \<Longrightarrow> keeps g c \<Longrightarrow> keeps g (case cmd of SET_KEY \<Rightarrow> a | DISABLE_KEY \<Rightarrow> b | KEY_CMD_other \<Rightarrow> c)"
  by (cases cmd) auto

lemma uses_config [uses_intros]:
  "uses A (config_idle D)" "uses A (config_power D)"
  "all_locks \<subseteq> A \<Longrightarrow> uses A (ath9k_config D ch)"
  "all_locks \<subseteq> A \<Longrightarrow> uses A (ath9k_configure_filter D kept)"
  "all_locks \<subseteq> A \<Longrightarrow> uses A (ath9k_set_coverage_class D c)"
  "all_locks \<subseteq> A \<Longrightarrow> uses A (ath9k_get_survey D idx)"
  "uses A (ath9k_set_antenna D tx rx)" "uses A ath9k_get_antenna"
  "uses A ath9k_sw_scan_start" "uses A ath9k_sw_scan_complete"
  unfolding config_idle_def config_power_def ath9k_config_def ath9k_configure_filter_def
    ath9k_set_coverage_class_def ath9k_get_survey_def ath9k_set_antenna_def ath9k_get_antenna_def
    ath9k_sw_scan_start_def ath9k_sw_scan_complete_def Let_def
  by (intro uses_intros; auto simp: lock_sets)+

lemma uses_keys [uses_intros]:
  "uses A (ath_node_attach D n v)" "uses A (ath_node_detach D n)" "uses A (ath9k_sta_add D v n)"
  "uses A (ath9k_del_ps_key D n)" "uses A (ath9k_sta_remove D n)" "uses A (ath9k_sta_set_tx_filter D n b)"
  "uses A (install_key D v sta key)" "uses A (disable_key D sta key)"
  "all_locks \<subseteq> A \<Longrightarrow> uses A (ath9k_set_key D cmd v sta key)"
  unfolding ath_node_attach_def ath_node_detach_def ath9k_sta_add_def ath9k_del_ps_key_def
    ath9k_sta_remove_def ath9k_sta_set_tx_filter_def install_key_def disable_key_def ath9k_set_key_def
    Let_def
  by (intro uses_intros; auto simp: lock_sets)+

lemma uses_sta_notify [uses_intros]: "uses A (ath9k_sta_notify D n cmd)"
  by (cases cmd) (simp_all, (intro uses_intros)+)

lemma uses_conf_tx [uses_intros]:
  "uses A (update_eifs D aifs)" "all_locks \<subseteq> A \<Longrightarrow> uses A (ath9k_conf_tx D queue params)"
  "all_locks \<subseteq> A \<Longrightarrow> uses A (ath9k_get_tsf D)" "all_locks \<subseteq> A \<Longrightarrow> uses A (ath9k_set_tsf D t)"
  "all_locks \<subseteq> A \<Longrightarrow> uses A (ath9k_reset_tsf D)"
  "{Sc_pm_lock, Cc_lock} \<subseteq> A \<Longrightarrow> uses A (ampdu_tx_stop D n tid f)"
  unfolding update_eifs_def ath9k_conf_tx_def ath9k_get_tsf_def ath9k_set_tsf_def ath9k_reset_tsf_def
    ampdu_tx_stop_def Let_def
  by (intro uses_intros; auto simp: lock_sets)+

lemma uses_ampdu [uses_intros]: "all_locks \<subseteq> A \<Longrightarrow> uses A (ath9k_ampdu_action D action n tid)"
  unfolding ath9k_ampdu_action_def
  by (cases action; simp; intro uses_intros; auto simp: lock_sets)

lemma keeps_scan [keeps_intros]:
  assumes "unwritten g"
  shows "keeps g ath9k_get_antenna" "keeps g ath9k_sw_scan_start" "keeps g ath9k_sw_scan_complete"
  unfolding ath9k_get_antenna_def ath9k_sw_scan_start_def ath9k_sw_scan_complete_def
  by (intro keeps_intros assms unwrittenD [OF assms]; simp add: sc_view_def)+

lemma keeps_config [keeps_intros]:
  assumes "steady D g"
  shows "keeps g (config_idle D)" "keeps g (config_power D)"
    "keeps g (ath9k_config D ch)" "keeps g (ath9k_configure_filter D kept)"
    "keeps g (ath9k_set_coverage_class D c)" "keeps g (ath9k_get_survey D idx)"
    "keeps g (ath9k_set_antenna D tx rx)"
  unfolding config_idle_def config_power_def ath9k_config_def ath9k_configure_filter_def
    ath9k_set_coverage_class_def ath9k_get_survey_def ath9k_set_antenna_def ath9k_get_antenna_def
    ath9k_sw_scan_start_def ath9k_sw_scan_complete_def Let_def
  using assms by (intro keeps_intros assms steadyD(2) [OF assms] unwrittenD [OF steadyD(2) [OF assms]]; simp add: sc_view_def)+

lemma keeps_keys [keeps_intros]:
  assumes "steady D g"
  shows "keeps g (ath_node_attach D n v)" "keeps g (ath_node_detach D n)"
    "keeps g (ath9k_sta_add D v n)" "keeps g (ath9k_del_ps_key D n)"
    "keeps g (ath9k_sta_remove D n)" "keeps g (ath9k_sta_set_tx_filter D n b)"
    "keeps g (install_key D v sta key)" "keeps g (disable_key D sta key)"
    "keeps g (ath9k_set_key D cmd v sta key)"
  unfolding ath_node_attach_def ath_node_detach_def ath9k_sta_add_def ath9k_del_ps_key_def
    ath9k_sta_remove_def ath9k_sta_set_tx_filter_def install_key_def disable_key_def ath9k_set_key_def
    Let_def
  using assms by (intro keeps_intros assms steadyD(2) [OF assms] unwrittenD [OF steadyD(2) [OF assms]]; simp add: sc_view_def)+

lemma keeps_sta_notify [keeps_intros]:
  assumes "steady D g"
  shows "keeps g (ath9k_sta_notify D n cmd)"
  by (cases cmd) (simp_all, (intro keeps_intros assms steadyD(2) [OF assms])+)

lemma keeps_conf_tx [keeps_intros]:
  assumes "steady D g"
  shows "keeps g (update_eifs D aifs)" "keeps g (ath9k_conf_tx D queue params)"
    "keeps g (ath9k_get_tsf D)" "keeps g (ath9k_set_tsf D t)"
    "keeps g (ath9k_reset_tsf D)" "keeps g (ampdu_tx_stop D n tid f)"
  unfolding update_eifs_def ath9k_conf_tx_def ath9k_get_tsf_def ath9k_set_tsf_def ath9k_reset_tsf_def
    ampdu_tx_stop_def Let_def
  using assms by (intro keeps_intros assms steadyD(2) [OF assms] unwrittenD [OF steadyD(2) [OF assms]]; simp add: sc_view_def)+

lemma keeps_ampdu [keeps_intros]:
  assumes "steady D g"
  shows "keeps g (ath9k_ampdu_action D action n tid)"
  unfolding ath9k_ampdu_action_def
  by (cases action; simp; intro keeps_intros assms steadyD(2) [OF assms] unwrittenD [OF steadyD(2) [OF assms]]; simp add: sc_view_def)

section \<open>Lemmas\<close>

lemma fill_loop_bit:
  "bit (fill_loop cap new i filled) j =
     (bit filled j \<or> i \<le> j \<and> j < 32 \<and> bit cap (j - i) \<and> bit new (length (filter (bit cap) [0..<j - i])))"
proof (induction cap new i filled rule: fill_loop.induct)
  case (1 cap new i filled)
  have count: "length (filter (bit cap) [0..<Suc m]) =
      (if bit cap 0 then 1 else 0) + length (filter (bit (drop_bit 1 cap)) [0..<m])" for m
  proof -
    have "[0..<Suc m] = 0 # map Suc [0..<m]" by (simp add: upt_conv_Cons map_Suc_upt del: upt_Suc)
    then show ?thesis by (simp add: filter_map comp_def bit_drop_bit_eq del: upt_Suc)
  qed
  have and1: "(w AND 1 = 0) = (\<not> bit w 0)" for w :: u32 by (simp add: and_one_eq bit_0 even_iff_mod_2_eq_zero)
  show ?case
  proof (cases "cap = 0 \<or> new = 0")
    case True
    then show ?thesis by (subst fill_loop.simps) auto
  next
    case False
    consider "j < i" | "j = i" | m where "j - i = Suc m" "i < j" by (cases "j - i") force+
    then show ?thesis
    proof cases
      case 1
      then show ?thesis using False "1.IH" by (subst fill_loop.simps) (auto simp: bit_simps)
    next
      case 2
      then show ?thesis using False "1.IH" by (subst fill_loop.simps) (auto simp: and1 bit_simps)
    next
      case 3
      then have "i + 1 \<le> j" "j - (i + 1) = m" by auto
      then show ?thesis using False "1.IH" 3
        by (subst fill_loop.simps) (auto simp: and1 count bit_simps comp_def simp del: upt_Suc)
    qed
  qed
qed

lemma survey_channel_eq:
  "survey_channel b2 b5 i =
     (let cs = (case b2 of None \<Rightarrow> [] | Some c \<Rightarrow> c) @ (case b5 of None \<Rightarrow> [] | Some c \<Rightarrow> c)
      in if i < length cs then Some (cs ! i) else None)"
  by (auto simp: survey_channel_def nth_append Let_def split: option.split)

lemma replace_first_undo: "y \<notin> set xs \<Longrightarrow> replace_first y x (replace_first x y xs) = xs"
  by (induction xs) auto

lemma replace_first_same [simp]: "replace_first x x xs = xs"
  by (induction xs) auto

lemma replace_first_in: "x \<in> set xs \<Longrightarrow> y \<in> set (replace_first x y xs)"
  by (induction xs) auto

text \<open>Waking and restoring the chip leaves a field alone that is none of the driver's own for it.\<close>

lemma keeps_ps:
  assumes "frames D g" "untraced g" "\<And>s x. g (s\<lparr>ps_usecount := x\<rparr>) = g s"
  shows "keeps g (ath9k_ps_wakeup D)" "keeps g (ath9k_ps_restore D)"
    "keeps g m \<Longrightarrow> keeps g (awake D m)"
proof -
  note k = keeps_rules keeps_call [OF assms(1,2)] keeps_with_lock [OF assms(2)]
  show w: "keeps g (ath9k_ps_wakeup D)" and r: "keeps g (ath9k_ps_restore D)"
    unfolding ath9k_ps_wakeup_def ath9k_ps_restore_def by (intro k; simp add: assms(3))+
  show "keeps g m \<Longrightarrow> keeps g (awake D m)" unfolding awake_def by (intro k w r)
qed

text \<open>Keys and the slots of a station.\<close>

definition put_slot :: "nat \<Rightarrow> u8 \<Rightarrow> u8 \<Rightarrow> (nat \<Rightarrow> node) \<Rightarrow> nat \<Rightarrow> node" where
  "put_slot n x y ns = ns(n := (ns n)\<lparr>key_idx := replace_first x y (key_idx (ns n))\<rparr>)"

lemma put_slot_simps [simp]:
  "put_slot n x x ns = ns"
  "y \<notin> set (key_idx (ns n)) \<Longrightarrow> put_slot n y x (put_slot n x y ns) = ns"
  "key_idx (put_slot n x y ns n) = replace_first x y (key_idx (ns n))"
  by (simp_all add: put_slot_def replace_first_undo)

lemma install_key_nodes:
  assumes "frames D nodes" "ps_key (nodes s n) = 0"
  shows "nodes (exec (install_key D v (Some n) key) s) =
      put_slot n 0 (hw_key_idx (fst (res (install_key D v (Some n) key) s))) (nodes s)"
    "cipher (fst (res (install_key D v (Some n) key) s)) = cipher key"
    "pairwise (fst (res (install_key D v (Some n) key) s)) = pairwise key"
  using assms by (simp_all add: install_key_def ath9k_del_ps_key_def set_node_def Let_def put_slot_def)

lemma disable_key_nodes:
  assumes "frames D nodes"
  shows "nodes (exec (disable_key D (Some n) key) s) = put_slot n (hw_key_idx key) 0 (nodes s)"
  using assms by (simp add: disable_key_def set_node_def put_slot_def)

definition key_refused :: "device \<Rightarrow> iftype \<Rightarrow> key_conf \<Rightarrow> bool" where
  "key_refused D t key \<longleftrightarrow> nohwcrypt D \<or>
     (t = IF_ADHOC \<or> t = IF_MESH_POINT) \<and> (cipher key = CIPHER_TKIP \<or> cipher key = CIPHER_CCMP) \<and> \<not> pairwise key"

lemma set_key_refused:
  assumes "key_refused D (vtype (vifs s v)) key"
  shows "exec (ath9k_set_key D cmd v sta key) s = s" "snd (res (ath9k_set_key D cmd v sta key) s) < 0"
    "fst (res (ath9k_set_key D cmd v sta key) s) = key"
  using assms by (auto simp: ath9k_set_key_def key_refused_def ENOSPC_def EOPNOTSUPP_def)

lemma set_key_nodes:
  assumes "frames D nodes" "frames D (\<lambda>s. vtype (vifs s v))" "\<not> key_refused D (vtype (vifs s v)) key" "ps_key (nodes s n) = 0"
  shows "nodes (exec (ath9k_set_key D SET_KEY v (Some n) key) s) =
      put_slot n 0 (hw_key_idx (fst (res (ath9k_set_key D SET_KEY v (Some n) key) s))) (nodes s)"
    "cipher (fst (res (ath9k_set_key D SET_KEY v (Some n) key) s)) = cipher key"
    "pairwise (fst (res (ath9k_set_key D SET_KEY v (Some n) key) s)) = pairwise key"
    "vtype (vifs (exec (ath9k_set_key D SET_KEY v (Some n) key) s) v) = vtype (vifs s v)"
    "nodes (exec (ath9k_set_key D DISABLE_KEY v (Some n) key) s) = put_slot n (hw_key_idx key) 0 (nodes s)"
proof -
  let ?g = "\<lambda>s. (nodes s, vtype (vifs s v))"
  have g: "frames D ?g" "untraced ?g" using assms(1,2) by (simp_all add: frames_def untraced_def)
  have k: "nodes (exec (ath9k_ps_wakeup D) t) = nodes t" "vtype (vifs (exec (ath9k_ps_wakeup D) t) v) = vtype (vifs t v)"
    "nodes (exec (ath9k_ps_restore D) t) = nodes t" "vtype (vifs (exec (ath9k_ps_restore D) t) v) = vtype (vifs t v)" for t
    using keepsD [OF keeps_ps(1) [OF g], of t] keepsD [OF keeps_ps(2) [OF g], of t] by simp_all
  define w where "w = exec (ath9k_ps_wakeup D) (s\<lparr>trace := Lock (Acquire Sc_mutex) # trace s\<rparr>)"
  have w: "nodes w = nodes s" "vtype (vifs w v) = vtype (vifs s v)" by (simp_all add: w_def k)
  have set: "nodes (exec (ath9k_set_key D SET_KEY v (Some n) key) s) = nodes (exec (install_key D v (Some n) key) w)"
    "vtype (vifs (exec (ath9k_set_key D SET_KEY v (Some n) key) s) v) = vtype (vifs (exec (install_key D v (Some n) key) w) v)"
    "res (ath9k_set_key D SET_KEY v (Some n) key) s = res (install_key D v (Some n) key) w"
    "nodes (exec (ath9k_set_key D DISABLE_KEY v (Some n) key) s) = nodes (exec (disable_key D (Some n) key) w)"
    using assms(3) by (auto simp add: ath9k_set_key_def key_refused_def awake_def with_lock_def k w_def)
  have "vtype (vifs (exec (install_key D v (Some n) key) w) v) = vtype (vifs w v)"
    using frames_world [OF assms(2)] by (simp add: install_key_def ath9k_del_ps_key_def set_node_def Let_def)
  with install_key_nodes [OF assms(1), of w n v key] disable_key_nodes [OF assms(1), of n key w]
  show "nodes (exec (ath9k_set_key D SET_KEY v (Some n) key) s) =
      put_slot n 0 (hw_key_idx (fst (res (ath9k_set_key D SET_KEY v (Some n) key) s))) (nodes s)"
    "cipher (fst (res (ath9k_set_key D SET_KEY v (Some n) key) s)) = cipher key"
    "pairwise (fst (res (ath9k_set_key D SET_KEY v (Some n) key) s)) = pairwise key"
    "vtype (vifs (exec (ath9k_set_key D SET_KEY v (Some n) key) s) v) = vtype (vifs s v)"
    "nodes (exec (ath9k_set_key D DISABLE_KEY v (Some n) key) s) = put_slot n (hw_key_idx key) 0 (nodes s)"
    using assms(4) by (simp_all add: set w)
qed

section \<open>Properties\<close>

text \<open>
  \<open>fill_chainmask\<close> spreads the antenna mask over the chains the chip has: bit \<open>j\<close> of the
  result is set exactly when the chip has chain \<open>j\<close> and the bit of the mask whose number is the
  count of the chip's chains below \<open>j\<close> is set; in particular no chain is enabled that the chip
  lacks.
\<close>

theorem chainmask_deposit:
  "bit (fill_chainmask cap new) j =
     (j < 32 \<and> bit cap j \<and> bit new (length (filter (bit cap) [0..<j]))) \<and>
   fill_chainmask cap new AND NOT cap = 0"
proof
  show *: "bit (fill_chainmask cap new) j =
      (j < 32 \<and> bit cap j \<and> bit new (length (filter (bit cap) [0..<j])))" for j
    by (simp add: fill_chainmask_def fill_loop_bit)
  show "fill_chainmask cap new AND NOT cap = 0"
    by (rule bit_eqI) (simp add: bit_simps *)
qed

text \<open>
  The survey callback enumerates the channels: index by index it yields the 2 GHz channels
  and then the 5 GHz channels, each with its own entry of the survey table, and past the last
  channel, and only there, the error that ends the enumeration; no lock stays held.
\<close>

theorem survey_enumerates:
  assumes "\<not> cfg_tx99 D" "locked s = Some L" "set L \<inter> all_locks = {}"
  shows "let cs = (case channels_2ghz D of None \<Rightarrow> [] | Some c \<Rightarrow> c) @
                  (case channels_5ghz D of None \<Rightarrow> [] | Some c \<Rightarrow> c);
             s' = exec (ath9k_get_survey D idx) s
    in res (ath9k_get_survey D idx) s =
         (if idx < length cs then Inr \<lparr>si_channel = cs ! idx, si_in_use = survey_in_use s' (cs ! idx),
                                        si_time = survey_time s' (cs ! idx)\<rparr>
          else Inl (- ENOENT)) \<and> locked s' = Some L"
proof -
  have "locked (exec (ath9k_get_survey D idx) s) = Some L"
    by (rule usesD [OF uses_config(6) [OF order_refl] assms(2,3)])
  then show ?thesis using assms(1)
    by (simp add: ath9k_get_survey_def survey_channel_eq with_lock_def Let_def)
qed


text \<open>A chip that assigns key index 4; the station has a key in its first slot already.\<close>

definition dev_keys :: device where
  "dev_keys = dev0\<lparr>world := (\<lambda>c s. case c of Vif (Key_config v sta k) \<Rightarrow> (4, s) | _ \<Rightarrow> world0 c s)\<rparr>"

definition softc_keys :: softc where
  "softc_keys = softc0\<lparr>nodes := (nodes softc0)(5 := (nodes softc0 5)\<lparr>key_idx := [9, 0, 0, 0]\<rparr>)\<rparr>"


theorem survey_enumerates_witness:
  "res (ath9k_get_survey dev0 7) softc0 = Inl (- 2)"
  using survey_enumerates [of dev0 softc0 "[]" 7]
  by (simp add: dev0_def softc0_def locked_def Let_def ENOENT_def)

text \<open>
  The registers of the interframe spaces are left alone by the power functions and by the
  functions of the transmit queues.
\<close>

definition ifs_regs :: "device \<Rightarrow> u32 set" where
  "ifs_regs D = {AR_D_GBL_IFS_SIFS (chip_regs D), AR_D_GBL_IFS_SLOT (chip_regs D), AR_D_GBL_IFS_EIFS (chip_regs D)}"

definition leaves_ifs :: "device \<Rightarrow> bool" where
  "leaves_ifs D \<longleftrightarrow> (\<forall>c s. \<forall>r \<in> ifs_regs D.
     (\<forall>p. c = Power p \<longrightarrow> mem (snd (world D c s)) r = mem s r) \<and>
     (\<forall>t. c = Tx t \<longrightarrow> mem (snd (world D c s)) r = mem s r))"

lemma leaves_ifsD:
  assumes "leaves_ifs D" "r \<in> ifs_regs D"
  shows "mem (snd (world D (Power p) s)) r = mem s r" "mem (snd (world D (Tx t) s)) r = mem s r"
  using assms unfolding leaves_ifs_def by blast+

lemma mem_ps:
  assumes "leaves_ifs D" "r \<in> ifs_regs D"
  shows "mem (exec (ath9k_ps_wakeup D) s) r = mem s r" "mem (exec (ath9k_ps_restore D) s) r = mem s r"
  using leaves_ifsD [OF assms]
  by (simp_all add: ath9k_ps_wakeup_def ath9k_ps_restore_def with_lock_def only_if_def)

text \<open>
  Setting the parameters of a queue keeps the extended interframe space tied to the
  arbitration space: after the best effort queue is configured, with the option on, EIFS is
  SIFS plus AIFS slots as the chip's clock registers say, in 32 bits; the other queues and a
  number that names no queue leave all three registers alone.
\<close>

theorem eifs_tracks_aifs:
  assumes "leaves_ifs D" "chip_ok (chip_regs D)"
  shows "let K = chip_regs D; s' = exec (ath9k_conf_tx D queue p) s
    in mem s' (AR_D_GBL_IFS_SIFS K) = mem s (AR_D_GBL_IFS_SIFS K) \<and>
       mem s' (AR_D_GBL_IFS_SLOT K) = mem s (AR_D_GBL_IFS_SLOT K) \<and>
       mem s' (AR_D_GBL_IFS_EIFS K) =
         (if queue = AC_BE \<and> eifs_equal_to_aifs D
          then mem s' (AR_D_GBL_IFS_SIFS K) + ucast (qp_aifs p) * mem s' (AR_D_GBL_IFS_SLOT K)
          else mem s (AR_D_GBL_IFS_EIFS K))"
proof -
  have r: "AR_D_GBL_IFS_SIFS (chip_regs D) \<in> ifs_regs D" "AR_D_GBL_IFS_SLOT (chip_regs D) \<in> ifs_regs D"
    "AR_D_GBL_IFS_EIFS (chip_regs D) \<in> ifs_regs D" by (simp_all add: ifs_regs_def)
  have ne: "AR_D_GBL_IFS_EIFS (chip_regs D) \<noteq> AR_D_GBL_IFS_SIFS (chip_regs D)"
    "AR_D_GBL_IFS_EIFS (chip_regs D) \<noteq> AR_D_GBL_IFS_SLOT (chip_regs D)"
    using assms(2) by (auto simp: chip_ok_def)
  note k = r [THEN mem_ps(1) [OF assms(1)]] r [THEN mem_ps(2) [OF assms(1)]]
    r [THEN leaves_ifsD(2) [OF assms(1)]]
  show ?thesis using ne ne [symmetric]
    by (simp add: ath9k_conf_tx_def awake_def with_lock_def update_eifs_def k Let_def only_if_def AC_BE_def
        ath_bus.rd_res ath_bus.rd_peek
        NUM_ACS_def)
qed

theorem eifs_tracks_aifs_witness:
  "mem (exec (ath9k_conf_tx dev0 2 \<lparr>qp_aifs = 3, qp_cw_min = 15, qp_cw_max = 1023, qp_txop = 0\<rparr>)
     (softc0\<lparr>mem := (\<lambda>r. if r = 0x1030 then 400 else if r = 0x1070 then 360 else 0)\<rparr>)) 0x10b0 = 1480"
proof -
  have "leaves_ifs dev0" by (simp add: leaves_ifs_def world0_def split: option.split)
  moreover have "chip_ok (chip_regs dev0)" by (simp add: dev0_def chip_ok_ar9331)
  ultimately show ?thesis
    using eifs_tracks_aifs [of dev0 2 "\<lparr>qp_aifs = 3, qp_cw_min = 15, qp_cw_max = 1023, qp_txop = 0\<rparr>"
      "softc0\<lparr>mem := (\<lambda>r. if r = 0x1030 then 400 else if r = 0x1070 then 360 else 0)\<rparr>"]
    by (simp add: Let_def dev0_def ar9331_def AC_BE_def)
qed

end
