(* ===== verification/Ath_Regd.thy ===== *)
theory Ath_Regd
  imports Ath_Power
begin

text \<open>
  The parts of \<open>ath9k/init.c\<close> that set the transmission power: the regulatory notifier, the test
  of all channels at probe time, and the entropy read from the chip afterwards. The power limit of
  the regulatory domain and of a channel are results of calls; \<open>MAX_RATE_POWER\<close> is a parameter.
\<close>

section \<open>Definitions\<close>

definition ath9k_reg_notifier :: "device \<Rightarrow> u8 \<Rightarrow> (softc, unit) state" where
  "ath9k_reg_notifier D dfs_region = do {
     do_call D (Init Reg_notifier_apply);
     cur \<leftarrow> gets curchan;
     case cur of
       None \<Rightarrow> ret ()
     | Some c \<Rightarrow> do {
         max_power \<leftarrow> call D (Init (Chan_max_power c));
         modify (\<lambda>s. s\<lparr>txpowlimit := ucast (2 * max_power)\<rparr>);
         ath9k_ps_wakeup D;
         lim \<leftarrow> gets txpowlimit;
         do_call D (Init (Hw_set_txpowerlimit (ucast lim) False));
         power_limit \<leftarrow> call D (Init Reg_power_limit);
         modify (\<lambda>s. s\<lparr>curtxpow := ucast power_limit\<rparr>);
         dfs \<leftarrow> gets dfs_detector;
         only_if dfs (do_call D (Init (Dfs_set_domain dfs_region)));
         ath9k_ps_restore D
       }
   }"

definition try_channel :: "device \<Rightarrow> u32 \<Rightarrow> nat \<Rightarrow> (softc, unit) state" where
  "try_channel D max_rate_power c = do {
     modify (\<lambda>s. s\<lparr>curchan := Some c\<rparr>);
     do_call D (Reset (Get_channel c));
     do_call D (Init (Hw_set_txpowerlimit max_rate_power True))
   }"

definition ath9k_init_band_txpower :: "device \<Rightarrow> u32 \<Rightarrow> nat list option \<Rightarrow> (softc, unit) state" where
  "ath9k_init_band_txpower D max_rate_power sband =
     for_each (try_channel D max_rate_power) (case sband of None \<Rightarrow> [] | Some cs \<Rightarrow> cs)"

definition ath9k_init_txpower_limits :: "device \<Rightarrow> u32 \<Rightarrow> bool \<Rightarrow> bool \<Rightarrow> (softc, unit) state" where
  "ath9k_init_txpower_limits D max_rate_power cap_2ghz cap_5ghz = do {
     cur \<leftarrow> gets curchan;
     only_if cap_2ghz (ath9k_init_band_txpower D max_rate_power (channels_2ghz D));
     only_if cap_5ghz (ath9k_init_band_txpower D max_rate_power (channels_5ghz D));
     only_if (cur \<noteq> None) (modify (\<lambda>s. s\<lparr>curchan := cur\<rparr>))
   }"

definition ath_get_initial_entropy :: "device \<Rightarrow> (softc, unit) state" where
  "ath_get_initial_entropy D = do {
     cur \<leftarrow> gets curchan;
     do_call D (Reset (Hw_reset cur False False));
     do_call D (Init Get_adc_entropy);
     do_call D (Init Add_device_randomness)
   }"

section \<open>Locks and the use count\<close>

lemma uses_regd [uses_intros]:
  "{Sc_pm_lock, Cc_lock} \<subseteq> A \<Longrightarrow> uses A (ath9k_reg_notifier D r)"
  "uses A (try_channel D m c)"
  "uses A (ath9k_init_band_txpower D m b)"
  "uses A (ath9k_init_txpower_limits D m c2 c5)"
  "uses A (ath_get_initial_entropy D)"
  unfolding ath9k_reg_notifier_def ath9k_init_txpower_limits_def ath9k_init_band_txpower_def try_channel_def
    ath_get_initial_entropy_def
  by (intro uses_intros; simp)+

lemma keeps_regd [keeps_intros]:
  assumes "steady D g"
  shows "keeps g (ath9k_init_txpower_limits D m c2 c5)" "keeps g (ath_get_initial_entropy D)"
  using assms unfolding ath9k_init_txpower_limits_def ath9k_init_band_txpower_def try_channel_def
    ath_get_initial_entropy_def
  by (intro keeps_intros assms steadyD(2) [OF assms] unwrittenD [OF steadyD(2) [OF assms]]; simp add: sc_view_def)+

lemma keeps_reg_notifier [keeps_intros]:
  assumes "steady D g"
  shows "keeps g (ath9k_reg_notifier D r)"
proof -
  note u = steadyD(2) [OF assms]
  define body where "body = (do {
     lim \<leftarrow> gets txpowlimit;
     do_call D (Init (Hw_set_txpowerlimit (ucast lim) False));
     power_limit \<leftarrow> call D (Init Reg_power_limit);
     modify (\<lambda>s. s\<lparr>curtxpow := ucast power_limit\<rparr>);
     dfs \<leftarrow> gets dfs_detector;
     only_if dfs (do_call D (Init (Dfs_set_domain r))) })"
  have "keeps g body"
    unfolding body_def by (intro keeps_intros assms u unwrittenD [OF u]; simp add: sc_view_def)
  then have "keeps g (do { ath9k_ps_wakeup D; body; ath9k_ps_restore D })" by (intro keeps_woken assms)
  then have woken: "g (exec (ath9k_ps_restore D) (exec body (exec (ath9k_ps_wakeup D) s))) = g s" for s
    by (simp add: keeps_def)
  define pre where "pre = (\<lambda>c. do { max_power \<leftarrow> call D (Init (Chan_max_power c));
    modify (\<lambda>s. s\<lparr>txpowlimit := ucast (2 * max_power)\<rparr>) })"
  define app where "app = do_call D (Init Reg_notifier_apply)"
  have eq: "exec (ath9k_reg_notifier D r) s = (case curchan (exec app s) of None \<Rightarrow> exec app s
     | Some c \<Rightarrow> exec (ath9k_ps_restore D) (exec body (exec (ath9k_ps_wakeup D) (exec (pre c) (exec app s)))))" for s
    unfolding ath9k_reg_notifier_def body_def pre_def app_def by (simp split: option.split)
  have "keeps g (pre c)" for c
    unfolding pre_def by (intro keeps_intros assms unwrittenD [OF u]; simp add: sc_view_def)
  moreover have "keeps g app" unfolding app_def by (intro keeps_intros assms)
  ultimately show ?thesis
    unfolding keeps_def eq using woken by (auto simp: keeps_def split: option.split)
qed

end
