(* ===== verification/Ath_Ops.thy ===== *)
theory Ath_Ops
  imports Ath_Config Ath_Interrupt Ath_Regd
begin

text \<open>
  The driver as mac80211 and the kernel see it: the callbacks of the table \<open>ath9k_ops\<close>
  (\<open>ath9k/main.c\<close>), the interrupt handler, the tasklet, the reset work, the timers of the full sleep and of the
  P2P power saving, and the regulatory notifier of \<open>ath9k/init.c\<close>, as events that run one after the other, in any order.
\<close>

section \<open>Events\<close>

datatype iface_op =
    Op_start | Op_stop | Op_add_interface nat | Op_change_interface nat iftype bool
  | Op_remove_interface nat | Op_bss_info_changed nat "bss_change set" | Op_tx frame | Op_flush bool
  | Op_tx_frames_pending | Op_tx_last_beacon

datatype conf_op =
    Op_config "conf_change set" | Op_configure_filter u32 | Op_conf_tx nat queue_params
  | Op_get_tsf | Op_set_tsf "64 word" | Op_reset_tsf | Op_get_survey nat | Op_set_coverage_class u8
  | Op_set_antenna u32 u32 | Op_get_antenna | Op_sw_scan_start | Op_sw_scan_complete

datatype sta_op =
    Op_sta_add nat nat | Op_sta_remove nat | Op_sta_notify nat sta_notify_cmd
  | Op_set_key set_key_cmd nat "nat option" key_conf | Op_ampdu_action ampdu_action nat u16

datatype event =
    Iface_op iface_op | Conf_op conf_op | Sta_op sta_op | Ev_isr | Ev_tasklet | Ev_reset_work | Ev_p2p_timer
  | Ev_sleep_timer | Ev_reg_notifier u8

definition discard :: "(softc, 'a) state \<Rightarrow> (softc, unit) state" where
  "discard m = do { _ \<leftarrow> m; ret () }"

fun ath9k_iface_ops :: "device \<Rightarrow> iface_op \<Rightarrow> (softc, unit) state" where
  "ath9k_iface_ops D Op_start = discard (ath9k_start D)"
| "ath9k_iface_ops D Op_stop = ath9k_stop D"
| "ath9k_iface_ops D (Op_add_interface v) = discard (ath9k_add_interface D v)"
| "ath9k_iface_ops D (Op_change_interface v t p) = discard (ath9k_change_interface D v t p)"
| "ath9k_iface_ops D (Op_remove_interface v) = ath9k_remove_interface D v"
| "ath9k_iface_ops D (Op_bss_info_changed v ch) = ath9k_bss_info_changed D v ch"
| "ath9k_iface_ops D (Op_tx f) = ath9k_tx D f"
| "ath9k_iface_ops D (Op_flush dr) = ath9k_flush D dr"
| "ath9k_iface_ops D Op_tx_frames_pending = discard (ath9k_tx_frames_pending D)"
| "ath9k_iface_ops D Op_tx_last_beacon = discard (ath9k_tx_last_beacon D)"

fun ath9k_conf_ops :: "device \<Rightarrow> conf_op \<Rightarrow> (softc, unit) state" where
  "ath9k_conf_ops D (Op_config ch) = discard (ath9k_config D ch)"
| "ath9k_conf_ops D (Op_configure_filter fl) = discard (ath9k_configure_filter D fl)"
| "ath9k_conf_ops D (Op_conf_tx q p) = discard (ath9k_conf_tx D q p)"
| "ath9k_conf_ops D Op_get_tsf = discard (ath9k_get_tsf D)"
| "ath9k_conf_ops D (Op_set_tsf t) = ath9k_set_tsf D t"
| "ath9k_conf_ops D Op_reset_tsf = ath9k_reset_tsf D"
| "ath9k_conf_ops D (Op_get_survey i) = discard (ath9k_get_survey D i)"
| "ath9k_conf_ops D (Op_set_coverage_class c) = ath9k_set_coverage_class D c"
| "ath9k_conf_ops D (Op_set_antenna tx rx) = discard (ath9k_set_antenna D tx rx)"
| "ath9k_conf_ops D Op_get_antenna = discard ath9k_get_antenna"
| "ath9k_conf_ops D Op_sw_scan_start = ath9k_sw_scan_start"
| "ath9k_conf_ops D Op_sw_scan_complete = ath9k_sw_scan_complete"

fun ath9k_sta_ops :: "device \<Rightarrow> sta_op \<Rightarrow> (softc, unit) state" where
  "ath9k_sta_ops D (Op_sta_add v n) = discard (ath9k_sta_add D v n)"
| "ath9k_sta_ops D (Op_sta_remove n) = discard (ath9k_sta_remove D n)"
| "ath9k_sta_ops D (Op_sta_notify n cmd) = ath9k_sta_notify D n cmd"
| "ath9k_sta_ops D (Op_set_key cmd v sta key) = discard (ath9k_set_key D cmd v sta key)"
| "ath9k_sta_ops D (Op_ampdu_action a n tid) = discard (ath9k_ampdu_action D a n tid)"

fun ath9k_event :: "device \<Rightarrow> event \<Rightarrow> (softc, unit) state" where
  "ath9k_event D (Iface_op c) = ath9k_iface_ops D c"
| "ath9k_event D (Conf_op c) = ath9k_conf_ops D c"
| "ath9k_event D (Sta_op c) = ath9k_sta_ops D c"
| "ath9k_event D Ev_isr = discard (ath_isr D)"
| "ath9k_event D Ev_tasklet = ath9k_tasklet D"
| "ath9k_event D Ev_reset_work = ath_reset_work D"
| "ath9k_event D Ev_p2p_timer = ath9k_p2p_ps_timer D"
| "ath9k_event D Ev_sleep_timer = ath_ps_full_sleep D"
| "ath9k_event D (Ev_reg_notifier r) = ath9k_reg_notifier D r"

section \<open>Every event is balanced\<close>

lemma discard_rules [uses_intros]: "uses A m \<Longrightarrow> uses A (discard m)"
  unfolding discard_def by (intro uses_intros)

lemma discard_keeps [keeps_intros]: "keeps g m \<Longrightarrow> keeps g (discard m)"
  unfolding discard_def by (intro keeps_rules)

lemma uses_iface_ops: "uses all_locks (ath9k_iface_ops D c)"
  by (cases c) (simp_all, (intro uses_intros; auto simp: lock_sets)+)

lemma uses_conf_ops: "uses all_locks (ath9k_conf_ops D c)"
  by (cases c) (simp_all, (intro uses_intros; auto simp: lock_sets)+)

lemma uses_sta_ops: "uses all_locks (ath9k_sta_ops D c)"
  by (cases c) (simp_all, (intro uses_intros; auto simp: lock_sets)+)

lemma uses_event: "uses all_locks (ath9k_event D e)"
  by (cases e) (simp_all add: uses_iface_ops uses_conf_ops uses_sta_ops, (intro uses_intros; auto simp: lock_sets)+)

lemma keeps_event_steady:
  assumes "steady D g" "\<And>f. e = Iface_op (Op_tx f) \<Longrightarrow> keeps g (ath9k_tx D f)"
  shows "keeps g (ath9k_event D e)"
proof -
  note k = keeps_intros assms(1) steadyD(2) [OF assms(1)]
  have "keeps g (ath9k_iface_ops D c)" if "e = Iface_op c" for c
    using assms(2) that by (cases c) (simp_all, (intro k)+)
  moreover have "keeps g (ath9k_conf_ops D c)" for c
    by (cases c) (simp_all, (intro k)+)
  moreover have "keeps g (ath9k_sta_ops D c)" for c
    by (cases c) (simp_all, (intro k)+)
  ultimately show ?thesis
    by (cases e) (simp_all, (intro k)+)
qed

lemma keeps_event:
  assumes "steady D g" "\<And>s. g (s\<lparr>txbuf_fff := True\<rparr>) = g s"
  shows "keeps g (ath9k_event D e)"
  by (intro keeps_event_steady assms(1) keeps_transmit assms(2))

section \<open>Runs\<close>

text \<open>A component driven by events, and what each of them keeps.\<close>

locale event_driven =
  fixes step :: "'e \<Rightarrow> ('s, unit) state"
    and inv :: "'s \<Rightarrow> bool"
    and obs :: "'s \<Rightarrow> 'o"
    and good :: bool
  assumes step_inv: "good \<Longrightarrow> inv s \<Longrightarrow> inv (exec (step e) s)"
    and step_obs: "good \<Longrightarrow> inv s \<Longrightarrow> obs (exec (step e) s) = obs s"
begin

inductive reaches :: "'s \<Rightarrow> 's \<Rightarrow> bool" for s where
  here: "reaches s s"
| there: "reaches s t \<Longrightarrow> reaches s (exec (step e) t)"

lemma reaches_inv:
  assumes good "inv s"
  shows "reaches s t \<Longrightarrow> inv t \<and> obs t = obs s"
  by (induction rule: reaches.induct) (use assms step_inv step_obs in auto)

lemma reaches_run: "reaches s (exec (for_each step es) s)"
proof (induction es rule: rev_induct)
  case Nil
  then show ?case by (simp add: here)
next
  case (snoc e es)
  have "exec (for_each step (es @ [e])) s = exec (step e) (exec (for_each step es) s)"
    by (induction es arbitrary: s) simp_all
  then show ?case using there [OF snoc, of e] by simp
qed

lemma run_inv: "good \<Longrightarrow> inv s \<Longrightarrow> inv (exec (for_each step es) s) \<and> obs (exec (for_each step es) s) = obs s"
  using reaches_inv reaches_run by blast

end

interpretation drv: event_driven "ath9k_event D" "\<lambda>s. locked s = Some []" ps_usecount "frames D ps_usecount" for D
  by unfold_locales (simp_all add: usesD [OF uses_event] keepsD [OF keeps_event [OF steady_usecount]])

interpretation drv_order: event_driven "ath9k_event D" "\<lambda>s. locked s = Some [] \<and> in_order s" "\<lambda>s. ()" True for D
  by unfold_locales (auto simp: usesD [OF uses_event] intro: uses_order [OF uses_event])

section \<open>Properties\<close>

text \<open>
  C6: No sequence of callbacks, interrupts, tasklet runs, reset works and timers, whatever the
  functions of other files return, leaks a lock or a user of the chip: from a state without
  locks every lock taken on the way is given back, none is taken while it is held, and the
  count of users is what it was.
\<close>

theorem driver_balanced:
  assumes "frames D ps_usecount" "locked s = Some []"
  shows "locked (exec (for_each (ath9k_event D) es) s) = Some [] \<and>
    ps_usecount (exec (for_each (ath9k_event D) es) s) = ps_usecount s"
  by (rule drv.run_inv [OF assms])

theorem driver_balanced_witness:
  "locked (exec (for_each (ath9k_event dev0) [Iface_op Op_start, Iface_op (Op_add_interface 0), Ev_isr, Ev_tasklet,
     Conf_op (Op_config {CH_CHANNEL, CH_PS}), Ev_reset_work, Iface_op Op_stop]) softc0) = Some []"
proof -
  have "frames dev0 ps_usecount" by (rule frames_world0) simp
  moreover have "locked softc0 = Some []" by (simp add: locked_def softc0_def)
  ultimately show ?thesis by (rule driver_balanced [THEN conjunct1])
qed

text \<open>
  C7: The driver's locks cannot deadlock. Take any contexts (processors, or handlers that interrupt one
  another), each stopped in a run of events of its own at a lock it asks for: some lock asked for is
  held by none of them. Every handler takes its locks in one order of nesting.
\<close>

theorem driver_deadlock_free:
  fixes w :: "'i \<Rightarrow> drv_lock" and L :: "'i \<Rightarrow> drv_lock list" and s :: "'i \<Rightarrow> softc"
  assumes "finite I" "I \<noteq> {}" "\<And>i. i \<in> I \<Longrightarrow> trace (s i) = []"
    and "\<And>i. i \<in> I \<Longrightarrow> waits (w i) (L i) (exec (for_each (ath9k_event (D i)) (es i)) (s i))"
  shows "\<not> w ` I \<subseteq> (\<Union>i \<in> I. set (L i))"
proof (rule no_wait_cycle [OF assms(1,2)])
  fix i h assume i: "i \<in> I" and h: "h \<in> set (L i)"
  have "locked (s i) = Some [] \<and> in_order (s i)" using assms(3) [OF i] by (simp add: locked_def in_order_def)
  then have "in_order (exec (for_each (ath9k_event (D i)) (es i)) (s i))"
    using drv_order.run_inv [of "s i" "D i" "es i"] by simp
  then show "h < w i" using assms(4) [OF i] h by (rule waits_above)
qed

theorem driver_deadlock_free_witness:
  "\<not> (\<lambda>i. if i then Cc_lock else Sc_pm_lock) ` {True, False} \<subseteq>
     (\<Union>i \<in> {True, False}. set (if i then [Sc_pm_lock] else [Sc_pcu_lock]))"
proof (rule driver_deadlock_free [where s = "\<lambda>i. softc0" and D = "\<lambda>i. dev0" and es = "\<lambda>i. [Ev_tasklet]"])
  let ?late = "[Release Sc_pm_lock, Acquire Sc_pm_lock, Release Sc_pcu_lock, Release Sc_pm_lock]"
  let ?mid = "[Acquire Sc_pcu_lock, Release Sc_pm_lock, Release Cc_lock]"
  have events: "lock_events (trace (exec (for_each (ath9k_event dev0) [Ev_tasklet]) softc0)) =
    ?late @ [Acquire Sc_pm_lock] @ ?mid @ [Acquire Cc_lock, Acquire Sc_pm_lock]"
    by (simp add: ath9k_tasklet_def awake_def ath9k_ps_wakeup_def ath9k_ps_restore_def with_lock_def check_fatal_def
        check_watchdog_def check_gtt_def tasklet_work_def check_tsfoor_def world0_def softc0_def dev0_def)
  have "waits Cc_lock [Sc_pm_lock] (exec (for_each (ath9k_event dev0) [Ev_tasklet]) softc0)"
    unfolding waits_def events
    by (rule exI [of _ "?late @ [Acquire Sc_pm_lock] @ ?mid"], rule exI [of _ "[Acquire Sc_pm_lock]"]) simp
  moreover have "waits Sc_pm_lock [Sc_pcu_lock] (exec (for_each (ath9k_event dev0) [Ev_tasklet]) softc0)"
    unfolding waits_def events
    by (rule exI [of _ ?late], rule exI [of _ "?mid @ [Acquire Cc_lock, Acquire Sc_pm_lock]"]) simp
  ultimately show "waits (if i then Cc_lock else Sc_pm_lock) (if i then [Sc_pm_lock] else [Sc_pcu_lock])
      (exec (for_each (ath9k_event dev0) [Ev_tasklet]) softc0)" for i
    by simp
qed (simp_all add: softc0_def)

end
