(* ===== verification/Ath_Init.thy ===== *)
theory Ath_Init
  imports Ath_Ops Kernel_Resources
begin

text \<open>
  Bringing a device up and taking it down (\<open>ath9k/init.c\<close>): \<open>ath9k_init_softc\<close> and
  \<open>ath9k_init_device\<close> with their error labels, the configuration they leave in \<open>struct ath_hw\<close>,
  \<open>struct ath_softc\<close> and \<open>struct ieee80211_hw\<close>, and \<open>ath9k_deinit_device\<close>. The results of the
  functions of other files and of the kernel are inputs (\<open>init_env\<close>); one that succeeds adds what
  it allocates to the table of held resources. Memory of the device (\<open>devm_kzalloc\<close>,
  \<open>dmam_alloc_coherent\<close>) is given back by the kernel and is no entry of the table. A use of a null
  pointer is recorded in \<open>null_deref\<close>.
\<close>

section \<open>State\<close>

datatype drv_res =
    Dfs_detector_res | Eeprom_blob | Gpio_out | Chip | Tx_queue nat | Btcoex | P2p_timer | Rx_dma
  | Mac80211 | Debugfs | Leds

datatype hw_cap = CAP_HT | CAP_2GHZ | CAP_5GHZ | CAP_ANT_DIV_COMB | CAP_BT_ANT_DIV

datatype ah_flag = AH_USE_EEPROM | AH_NO_EEP_SWAP

text \<open>The hooks of \<open>ah->reg_ops\<close>.\<close>

record reg_ops =
  ops_read :: "u32 \<Rightarrow> (softc, u32) state"
  ops_write :: "u32 \<Rightarrow> u32 \<Rightarrow> (softc, unit) state"
  ops_rmw :: "u32 \<Rightarrow> u32 \<Rightarrow> u32 \<Rightarrow> (softc, u32) state"

text \<open>\<open>struct ath_hw\<close> with its \<open>struct ath_common\<close>, as far as \<open>init.c\<close> writes them.\<close>

record ath_hw =
  force_quiet_bit_delay :: int
  force_quiet_bit_restore :: bool
  force_quiet_bit_restore_in :: int
  current_timing_count :: int
  max_timing_count :: int
  ah_eifs_equal_to_aifs :: bool
  unlocking_logging :: bool
  ah_unlocked :: bool
  maxCCApwr :: int
  hw_devid :: u16
  hw_reg_ops :: "reg_ops option"
  ah_flags :: "ah_flag set"
  led_pin :: int
  ah_gpio_mask :: u32
  ah_gpio_val :: u32
  is_clk_25mhz :: bool
  get_mac_revision :: "nat option"
  external_reset :: "nat option"
  disable_2ghz :: bool
  disable_5ghz :: bool
  hw_caps :: "hw_cap set"
  max_rxchains :: nat
  max_txchains :: nat
  eeprom_blob :: bool
  tx_gain_buffalo :: bool
  xlna_gpio :: u32
  xatten_margin_cfg :: bool
  alt_mingainidx :: bool
  ant_ctrl_comm2g :: u32
  pcie_waen :: u32
  no_pll_pwrsave :: bool
  debug_mask :: u32
  btcoex_enabled :: bool
  disable_ani :: bool
  bt_ant_diversity :: bool
  cachelsz :: int

text \<open>The rest of \<open>struct ath_softc\<close> that only \<open>init.c\<close> writes.\<close>

record sc_extra =
  tx99_power :: int
  txq_max_pending :: "nat \<Rightarrow> nat"
  mac80211_qnum :: "nat \<Rightarrow> nat"
  beaconq :: nat
  cabq :: "nat option"
  uapsdq :: "nat option"
  ant_comb_count :: u16
  low_rssi_thresh :: int
  fast_div_bias :: int
  spec_short_repeat :: bool
  spec_count :: u8
  spec_period :: u8
  spec_fft_period :: u8

datatype hw_flag =
    RX_INCLUDES_FCS | HOST_BROADCAST_PS_BUFFERING | SIGNAL_DBM | PS_NULLFUNC_STACK | SPECTRUM_MGMT
  | REPORTS_TX_ACK_STATUS | SUPPORTS_RC_TABLE | SUPPORTS_HT_CCK_RATES | SUPPORTS_PS | AMPDU_AGGREGATION
  | MFP_CAPABLE

datatype wiphy_flag =
    PS_ON_BY_DEFAULT | IBSS_RSN | SUPPORTS_TDLS | HAS_REMAIN_ON_CHANNEL | SUPPORTS_5_10_MHZ
  | HAS_CHANNEL_SWITCH | AP_UAPSD

datatype wiphy_feature = ACTIVE_MONITOR | AP_MODE_CHAN_WIDTH_CHANGE | Other_feature nat

datatype iface_mode = M_P2P_GO | M_P2P_CLIENT | M_AP | M_WDS | M_STATION | M_ADHOC | M_MESH_POINT

text \<open>\<open>struct ieee80211_hw\<close> with its \<open>wiphy\<close>.\<close>

record ieee80211_hw =
  hw_flags :: "hw_flag set"
  mcs_have_stbc :: bool
  wiphy_features :: "wiphy_feature set"
  interface_modes :: "iface_mode set"
  has_if_comb :: bool
  wiphy_flags :: "wiphy_flag set"
  hw_queues :: nat
  hw_max_rates :: nat
  hw_max_listen_interval :: nat
  hw_max_rate_tries :: nat
  available_antennas_rx :: u32
  available_antennas_tx :: u32
  band_2ghz :: bool
  band_5ghz :: bool
  perm_addr :: "u8 list"

record driver = "drv_res holds" +
  ah_null :: bool           \<comment> \<open>the exported pointer \<open>ath9k_ah\<close> is null\<close>
  dsc :: softc
  ah :: ath_hw
  scx :: sc_extra
  hw :: ieee80211_hw
  null_deref :: bool

section \<open>Inputs\<close>

text \<open>\<open>struct ath9k_platform_data\<close>; functions are named by numbers.\<close>

record platform_data =
  pd_use_eeprom :: bool
  pd_gpio_mask :: u32
  pd_gpio_val :: u32
  pd_led_pin :: int
  pd_is_clk_25mhz :: bool
  pd_get_mac_revision :: "nat option"
  pd_external_reset :: "nat option"
  pd_disable_2ghz :: bool
  pd_disable_5ghz :: bool
  pd_endian_check :: bool
  pd_macaddr :: "u8 list option"
  pd_eeprom_name :: "string option"
  pd_tx_gain_buffalo :: bool

text \<open>Module parameters and build options.\<close>

record mod_params =
  p_debug :: u32
  p_nohwcrypt :: bool
  p_btcoex_enable :: int
  p_bt_ant_diversity :: bool
  p_ps_enable :: bool
  cfg_pcoem :: bool

text \<open>
  One attempt: what the bus glue passes in and what the functions of the kernel and of other
  files return. An integer result is zero or an error.
\<close>

record init_env =
  ie_params :: mod_params
  ie_pdata :: "platform_data option"
  ie_bus_pci :: bool
  ie_driver_data :: u32
  ie_sc :: softc              \<comment> \<open>the fresh \<open>struct ath_softc\<close>\<close>
  ie_ah :: ath_hw             \<comment> \<open>\<open>devm_kzalloc\<close>: all zero\<close>
  ie_hw :: ieee80211_hw
  ie_scx :: sc_extra
  ie_kzalloc :: bool
  ie_dfs :: bool
  ie_firmware :: int
  ie_firmware_found :: bool
  ie_cachesize :: int
  ie_gpio :: int
  ie_hw_init :: int
  ie_caps :: "hw_cap set \<Rightarrow> hw_cap set"   \<comment> \<open>what \<open>ath9k_hw_init\<close> makes of the capabilities\<close>
  ie_rxchains :: nat
  ie_txchains :: nat
  ie_beaconq :: nat
  ie_txq :: "nat \<Rightarrow> nat option"   \<comment> \<open>\<open>ath_txq_setup\<close>: the queue given to the n-th request, or null\<close>
  ie_init_btcoex :: int
  ie_channels_rates :: int
  ie_p2p_timer :: bool
  ie_aspm_init :: bool        \<comment> \<open>the bus has this operation\<close>
  ie_srev_9280_20 :: bool
  ie_srev_9160_10 :: bool
  ie_regd_init :: int
  ie_tx_init :: int
  ie_rx_init :: int
  ie_register_hw :: int
  ie_init_debug :: int
  ie_world_regd :: bool
  ie_regulatory_hint :: int
  ie_slot_time_9 :: u32       \<comment> \<open>\<open>ATH9K_SLOT_TIME_9\<close>\<close>
  ie_max_rate_power :: u32    \<comment> \<open>\<open>MAX_RATE_POWER\<close>\<close>

section \<open>Access\<close>

definition on_sc :: "(softc, 'a) state \<Rightarrow> (driver, 'a) state" where
  "on_sc m = State (\<lambda>s. (res m (dsc s), s\<lparr>dsc := exec m (dsc s)\<rparr>))"

definition mod_sc :: "(softc \<Rightarrow> softc) \<Rightarrow> (driver, unit) state" where
  "mod_sc f = modify (\<lambda>s. s\<lparr>dsc := f (dsc s)\<rparr>)"

definition mod_ah :: "(ath_hw \<Rightarrow> ath_hw) \<Rightarrow> (driver, unit) state" where
  "mod_ah f = modify (\<lambda>s. s\<lparr>ah := f (ah s)\<rparr>)"

definition mod_scx :: "(sc_extra \<Rightarrow> sc_extra) \<Rightarrow> (driver, unit) state" where
  "mod_scx f = modify (\<lambda>s. s\<lparr>scx := f (scx s)\<rparr>)"

definition mod_hw :: "(ieee80211_hw \<Rightarrow> ieee80211_hw) \<Rightarrow> (driver, unit) state" where
  "mod_hw f = modify (\<lambda>s. s\<lparr>hw := f (hw s)\<rparr>)"

lemmas mod_defs = mod_sc_def mod_ah_def mod_scx_def mod_hw_def

lemma exec_on_sc [simp]: "exec (on_sc m) s = s\<lparr>dsc := exec m (dsc s)\<rparr>"
  by (simp add: on_sc_def exec_def)

lemma res_on_sc [simp]: "res (on_sc m) s = res m (dsc s)"
  by (simp add: on_sc_def res_def)

section \<open>Configuration\<close>

definition ATH_MAX_QDEPTH :: nat where "ATH_MAX_QDEPTH = 512 div 4 - 5"
definition ATH_TXPOWER_MAX :: u16 where "ATH_TXPOWER_MAX = 100"
definition ATH_ANT_DIV_COMB_INIT_COUNT :: u16 where "ATH_ANT_DIV_COMB_INIT_COUNT = 95"
definition IEEE80211_NUM_ACS :: nat where "IEEE80211_NUM_ACS = 4"

definition ATH9K_PCI_CUS198 :: u32 where "ATH9K_PCI_CUS198 = 0x0001"
definition ATH9K_PCI_CUS230 :: u32 where "ATH9K_PCI_CUS230 = 0x0002"
definition ATH9K_PCI_BT_ANT_DIV :: u32 where "ATH9K_PCI_BT_ANT_DIV = 0x0020"
definition ATH9K_PCI_D3_L1_WAR :: u32 where "ATH9K_PCI_D3_L1_WAR = 0x0040"
definition ATH9K_PCI_AR9565_1ANT :: u32 where "ATH9K_PCI_AR9565_1ANT = 0x0080"
definition ATH9K_PCI_AR9565_2ANT :: u32 where "ATH9K_PCI_AR9565_2ANT = 0x0100"
definition ATH9K_PCI_NO_PLL_PWRSAVE :: u32 where "ATH9K_PCI_NO_PLL_PWRSAVE = 0x0200"

definition ath9k_init_misc :: "device \<Rightarrow> init_env \<Rightarrow> (driver, unit) state" where
  "ath9k_init_misc D E = do {
     mod_sc (\<lambda>c. c\<lparr>last_rssi := rssi_dummy D, txpowlimit := ATH_TXPOWER_MAX,
       bssidmask := replicate 6 0xff, bcn_slottime := ie_slot_time_9 E, bslot0 := None\<rparr>);
     div_comb \<leftarrow> gets (\<lambda>s. CAP_ANT_DIV_COMB \<in> hw_caps (ah s));
     only_if div_comb (mod_scx (\<lambda>x. x\<lparr>ant_comb_count := ATH_ANT_DIV_COMB_INIT_COUNT\<rparr>));
     mod_sc (\<lambda>c. c\<lparr>spec_enabled := False, spec_endless := False\<rparr>);
     mod_scx (\<lambda>x. x\<lparr>spec_short_repeat := True, spec_count := 8, spec_period := 0xFF, spec_fft_period := 0xF\<rparr>)
   }"

definition ath9k_init_pcoem_platform :: "init_env \<Rightarrow> (driver, unit) state" where
  "ath9k_init_pcoem_platform E =
     (let data = ie_driver_data E
      in if \<not> cfg_pcoem (ie_params E) \<or> \<not> ie_bus_pci E then ret ()
         else do {
           only_if (data AND (ATH9K_PCI_CUS198 OR ATH9K_PCI_CUS230) \<noteq> 0) (do {
             mod_ah (\<lambda>a. a\<lparr>xlna_gpio := 9, xatten_margin_cfg := True, alt_mingainidx := True,
               ant_ctrl_comm2g := 0x000BBB88\<rparr>);
             mod_scx (\<lambda>x. x\<lparr>low_rssi_thresh := 20, fast_div_bias := 3\<rparr>)
           });
           only_if (data AND (ATH9K_PCI_AR9565_1ANT OR ATH9K_PCI_AR9565_2ANT) \<noteq> 0 \<and>
               data AND ATH9K_PCI_BT_ANT_DIV = 0)
             (mod_ah (\<lambda>a. a\<lparr>hw_caps := hw_caps a - {CAP_ANT_DIV_COMB}\<rparr>));
           only_if (data AND ATH9K_PCI_BT_ANT_DIV \<noteq> 0)
             (mod_ah (\<lambda>a. a\<lparr>hw_caps := insert CAP_BT_ANT_DIV (hw_caps a)\<rparr>));
           only_if (data AND ATH9K_PCI_D3_L1_WAR \<noteq> 0) (mod_ah (\<lambda>a. a\<lparr>pcie_waen := 0x0040473b\<rparr>));
           only_if (data AND ATH9K_PCI_NO_PLL_PWRSAVE \<noteq> 0) (mod_ah (\<lambda>a. a\<lparr>no_pll_pwrsave := True\<rparr>))
         })"

text \<open>The EEPROM file: the callback runs before \<open>wait_for_completion\<close> returns.\<close>

definition ath9k_eeprom_request_cb :: "bool \<Rightarrow> (driver, unit) state" where
  "ath9k_eeprom_request_cb blob = only_if blob (do {
     acquire Eeprom_blob;
     mod_ah (\<lambda>a. a\<lparr>eeprom_blob := True\<rparr>)
   })"

definition ath9k_eeprom_request :: "init_env \<Rightarrow> (driver, int) state" where
  "ath9k_eeprom_request E =
     (let err = ie_firmware E
      in if err < 0 then ret err
         else do {
           ath9k_eeprom_request_cb (ie_firmware_found E);
           blob \<leftarrow> gets (\<lambda>s. eeprom_blob (ah s));
           if \<not> blob then ret (- EINVAL) else ret 0
         })"

text \<open>\<open>release_firmware\<close> does nothing for a null pointer; the pointer is not cleared.\<close>

definition ath9k_eeprom_release :: "(driver, unit) state" where
  "ath9k_eeprom_release = do {
     blob \<leftarrow> gets (\<lambda>s. eeprom_blob (ah s));
     only_if blob (release Eeprom_blob)
   }"

definition ath9k_init_soc_platform :: "init_env \<Rightarrow> (driver, int) state" where
  "ath9k_init_soc_platform E =
     (case ie_pdata E of
        None \<Rightarrow> ret 0
      | Some pdata \<Rightarrow> do {
          r \<leftarrow> (if pd_eeprom_name pdata \<noteq> None then ath9k_eeprom_request E else ret 0);
          if r \<noteq> 0 then ret r
          else do {
            only_if (pd_tx_gain_buffalo pdata) (mod_ah (\<lambda>a. a\<lparr>tx_gain_buffalo := True\<rparr>));
            ret r
          }
        })"

section \<open>Transmit queues\<close>

text \<open>The n-th queue the driver asks for: set up, or no queue is left.\<close>

definition ath_txq_setup :: "init_env \<Rightarrow> nat \<Rightarrow> (driver, nat option) state" where
  "ath_txq_setup E n =
     (case ie_txq E n of
        None \<Rightarrow> ret None
      | Some q \<Rightarrow> do {
          acquire (Tx_queue q);
          mod_sc (\<lambda>c. c\<lparr>txqsetup := (txqsetup c)(q := True)\<rparr>);
          ret (Some q)
        })"

definition ath_tx_cleanupq :: "nat \<Rightarrow> (driver, unit) state" where
  "ath_tx_cleanupq q = do {
     release (Tx_queue q);
     mod_sc (\<lambda>c. c\<lparr>txqsetup := (txqsetup c)(q := False)\<rparr>)
   }"

definition init_data_queue :: "init_env \<Rightarrow> nat \<Rightarrow> (driver, unit) state" where
  "init_data_queue E i = do {
     q \<leftarrow> ath_txq_setup E (2 + i);
     case q of
       None \<Rightarrow> modify (\<lambda>s. s\<lparr>null_deref := True\<rparr>)
     | Some q \<Rightarrow> do {
         mod_sc (\<lambda>c. c\<lparr>txq_map := (txq_map c)(i := q)\<rparr>);
         mod_scx (\<lambda>x. x\<lparr>mac80211_qnum := (mac80211_qnum x)(q := i),
           txq_max_pending := (txq_max_pending x)(i := ATH_MAX_QDEPTH)\<rparr>)
       }
   }"

definition ath9k_init_queues :: "device \<Rightarrow> init_env \<Rightarrow> (driver, int) state" where
  "ath9k_init_queues D E = do {
     mod_scx (\<lambda>x. x\<lparr>beaconq := ie_beaconq E\<rparr>);
     q \<leftarrow> ath_txq_setup E 0;
     mod_scx (\<lambda>x. x\<lparr>cabq := q\<rparr>);
     on_sc (do_call D (Init Cabq_update));
     q \<leftarrow> ath_txq_setup E 1;
     mod_scx (\<lambda>x. x\<lparr>uapsdq := q\<rparr>);
     for_each (init_data_queue E) [0..<IEEE80211_NUM_ACS];
     ret 0
   }"

definition cleanup_queues :: "device \<Rightarrow> (driver, unit) state" where
  "cleanup_queues D = for_each (\<lambda>i. do {
     up \<leftarrow> gets (\<lambda>s. txqsetup (dsc s) i);
     only_if up (ath_tx_cleanupq i)
   }) [0..<num_tx_queues D]"

section \<open>The device structure\<close>

text \<open>The assignments to \<open>struct ath_hw\<close> and \<open>struct ath_common\<close>.\<close>

definition set_ah :: "init_env \<Rightarrow> u16 \<Rightarrow> ath_hw \<Rightarrow> ath_hw" where
  "set_ah E devid a = a\<lparr>
     force_quiet_bit_delay := 0, force_quiet_bit_restore := True, force_quiet_bit_restore_in := 0,
     current_timing_count := 0, max_timing_count := 0, ah_eifs_equal_to_aifs := True,
     unlocking_logging := False, ah_unlocked := False, maxCCApwr := 115, hw_devid := devid,
     hw_reg_ops := Some \<lparr>ops_read = ath9k_ioread32, ops_write = ath9k_iowrite32, ops_rmw = ath9k_reg_rmw\<rparr>\<rparr>"

definition set_platform :: "init_env \<Rightarrow> ath_hw \<Rightarrow> ath_hw" where
  "set_platform E a =
     (case ie_pdata E of
        None \<Rightarrow> a\<lparr>ah_flags := insert AH_USE_EEPROM (ah_flags a), led_pin := -1\<rparr>
      | Some p \<Rightarrow>
          if pd_use_eeprom p then a\<lparr>ah_flags := insert AH_USE_EEPROM (ah_flags a), led_pin := -1\<rparr>
          else a\<lparr>ah_gpio_mask := pd_gpio_mask p, ah_gpio_val := pd_gpio_val p, led_pin := pd_led_pin p,
            is_clk_25mhz := pd_is_clk_25mhz p, get_mac_revision := pd_get_mac_revision p,
            external_reset := pd_external_reset p, disable_2ghz := pd_disable_2ghz p,
            disable_5ghz := pd_disable_5ghz p,
            ah_flags := (if pd_endian_check p then ah_flags a else insert AH_NO_EEP_SWAP (ah_flags a))\<rparr>)"

definition set_common :: "init_env \<Rightarrow> ath_hw \<Rightarrow> ath_hw" where
  "set_common E a = a\<lparr>debug_mask := p_debug (ie_params E),
     btcoex_enabled := (p_btcoex_enable (ie_params E) = 1), disable_ani := False\<rparr>"

definition err_gpio :: "int \<Rightarrow> (driver, int) state" where
  "err_gpio r = ret r"

text \<open>The frame \<open>tx99_skb\<close> that is freed on the way is still null here.\<close>

definition err_hw :: "int \<Rightarrow> (driver, int) state" where
  "err_hw r = do { ath9k_eeprom_release; release Gpio_out; err_gpio r }"

definition err_queues :: "int \<Rightarrow> (driver, int) state" where
  "err_queues r = do { release Chip; err_hw r }"

definition err_btcoex :: "device \<Rightarrow> int \<Rightarrow> (driver, int) state" where
  "err_btcoex D r = do { cleanup_queues D; err_queues r }"

text \<open>The last part of \<open>ath9k_init_softc\<close>, behind the last failure.\<close>

definition init_softc_end :: "device \<Rightarrow> init_env \<Rightarrow> (driver, int) state" where
  "init_softc_end D E = do {
     only_if (ie_p2p_timer E) (acquire P2p_timer);
     mod_sc (\<lambda>c. c\<lparr>has_p2p_timer := ie_p2p_timer E\<rparr>);
     on_sc (do_call D (Hw Init_crypto));
     ath9k_init_misc D E;
     on_sc (do_call D (Init Fill_led_pin));
     only_if (ie_aspm_init E) (on_sc (do_call D (Init Aspm_init)));
     ret 0
   }"

text \<open>From the request of the output pin on.\<close>

definition init_softc_hw :: "device \<Rightarrow> init_env \<Rightarrow> (driver, int) state" where
  "init_softc_hw D E = do {
     let r = ie_gpio E;
     only_if (r = 0) (acquire Gpio_out);
     if r \<noteq> 0 then err_gpio r
     else do {
       let r = ie_hw_init E;
       only_if (r = 0) (acquire Chip);
       mod_ah (\<lambda>a. a\<lparr>hw_caps := ie_caps E (hw_caps a), max_rxchains := ie_rxchains E, max_txchains := ie_txchains E\<rparr>);
       if r \<noteq> 0 then err_hw r
       else do {
         (case ie_pdata E of
            None \<Rightarrow> ret ()
          | Some p \<Rightarrow> (case pd_macaddr p of None \<Rightarrow> ret () | Some m \<Rightarrow> mod_sc (\<lambda>c. c\<lparr>macaddr := m\<rparr>)));
         r \<leftarrow> ath9k_init_queues D E;
         if r \<noteq> 0 then err_queues r
         else do {
           let r = ie_init_btcoex E;
           only_if (r = 0) (acquire Btcoex);
           if r \<noteq> 0 then err_btcoex D r
           else do {
             let r = ie_channels_rates E;
             if r \<noteq> 0 then err_btcoex D r else init_softc_end D E
           }
         }
       }
     }
   }"

definition ath9k_init_softc :: "device \<Rightarrow> init_env \<Rightarrow> u16 \<Rightarrow> (driver, int) state" where
  "ath9k_init_softc D E devid = do {
     modify (\<lambda>s. s\<lparr>ah_null := \<not> ie_kzalloc E\<rparr>);
     if \<not> ie_kzalloc E then ret (- ENOMEM)
     else do {
       mod_ah (\<lambda>_. set_ah E devid (ie_ah E));
       only_if (ie_dfs E) (acquire Dfs_detector_res);
       mod_sc (\<lambda>c. c\<lparr>dfs_detector := ie_dfs E\<rparr>);
       mod_scx (\<lambda>x. x\<lparr>tx99_power := uint (ie_max_rate_power E) + 1\<rparr>);
       mod_ah (set_platform E);
       mod_ah (set_common E);
       ath9k_init_pcoem_platform E;
       r \<leftarrow> ath9k_init_soc_platform E;
       if r \<noteq> 0 then ret r
       else do {
         diversity \<leftarrow> gets (\<lambda>s. \<not> btcoex_enabled (ah s) \<and> p_bt_ant_diversity (ie_params E) \<and>
           CAP_BT_ANT_DIV \<in> hw_caps (ah s));
         only_if diversity (mod_ah (\<lambda>a. a\<lparr>bt_ant_diversity := True\<rparr>));
         mod_ah (\<lambda>a. a\<lparr>cachelsz := ie_cachesize E * 4\<rparr>);
         init_softc_hw D E
       }
     }
   }"

section \<open>What the device offers\<close>

definition chain_mask :: "nat \<Rightarrow> u32" where
  "chain_mask n = push_bit n 1 - 1"

definition capab_flags :: "init_env \<Rightarrow> hw_cap set \<Rightarrow> hw_flag set" where
  "capab_flags E caps =
     {RX_INCLUDES_FCS, HOST_BROADCAST_PS_BUFFERING, SIGNAL_DBM, PS_NULLFUNC_STACK, SPECTRUM_MGMT,
      REPORTS_TX_ACK_STATUS, SUPPORTS_RC_TABLE, SUPPORTS_HT_CCK_RATES} \<union>
     (if p_ps_enable (ie_params E) then {SUPPORTS_PS} else {}) \<union>
     (if CAP_HT \<in> caps then {AMPDU_AGGREGATION} else {}) \<union>
     (if ie_srev_9160_10 E \<or> p_nohwcrypt (ie_params E) then {MFP_CAPABLE} else {})"

definition capab_wiphy :: "device \<Rightarrow> ath_hw \<Rightarrow> ieee80211_hw \<Rightarrow> ieee80211_hw" where
  "capab_wiphy D a h =
     (let h = h\<lparr>wiphy_features := wiphy_features h \<union> {ACTIVE_MONITOR, AP_MODE_CHAN_WIDTH_CHANGE}\<rparr>;
          h = (if \<not> cfg_tx99 D
               then h\<lparr>interface_modes := {M_P2P_GO, M_P2P_CLIENT, M_AP, M_WDS, M_STATION, M_ADHOC, M_MESH_POINT},
                      has_if_comb := True\<rparr>
               else h)
      in h\<lparr>wiphy_flags := (wiphy_flags h - {PS_ON_BY_DEFAULT}) \<union>
             {IBSS_RSN, SUPPORTS_TDLS, HAS_REMAIN_ON_CHANNEL, SUPPORTS_5_10_MHZ, HAS_CHANNEL_SWITCH, AP_UAPSD},
           hw_queues := 4, hw_max_rates := 4, hw_max_listen_interval := 1, hw_max_rate_tries := 10,
           available_antennas_rx := (if CAP_ANT_DIV_COMB \<in> hw_caps a then 3 else chain_mask (max_rxchains a)),
           available_antennas_tx := chain_mask (max_txchains a)\<rparr>)"

definition ath9k_set_hw_capab :: "device \<Rightarrow> init_env \<Rightarrow> (driver, unit) state" where
  "ath9k_set_hw_capab D E = do {
     a \<leftarrow> gets ah;
     mod_hw (\<lambda>h. h\<lparr>hw_flags := capab_flags E (hw_caps a),
       mcs_have_stbc := (mcs_have_stbc h \<or> CAP_HT \<in> hw_caps a \<and> ie_srev_9280_20 E)\<rparr>);
     mod_hw (capab_wiphy D a);
     h \<leftarrow> gets hw;
     mod_sc (\<lambda>c. c\<lparr>ant_rx := ucast (available_antennas_rx h), ant_tx := ucast (available_antennas_tx h)\<rparr>);
     mod_hw (\<lambda>h. h\<lparr>band_2ghz := (band_2ghz h \<or> CAP_2GHZ \<in> hw_caps a),
       band_5ghz := (band_5ghz h \<or> CAP_5GHZ \<in> hw_caps a)\<rparr>);
     on_sc (do_call D (Init Init_wow));
     on_sc (do_call D (Hw Reload_chainmask));
     m \<leftarrow> gets (\<lambda>s. macaddr (dsc s));
     mod_hw (\<lambda>h. h\<lparr>perm_addr := m\<rparr>)
   }"

section \<open>Tear-down\<close>

definition ath9k_deinit_softc :: "device \<Rightarrow> (driver, unit) state" where
  "ath9k_deinit_softc D = do {
     timer \<leftarrow> gets (\<lambda>s. has_p2p_timer (dsc s));
     only_if timer (release P2p_timer);
     release Btcoex;
     cleanup_queues D;
     on_sc (do_call D (Power Del_sleep_timer));
     release Chip;
     dfs \<leftarrow> gets (\<lambda>s. dfs_detector (dsc s));
     only_if dfs (release Dfs_detector_res);
     ath9k_eeprom_release;
     release Gpio_out
   }"

definition ath9k_deinit_device :: "device \<Rightarrow> (driver, unit) state" where
  "ath9k_deinit_device D = do {
     on_sc (ath9k_ps_wakeup D);
     on_sc (do_call D (Init Rfkill_stop));
     release Leds;
     on_sc (ath9k_ps_restore D);
     release Debugfs;
     release Mac80211;
     release Rx_dma;
     ath9k_deinit_softc D
   }"

section \<open>Bring-up\<close>

definition deinit :: "device \<Rightarrow> int \<Rightarrow> (driver, int) state" where
  "deinit D error = do { ath9k_deinit_softc D; ret error }"

definition rx_cleanup :: "device \<Rightarrow> int \<Rightarrow> (driver, int) state" where
  "rx_cleanup D error = do { release Rx_dma; deinit D error }"

definition unregister :: "device \<Rightarrow> int \<Rightarrow> (driver, int) state" where
  "unregister D error = do { release Mac80211; rx_cleanup D error }"

definition debug_cleanup :: "device \<Rightarrow> int \<Rightarrow> (driver, int) state" where
  "debug_cleanup D error = do { release Debugfs; unregister D error }"

text \<open>From the registration with mac80211 on.\<close>

definition init_device_register :: "device \<Rightarrow> init_env \<Rightarrow> (driver, int) state" where
  "init_device_register D E = do {
     let error = ie_register_hw E;
     only_if (error = 0) (acquire Mac80211);
     if error \<noteq> 0 then rx_cleanup D error
     else do {
       let error = ie_init_debug E;
       only_if (error = 0) (acquire Debugfs);
       if error \<noteq> 0 then unregister D error
       else do {
         let error = (if ie_world_regd E then 0 else ie_regulatory_hint E);
         if error \<noteq> 0 then debug_cleanup D error
         else do {
           acquire Leds;
           on_sc (do_call D (Init Rfkill_start));
           ret 0
         }
       }
     }
   }"

definition ath9k_init_device :: "device \<Rightarrow> init_env \<Rightarrow> u16 \<Rightarrow> (driver, int) state" where
  "ath9k_init_device D E devid = do {
     error \<leftarrow> ath9k_init_softc D E devid;
     if error \<noteq> 0 then ret error
     else do {
       ath9k_set_hw_capab D E;
       on_sc (set_op OP_INVALID);
       if ie_regd_init E \<noteq> 0 then deinit D (ie_regd_init E)
       else if ie_tx_init E \<noteq> 0 then deinit D (ie_tx_init E)
       else do {
         only_if (ie_rx_init E = 0) (acquire Rx_dma);
         if ie_rx_init E \<noteq> 0 then deinit D (ie_rx_init E)
         else do {
           caps \<leftarrow> gets (\<lambda>s. hw_caps (ah s));
           on_sc (ath9k_init_txpower_limits D (ie_max_rate_power E) (CAP_2GHZ \<in> caps) (CAP_5GHZ \<in> caps));
           on_sc (ath_get_initial_entropy D);
           init_device_register D E
         }
       }
     }
   }"

section \<open>The module's hooks\<close>

datatype bus_res = Ahb_driver | Pci_driver

record ath9k_module = "bus_res holds" +
  is_ath9k_unloaded :: bool

text \<open>The inputs are the results of \<open>ath_ahb_init\<close> and \<open>ath_pci_init\<close>.\<close>

definition ath9k_init :: "int \<times> int \<Rightarrow> (ath9k_module, int) state" where
  "ath9k_init = (\<lambda>(ahb, pci). do {
     only_if (0 \<le> ahb) (acquire Ahb_driver);
     if ahb < 0 then ret (- ENODEV)
     else do {
       only_if (0 \<le> pci) (acquire Pci_driver);
       if pci < 0 then do { release Ahb_driver; ret (- ENODEV) }
       else ret 0
     }
   })"

definition ath9k_exit :: "(ath9k_module, unit) state" where
  "ath9k_exit = do {
     modify (\<lambda>s. s\<lparr>is_ath9k_unloaded := True\<rparr>);
     release Ahb_driver;
     release Pci_driver
   }"

end
