(* ===== verification/Ath_Lifecycle.thy ===== *)
theory Ath_Lifecycle
  imports Ath_Init
begin

text \<open>
  What bringing a device up and taking it down does to the table of resources, to the locks and
  to the count of users (\<open>ath9k/init.c\<close>, modelled in \<open>Ath_Init\<close>): every error label, the leaks of
  the failing paths, the cycles of probing and removing as an instance of \<open>loadable\<close>, and the whole
  life of a device with its callbacks in between.
\<close>

section \<open>What a step leaves alone\<close>

definition view :: "driver \<Rightarrow> drv_res set \<times> bool \<times> ((nat \<Rightarrow> bool) \<times> bool \<times> bool) \<times> bool \<times> bool" where
  "view s = (held_res s, bad_release s, sc_view (dsc s), eeprom_blob (ah s), null_deref s)"

text \<open>Other files do not set up queues, allocate the timer or replace the detector behind the driver's back.\<close>

definition calm :: "device \<Rightarrow> bool" where
  "calm D \<longleftrightarrow> frames D sc_view"

lemma calm_steady [intro, keeps_intros]: "calm D \<Longrightarrow> steady D sc_view"
  unfolding calm_def by (rule steady_view)

lemma calm_rules [keeps_intros]:
  assumes "calm D"
  shows "keeps sc_view (ath9k_ps_wakeup D)" "keeps sc_view (ath9k_ps_restore D)"
    "keeps sc_view (call D c)" "keeps sc_view (do_call D c)"
    "keeps sc_view (ath9k_init_txpower_limits D m c2 c5)" "keeps sc_view (ath_get_initial_entropy D)"
    "keeps sc_view (ath9k_event D e)"
  by (intro steady_view(2,3) assms [unfolded calm_def], intro steady_view(2,3) assms [unfolded calm_def],
      (intro keeps_intros keeps_event assms; simp add: sc_view_def)+)

lemma view_rules [keeps_intros]:
  "keeps sc_view m \<Longrightarrow> keeps view (on_sc m)"
  "(\<And>c. sc_view (f c) = sc_view c) \<Longrightarrow> keeps view (mod_sc f)"
  "(\<And>a. eeprom_blob (g a) = eeprom_blob a) \<Longrightarrow> keeps view (mod_ah g)"
  "keeps view (mod_scx k)" "keeps view (mod_hw h)"
  by (simp_all add: keeps_def view_def mod_defs)

lemma view_config [keeps_intros]:
  assumes "calm D"
  shows "keeps view (ath9k_init_misc D E)" "keeps view (ath9k_init_pcoem_platform E)"
    "keeps view (ath9k_set_hw_capab D E)"
  using assms unfolding ath9k_init_misc_def ath9k_init_pcoem_platform_def ath9k_set_hw_capab_def Let_def
  by (intro keeps_intros; simp add: sc_view_def)+

lemma viewD:
  assumes "keeps view m"
  shows "held_res (exec m s) = held_res s" "bad_release (exec m s) = bad_release s"
    "txqsetup (dsc (exec m s)) = txqsetup (dsc s)" "has_p2p_timer (dsc (exec m s)) = has_p2p_timer (dsc s)"
    "dfs_detector (dsc (exec m s)) = dfs_detector (dsc s)" "eeprom_blob (ah (exec m s)) = eeprom_blob (ah s)"
    "null_deref (exec m s) = null_deref s"
  using keepsD [OF assms, of s] by (simp_all add: view_def sc_view_def)

lemma set_fields [simp]:
  "eeprom_blob (set_ah E i a) = eeprom_blob a" "eeprom_blob (set_platform E a) = eeprom_blob a"
  "eeprom_blob (set_common E a) = eeprom_blob a"
  by (simp_all add: set_ah_def set_platform_def set_common_def split: option.split)

subsection \<open>Queues\<close>

definition queues_of :: "init_env \<Rightarrow> nat set \<Rightarrow> nat set" where
  "queues_of E I = {q. \<exists>i \<in> I. ie_txq E i = Some q}"

text \<open>A step that sets up the queues of the requests \<open>I\<close>.\<close>

definition adds :: "init_env \<Rightarrow> nat set \<Rightarrow> (driver, 'a) state \<Rightarrow> bool" where
  "adds E I m \<longleftrightarrow> (\<forall>s. let t = exec m s in
     held_res t = held_res s \<union> Tx_queue ` queues_of E I \<and> bad_release t = bad_release s \<and>
     txqsetup (dsc t) = (\<lambda>q. txqsetup (dsc s) q \<or> q \<in> queues_of E I) \<and>
     has_p2p_timer (dsc t) = has_p2p_timer (dsc s) \<and> dfs_detector (dsc t) = dfs_detector (dsc s) \<and>
     eeprom_blob (ah t) = eeprom_blob (ah s))"

lemma queues_of_Un: "queues_of E (I \<union> J) = queues_of E I \<union> queues_of E J"
  by (auto simp: queues_of_def)

lemma adds_setup:
  "adds E {n} (ath_txq_setup E n)" "adds E {2 + i} (init_data_queue E i)"
proof -
  show "adds E {n} (ath_txq_setup E n)"
    by (cases "ie_txq E n") (auto simp: adds_def queues_of_def ath_txq_setup_def res_defs mod_defs fun_eq_iff)
  show "adds E {2 + i} (init_data_queue E i)"
    by (cases "ie_txq E (2 + i)")
       (auto simp: adds_def queues_of_def init_data_queue_def ath_txq_setup_def res_defs mod_defs fun_eq_iff)
qed

lemma adds_rules:
  "adds E {} (State_Monad.return x)"
  "adds E I m \<Longrightarrow> (\<And>x. adds E J (f x)) \<Longrightarrow> adds E (I \<union> J) (State_Monad.bind m f)"
  "keeps view m \<Longrightarrow> adds E {} m"
  by (auto simp: adds_def queues_of_Un Let_def image_Un viewD) (simp_all add: queues_of_def)

lemma adds_for_each: "adds E ((\<lambda>i. 2 + i) ` set is) (for_each (init_data_queue E) is)"
proof (induction "is")
  case (Cons i "is")
  from adds_rules(2) [OF adds_setup(2) Cons] show ?case by simp
qed (simp add: adds_rules)

lemma init_queues_adds:
  assumes "calm D"
  shows "adds E {..<6} (ath9k_init_queues D E)" "res (ath9k_init_queues D E) s = 0"
proof -
  have "adds E ({} \<union> ({0} \<union> ({} \<union> ({} \<union> ({1} \<union> ({} \<union> ((\<lambda>i. 2 + i) ` set [0..<4] \<union> {}))))))) (ath9k_init_queues D E)"
    unfolding ath9k_init_queues_def IEEE80211_NUM_ACS_def
    by (intro adds_rules adds_setup adds_for_each keeps_intros assms)
  moreover have "{} \<union> ({0} \<union> ({} \<union> ({} \<union> ({1} \<union> ({} \<union> ((\<lambda>i. 2 + i) ` set [0..<4] \<union> {})))))) = {..<6 :: nat}"
    by (auto simp: upt_conv_Cons)
  ultimately show "adds E {..<6} (ath9k_init_queues D E)" by simp
  show "res (ath9k_init_queues D E) s = 0" by (simp add: ath9k_init_queues_def)
qed

text \<open>The loop of the clean-up.\<close>

definition no_queues :: "nat set \<Rightarrow> driver \<Rightarrow> driver \<Rightarrow> bool" where
  "no_queues Q s t \<longleftrightarrow> held_res t = held_res s - Tx_queue ` {q \<in> Q. txqsetup (dsc s) q} \<and>
     bad_release t = bad_release s \<and> txqsetup (dsc t) = (\<lambda>q. txqsetup (dsc s) q \<and> q \<notin> Q) \<and>
     has_p2p_timer (dsc t) = has_p2p_timer (dsc s) \<and> dfs_detector (dsc t) = dfs_detector (dsc s) \<and>
     eeprom_blob (ah t) = eeprom_blob (ah s)"

lemma cleanup_queues_spec:
  assumes "\<And>q. txqsetup (dsc s) q \<Longrightarrow> Tx_queue q \<in> held_res s"
  shows "no_queues {..<num_tx_queues D} s (exec (cleanup_queues D) s)"
proof -
  define f where "f i = (do {
     up \<leftarrow> gets (\<lambda>s. txqsetup (dsc s) i);
     only_if up (ath_tx_cleanupq i)
   })" for i
  have one: "no_queues {i} s (exec (f i) s)" if "txqsetup (dsc s) i \<Longrightarrow> Tx_queue i \<in> held_res s" for i s
    using that by (auto simp: no_queues_def f_def ath_tx_cleanupq_def res_defs mod_defs fun_eq_iff)
  have "no_queues (set is) s (exec (for_each f is) s)" if "\<And>q. txqsetup (dsc s) q \<Longrightarrow> Tx_queue q \<in> held_res s" for "is" s
    using that
  proof (induction "is" arbitrary: s)
    case Nil
    then show ?case by (simp add: no_queues_def)
  next
    case (Cons i "is")
    let ?t = "exec (f i) s"
    have o: "no_queues {i} s ?t" using Cons.prems by (intro one) simp
    then have "txqsetup (dsc ?t) q \<Longrightarrow> Tx_queue q \<in> held_res ?t" for q
      using Cons.prems by (auto simp: no_queues_def)
    from Cons.IH [OF this] o show ?case by (auto simp: no_queues_def fun_eq_iff)
  qed
  from this [of s "[0..<num_tx_queues D]"] assms show ?thesis
    unfolding cleanup_queues_def f_def by (simp add: atLeast_upt)
qed
subsection \<open>The table along a path\<close>

text \<open>
  \<open>H\<close> are the resources but for the queues, \<open>Q\<close> the queues; the flags are those of the timer, the
  detector and the EEPROM file.
\<close>

definition at :: "drv_res set \<Rightarrow> nat set \<Rightarrow> bool \<Rightarrow> bool \<Rightarrow> bool \<Rightarrow> driver \<Rightarrow> bool" where
  "at H Q p d b s \<longleftrightarrow> held_res s = H \<union> Tx_queue ` Q \<and> \<not> bad_release s \<and> range Tx_queue \<inter> H = {} \<and>
     txqsetup (dsc s) = (\<lambda>q. q \<in> Q) \<and> has_p2p_timer (dsc s) = p \<and> dfs_detector (dsc s) = d \<and>
     eeprom_blob (ah s) = b"

lemma at_acquire: "at H Q p d b s \<Longrightarrow> r \<notin> range Tx_queue \<Longrightarrow> at (insert r H) Q p d b (exec (acquire r) s)"
  by (auto simp: at_def acquire_def)

lemma at_release: "at H Q p d b s \<Longrightarrow> r \<in> H \<Longrightarrow> at (H - {r}) Q p d b (exec (release r) s)"
  by (auto simp: at_def release_def)

lemma at_view: "at H Q p d b s \<Longrightarrow> keeps view m \<Longrightarrow> at H Q p d b (exec m s)"
  by (simp add: at_def viewD)

lemma at_eeprom:
  "at H Q p d b s \<Longrightarrow> (b \<Longrightarrow> Eeprom_blob \<in> H) \<Longrightarrow>
   at (if b then H - {Eeprom_blob} else H) Q p d b (exec ath9k_eeprom_release s)"
  unfolding ath9k_eeprom_release_def by (auto simp: at_def release_def)

lemma at_queues: "at H {} p d b s \<Longrightarrow> calm D \<Longrightarrow> at H (queues_of E {..<6}) p d b (exec (ath9k_init_queues D E) s)"
  using init_queues_adds(1) [of D E] unfolding at_def adds_def Let_def by simp

lemma at_cleanup:
  assumes "at H Q p d b s" "Q \<subseteq> {..<num_tx_queues D}"
  shows "at H {} p d b (exec (cleanup_queues D) s)"
proof -
  have "no_queues {..<num_tx_queues D} s (exec (cleanup_queues D) s)"
    using assms(1) by (intro cleanup_queues_spec) (simp add: at_def)
  moreover have "{q \<in> {..<num_tx_queues D}. q \<in> Q} = Q" using assms(2) by auto
  moreover have "H \<union> Tx_queue ` Q - Tx_queue ` Q = H" using assms(1) unfolding at_def by blast
  moreover have "(\<lambda>q. q \<in> Q \<and> q \<notin> {..<num_tx_queues D}) = (\<lambda>_. False)" using assms(2) by auto
  ultimately show ?thesis using assms(1) unfolding at_def no_queues_def by simp
qed

lemma at_err_hw:
  assumes "at H Q p d b s" "Gpio_out \<in> H" "b \<Longrightarrow> Eeprom_blob \<in> H"
  shows "at (H - {Gpio_out} - (if b then {Eeprom_blob} else {})) Q p d b (exec (err_hw r) s)" "res (err_hw r) s = r"
proof -
  from at_release [OF at_eeprom [OF assms(1,3)], of Gpio_out]
  have "at ((if b then H - {Eeprom_blob} else H) - {Gpio_out}) Q p d b (exec (err_hw r) s)"
    using assms(2) by (auto simp: err_hw_def err_gpio_def)
  moreover have "(if b then H - {Eeprom_blob} else H) - {Gpio_out} = H - {Gpio_out} - (if b then {Eeprom_blob} else {})" by auto
  ultimately show "at (H - {Gpio_out} - (if b then {Eeprom_blob} else {})) Q p d b (exec (err_hw r) s)" by simp
  show "res (err_hw r) s = r" by (simp add: err_hw_def err_gpio_def)
qed

lemma at_err_btcoex:
  assumes "at H Q p d b s" "Q \<subseteq> {..<num_tx_queues D}" "{Gpio_out, Chip} \<subseteq> H" "b \<Longrightarrow> Eeprom_blob \<in> H"
  shows "at (H - {Gpio_out, Chip} - (if b then {Eeprom_blob} else {})) {} p d b (exec (err_btcoex D r) s)"
    "res (err_btcoex D r) s = r"
proof -
  have c: "at (H - {Chip}) {} p d b (exec (release Chip) (exec (cleanup_queues D) s))"
    using assms by (intro at_release at_cleanup) auto
  have "at (H - {Chip} - {Gpio_out} - (if b then {Eeprom_blob} else {})) {} p d b (exec (err_btcoex D r) s)"
    unfolding err_btcoex_def err_queues_def exec_simps using assms by (intro at_err_hw c) auto
  then show "at (H - {Gpio_out, Chip} - (if b then {Eeprom_blob} else {})) {} p d b (exec (err_btcoex D r) s)"
    by (simp add: Diff_insert [symmetric] insert_commute)
  show "res (err_btcoex D r) s = r" by (simp add: err_btcoex_def err_queues_def err_hw_def err_gpio_def)
qed

lemma at_end:
  assumes "at H Q False d b s" "calm D"
  shows "at (H \<union> (if ie_p2p_timer E then {P2p_timer} else {})) Q (ie_p2p_timer E) d b (exec (init_softc_end D E) s)"
    "res (init_softc_end D E) s = 0"
proof -
  let ?s = "exec (do { only_if (ie_p2p_timer E) (acquire P2p_timer); mod_sc (\<lambda>c. c\<lparr>has_p2p_timer := ie_p2p_timer E\<rparr>) }) s"
  have "at (H \<union> (if ie_p2p_timer E then {P2p_timer} else {})) Q (ie_p2p_timer E) d b ?s"
    using assms by (auto simp: at_def acquire_def mod_defs)
  from at_view [OF this, of "do { on_sc (do_call D (Hw Init_crypto)); ath9k_init_misc D E;
     on_sc (do_call D (Init Fill_led_pin)); only_if (ie_aspm_init E) (on_sc (do_call D (Init Aspm_init))); ret 0 }"]
  show "at (H \<union> (if ie_p2p_timer E then {P2p_timer} else {})) Q (ie_p2p_timer E) d b (exec (init_softc_end D E) s)"
    using assms(2) by (simp add: init_softc_end_def keeps_intros)
  show "res (init_softc_end D E) s = 0" by (simp add: init_softc_end_def)
qed

subsection \<open>The structure set up\<close>

definition blob_loaded :: "init_env \<Rightarrow> bool" where
  "blob_loaded E \<longleftrightarrow> (\<exists>p. ie_pdata E = Some p \<and> pd_eeprom_name p \<noteq> None) \<and> 0 \<le> ie_firmware E \<and> ie_firmware_found E"

definition soc_result :: "init_env \<Rightarrow> int" where
  "soc_result E =
     (case ie_pdata E of
        None \<Rightarrow> 0
      | Some p \<Rightarrow> if pd_eeprom_name p = None then 0
                  else if ie_firmware E < 0 then ie_firmware E
                  else if ie_firmware_found E then 0 else - EINVAL)"

lemma at_soc:
  assumes "at H Q p d False s"
  shows "at (H \<union> (if blob_loaded E then {Eeprom_blob} else {})) Q p d (blob_loaded E) (exec (ath9k_init_soc_platform E) s)"
    "res (ath9k_init_soc_platform E) s = soc_result E"
  using assms
  by (auto simp: at_def blob_loaded_def soc_result_def ath9k_init_soc_platform_def ath9k_eeprom_request_def
      ath9k_eeprom_request_cb_def acquire_def mod_defs Let_def EINVAL_def split: option.splits)

text \<open>What a failed attempt leaves behind.\<close>

fun leaked :: "init_env \<Rightarrow> drv_res \<Rightarrow> bool" where
  "leaked E Dfs_detector_res \<longleftrightarrow> ie_kzalloc E \<and> ie_dfs E \<and>
     (soc_result E \<noteq> 0 \<or> ie_gpio E \<noteq> 0 \<or> ie_hw_init E \<noteq> 0 \<or> ie_init_btcoex E \<noteq> 0 \<or> ie_channels_rates E \<noteq> 0)"
| "leaked E Eeprom_blob \<longleftrightarrow> ie_kzalloc E \<and> soc_result E = 0 \<and> blob_loaded E \<and> ie_gpio E \<noteq> 0"
| "leaked E Btcoex \<longleftrightarrow> ie_kzalloc E \<and> soc_result E = 0 \<and> ie_gpio E = 0 \<and> ie_hw_init E = 0 \<and>
     ie_init_btcoex E = 0 \<and> ie_channels_rates E \<noteq> 0"
| "leaked E _ \<longleftrightarrow> False"

definition softc_result :: "init_env \<Rightarrow> int" where
  "softc_result E =
     (if \<not> ie_kzalloc E then - ENOMEM else if soc_result E \<noteq> 0 then soc_result E
      else if ie_gpio E \<noteq> 0 then ie_gpio E else if ie_hw_init E \<noteq> 0 then ie_hw_init E
      else if ie_init_btcoex E \<noteq> 0 then ie_init_btcoex E else ie_channels_rates E)"

definition hw_steps :: "init_env \<Rightarrow> (driver, unit) state" where
  "hw_steps E = do {
     mod_ah (\<lambda>a. a\<lparr>hw_caps := ie_caps E (hw_caps a), max_rxchains := ie_rxchains E, max_txchains := ie_txchains E\<rparr>);
     (case ie_pdata E of
        None \<Rightarrow> ret ()
      | Some p \<Rightarrow> (case pd_macaddr p of None \<Rightarrow> ret () | Some m \<Rightarrow> mod_sc (\<lambda>c. c\<lparr>macaddr := m\<rparr>)))
   }"

lemma keeps_hw_steps: "keeps view (hw_steps E)"
  unfolding hw_steps_def by (intro keeps_intros; simp add: sc_view_def)

lemma at_init_hw:
  assumes s: "at H {} False d b s" and D: "calm D" "queues_of E {..<6} \<subseteq> {..<num_tx_queues D}"
    and H: "H \<inter> {Gpio_out, Chip, Btcoex} = {}" "b \<longrightarrow> Eeprom_blob \<in> H" and B: "B = (if b then {Eeprom_blob} else {})"
  shows "ie_gpio E \<noteq> 0 \<Longrightarrow> res (init_softc_hw D E) s = ie_gpio E \<and> at H {} False d b (exec (init_softc_hw D E) s)"
    and "ie_gpio E = 0 \<Longrightarrow> ie_hw_init E \<noteq> 0 \<Longrightarrow> res (init_softc_hw D E) s = ie_hw_init E \<and>
      at (H - B) {} False d b (exec (init_softc_hw D E) s)"
    and "ie_gpio E = 0 \<Longrightarrow> ie_hw_init E = 0 \<Longrightarrow> ie_init_btcoex E \<noteq> 0 \<Longrightarrow> res (init_softc_hw D E) s = ie_init_btcoex E \<and>
      at (H - B) {} False d b (exec (init_softc_hw D E) s)"
    and "ie_gpio E = 0 \<Longrightarrow> ie_hw_init E = 0 \<Longrightarrow> ie_init_btcoex E = 0 \<Longrightarrow> ie_channels_rates E \<noteq> 0 \<Longrightarrow>
      res (init_softc_hw D E) s = ie_channels_rates E \<and>
      at (insert Btcoex (H - B)) {} False d b (exec (init_softc_hw D E) s)"
    and "ie_gpio E = 0 \<Longrightarrow> ie_hw_init E = 0 \<Longrightarrow> ie_init_btcoex E = 0 \<Longrightarrow> ie_channels_rates E = 0 \<Longrightarrow>
      res (init_softc_hw D E) s = 0 \<and>
      at ({Gpio_out, Chip, Btcoex} \<union> H \<union> (if ie_p2p_timer E then {P2p_timer} else {})) (queues_of E {..<6})
        (ie_p2p_timer E) d b (exec (init_softc_hw D E) s)"
proof -
  let ?Q = "queues_of E {..<6}"
  define s1 where "s1 = exec (acquire Gpio_out) s"
  define caps where "caps = (mod_ah (\<lambda>a. a\<lparr>hw_caps := ie_caps E (hw_caps a), max_rxchains := ie_rxchains E,
    max_txchains := ie_txchains E\<rparr>) :: (driver, unit) state)"
  define s2 where "s2 = exec (hw_steps E) (exec (acquire Chip) s1)"
  define s3 where "s3 = exec (ath9k_init_queues D E) s2"
  define s4 where "s4 = exec (acquire Btcoex) s3"
  have s1: "at (insert Gpio_out H) {} False d b s1" unfolding s1_def using s by (intro at_acquire) auto
  have c: "at (insert Gpio_out H) {} False d b (exec caps s1)"
    using s1 by (rule at_view) (auto simp: caps_def intro: keeps_intros)
  have s2: "at (insert Chip (insert Gpio_out H)) {} False d b s2"
    unfolding s2_def using s1 by (intro at_view [OF _ keeps_hw_steps] at_acquire) auto
  have s3: "at (insert Chip (insert Gpio_out H)) ?Q False d b s3" unfolding s3_def using s2 D(1) by (rule at_queues)
  have s4: "at (insert Btcoex (insert Chip (insert Gpio_out H))) ?Q False d b s4"
    unfolding s4_def using s3 by (intro at_acquire) auto
  note e = init_softc_hw_def Let_def init_queues_adds(2) [OF D(1)]
  show "res (init_softc_hw D E) s = ie_gpio E \<and> at H {} False d b (exec (init_softc_hw D E) s)" if "ie_gpio E \<noteq> 0"
    using that s by (simp add: e err_gpio_def)
  have x: "exec (init_softc_hw D E) s = exec (err_hw (ie_hw_init E)) (exec caps s1) \<and>
      res (init_softc_hw D E) s = res (err_hw (ie_hw_init E)) (exec caps s1)" if "ie_gpio E = 0" "ie_hw_init E \<noteq> 0"
    using that by (simp add: e caps_def s1_def)
  have h: "insert Gpio_out H - {Gpio_out} - B = H - B" using H(1) by auto
  show "res (init_softc_hw D E) s = ie_hw_init E \<and> at (H - B) {} False d b (exec (init_softc_hw D E) s)"
    if "ie_gpio E = 0" "ie_hw_init E \<noteq> 0"
    using x [OF that] at_err_hw [OF c, of "ie_hw_init E"] H(2) h B by simp
  have y: "exec (init_softc_hw D E) s = exec (err_btcoex D (ie_init_btcoex E)) s3 \<and>
      res (init_softc_hw D E) s = res (err_btcoex D (ie_init_btcoex E)) s3"
    if "ie_gpio E = 0" "ie_hw_init E = 0" "ie_init_btcoex E \<noteq> 0"
    using that by (simp add: e hw_steps_def s3_def s2_def s1_def)
  have h: "insert Chip (insert Gpio_out H) - {Gpio_out, Chip} - B = H - B" using H(1) by auto
  show "res (init_softc_hw D E) s = ie_init_btcoex E \<and> at (H - B) {} False d b (exec (init_softc_hw D E) s)"
    if "ie_gpio E = 0" "ie_hw_init E = 0" "ie_init_btcoex E \<noteq> 0"
    using y [OF that] at_err_btcoex [OF s3 D(2), of "ie_init_btcoex E"] H(2) h B by simp
  have z: "exec (init_softc_hw D E) s = exec (err_btcoex D (ie_channels_rates E)) s4 \<and>
      res (init_softc_hw D E) s = res (err_btcoex D (ie_channels_rates E)) s4"
    if "ie_gpio E = 0" "ie_hw_init E = 0" "ie_init_btcoex E = 0" "ie_channels_rates E \<noteq> 0"
    using that by (simp add: e hw_steps_def s4_def s3_def s2_def s1_def)
  have h: "insert Btcoex (insert Chip (insert Gpio_out H)) - {Gpio_out, Chip} - B = insert Btcoex (H - B)"
    using H(1) B by auto
  show "res (init_softc_hw D E) s = ie_channels_rates E \<and> at (insert Btcoex (H - B)) {} False d b (exec (init_softc_hw D E) s)"
    if "ie_gpio E = 0" "ie_hw_init E = 0" "ie_init_btcoex E = 0" "ie_channels_rates E \<noteq> 0"
    using z [OF that] at_err_btcoex [OF s4 D(2), of "ie_channels_rates E"] H(2) h B by simp
  have w: "exec (init_softc_hw D E) s = exec (init_softc_end D E) s4 \<and>
      res (init_softc_hw D E) s = res (init_softc_end D E) s4"
    if "ie_gpio E = 0" "ie_hw_init E = 0" "ie_init_btcoex E = 0" "ie_channels_rates E = 0"
    using that by (simp add: e hw_steps_def s4_def s3_def s2_def s1_def)
  have h: "insert Btcoex (insert Chip (insert Gpio_out H)) = {Gpio_out, Chip, Btcoex} \<union> H" by auto
  show "res (init_softc_hw D E) s = 0 \<and> at ({Gpio_out, Chip, Btcoex} \<union> H \<union> (if ie_p2p_timer E then {P2p_timer} else {})) ?Q
        (ie_p2p_timer E) d b (exec (init_softc_hw D E) s)"
    if "ie_gpio E = 0" "ie_hw_init E = 0" "ie_init_btcoex E = 0" "ie_channels_rates E = 0"
    using w [OF that] at_end [OF s4 D(1), of E] unfolding h by simp
qed
text \<open>A fresh device, and a chip with enough queues.\<close>

definition fresh :: "device \<Rightarrow> init_env \<Rightarrow> bool" where
  "fresh D E \<longleftrightarrow> txqsetup (ie_sc E) = (\<lambda>_. False) \<and> \<not> has_p2p_timer (ie_sc E) \<and> \<not> dfs_detector (ie_sc E) \<and>
     \<not> eeprom_blob (ie_ah E) \<and> queues_of E {..<6} \<subseteq> {..<num_tx_queues D}"

definition flag_res :: "bool \<Rightarrow> bool \<Rightarrow> bool \<Rightarrow> drv_res set" where
  "flag_res p d b = (if p then {P2p_timer} else {}) \<union> (if d then {Dfs_detector_res} else {}) \<union>
     (if b then {Eeprom_blob} else {})"

definition softc_start :: "init_env \<Rightarrow> u16 \<Rightarrow> (driver, unit) state" where
  "softc_start E devid = do {
     mod_ah (\<lambda>_. set_ah E devid (ie_ah E));
     only_if (ie_dfs E) (acquire Dfs_detector_res);
     mod_sc (\<lambda>c. c\<lparr>dfs_detector := ie_dfs E\<rparr>);
     mod_scx (\<lambda>x. x\<lparr>tx99_power := uint (ie_max_rate_power E) + 1\<rparr>);
     mod_ah (set_platform E);
     mod_ah (set_common E);
     ath9k_init_pcoem_platform E
   }"

lemma at_softc_start:
  fixes devid :: u16
  assumes "clean s" "fresh D E" "dsc s = ie_sc E" "calm D"
  defines "t \<equiv> exec (softc_start E devid) (s\<lparr>ah_null := False\<rparr>)"
  shows "at (flag_res False (ie_dfs E) False) {} False (ie_dfs E) False t"
proof -
  have "at (flag_res False (ie_dfs E) False) {} False (ie_dfs E) False (exec (do {
      mod_ah (\<lambda>_. set_ah E devid (ie_ah E));
      only_if (ie_dfs E) (acquire Dfs_detector_res);
      mod_sc (\<lambda>c. c\<lparr>dfs_detector := ie_dfs E\<rparr>) }) (s\<lparr>ah_null := False\<rparr>))"
    using assms(1-3) by (auto simp: at_def flag_res_def clean_def fresh_def acquire_def mod_defs)
  from at_view [OF this, of "do { mod_scx (\<lambda>x. x\<lparr>tx99_power := uint (ie_max_rate_power E) + 1\<rparr>);
      mod_ah (set_platform E); mod_ah (set_common E); ath9k_init_pcoem_platform E }"]
  show ?thesis using assms(4) unfolding t_def softc_start_def by (simp add: keeps_intros)
qed

definition soc_end :: "init_env \<Rightarrow> (driver, unit) state" where
  "soc_end E = do {
     diversity \<leftarrow> gets (\<lambda>s. \<not> btcoex_enabled (ah s) \<and> p_bt_ant_diversity (ie_params E) \<and>
       CAP_BT_ANT_DIV \<in> hw_caps (ah s));
     only_if diversity (mod_ah (\<lambda>a. a\<lparr>bt_ant_diversity := True\<rparr>));
     mod_ah (\<lambda>a. a\<lparr>cachelsz := ie_cachesize E * 4\<rparr>)
   }"

lemma keeps_soc_end: "keeps view (soc_end E)"
  unfolding soc_end_def by (intro keeps_intros; simp)

lemma softc_outcome:
  fixes devid :: u16
  assumes "clean s" "fresh D E" "dsc s = ie_sc E" "calm D"
  defines "t \<equiv> exec (ath9k_init_softc D E devid) s"
  shows "res (ath9k_init_softc D E devid) s = softc_result E"
    and "softc_result E \<noteq> 0 \<Longrightarrow> held_res t = {r. leaked E r} \<and> \<not> bad_release t"
    and "softc_result E = 0 \<Longrightarrow>
      at ({Gpio_out, Chip, Btcoex} \<union> flag_res (ie_p2p_timer E) (ie_dfs E) (blob_loaded E)) (queues_of E {..<6})
        (ie_p2p_timer E) (ie_dfs E) (blob_loaded E) t"
proof -
  define s1 where "s1 = exec (softc_start E devid) (s\<lparr>ah_null := False\<rparr>)"
  define s2 where "s2 = exec (ath9k_init_soc_platform E) s1"
  define s3 where "s3 = exec (soc_end E) s2"
  have s1: "at (flag_res False (ie_dfs E) False) {} False (ie_dfs E) False s1"
    unfolding s1_def using assms(1-4) by (rule at_softc_start)
  have s2: "at (flag_res False (ie_dfs E) (blob_loaded E)) {} False (ie_dfs E) (blob_loaded E) s2"
    using at_soc(1) [OF s1, of E] by (simp add: s2_def flag_res_def Un_assoc)
  have s3: "at (flag_res False (ie_dfs E) (blob_loaded E)) {} False (ie_dfs E) (blob_loaded E) s3"
    unfolding s3_def using s2 keeps_soc_end by (rule at_view)
  have kz': "t = s\<lparr>ah_null := True\<rparr> \<and> res (ath9k_init_softc D E devid) s = - ENOMEM" if "\<not> ie_kzalloc E"
    using that by (simp add: t_def ath9k_init_softc_def)
  have soc': "t = s2 \<and> res (ath9k_init_softc D E devid) s = soc_result E" if "ie_kzalloc E" "soc_result E \<noteq> 0"
    using that at_soc(2) [OF s1, of E] by (simp add: t_def ath9k_init_softc_def s2_def s1_def softc_start_def)
  have hw': "t = exec (init_softc_hw D E) s3 \<and> res (ath9k_init_softc D E devid) s = res (init_softc_hw D E) s3"
    if "ie_kzalloc E" "soc_result E = 0"
    using that at_soc(2) [OF s1, of E] by (simp add: t_def ath9k_init_softc_def s3_def s2_def s1_def soc_end_def softc_start_def)
  have Q: "queues_of E {..<6} \<subseteq> {..<num_tx_queues D}" using assms(2) by (simp add: fresh_def)
  let ?H = "flag_res False (ie_dfs E) (blob_loaded E)"
  have HH: "?H \<inter> {Gpio_out, Chip, Btcoex} = {}" "blob_loaded E \<longrightarrow> Eeprom_blob \<in> ?H" by (auto simp: flag_res_def)
  let ?B = "if blob_loaded E then {Eeprom_blob} else {}"
  note i = at_init_hw [OF s3 assms(4) Q HH refl]
  note ir = i [THEN conjunct1] and ia = i [THEN conjunct2]
  show "res (ath9k_init_softc D E devid) s = softc_result E"
  proof (cases "ie_kzalloc E \<and> soc_result E = 0")
    case True
    then have "res (ath9k_init_softc D E devid) s = res (init_softc_hw D E) s3" using hw' by simp
    moreover have "res (init_softc_hw D E) s3 = softc_result E"
      unfolding softc_result_def using True ir by presburger
    ultimately show ?thesis by simp
  next
    case False
    then show ?thesis unfolding softc_result_def
      by (cases "ie_kzalloc E") (simp add: soc' [THEN conjunct2], simp add: kz' [THEN conjunct2])
  qed
  have leak: "at H {} p d b u \<Longrightarrow> H = {r. leaked E r} \<Longrightarrow> held_res u = {r. leaked E r} \<and> \<not> bad_release u" for H p d b u
    by (simp add: at_def)
  have l: "{r. leaked E r} = {r \<in> {Dfs_detector_res, Eeprom_blob, Btcoex}. leaked E r}"
    by (auto elim: leaked.elims)
  show "held_res t = {r. leaked E r} \<and> \<not> bad_release t" if nz: "softc_result E \<noteq> 0"
  proof -
    consider (kz) "\<not> ie_kzalloc E" | (soc) "ie_kzalloc E" "soc_result E \<noteq> 0"
      | (gpio) "ie_kzalloc E" "soc_result E = 0" "ie_gpio E \<noteq> 0"
      | (hw) "ie_kzalloc E" "soc_result E = 0" "ie_gpio E = 0" "ie_hw_init E \<noteq> 0"
      | (bt) "ie_kzalloc E" "soc_result E = 0" "ie_gpio E = 0" "ie_hw_init E = 0" "ie_init_btcoex E \<noteq> 0"
      | (ch) "ie_kzalloc E" "soc_result E = 0" "ie_gpio E = 0" "ie_hw_init E = 0" "ie_init_btcoex E = 0"
          "ie_channels_rates E \<noteq> 0"
      using nz by (auto simp: softc_result_def split: if_splits)
    then show ?thesis
    proof cases
      case kz
      with kz' [OF this] assms(1) show ?thesis by (auto simp: clean_def l)
    next
      case soc
      then have "\<not> blob_loaded E" by (auto simp: soc_result_def blob_loaded_def split: option.splits if_splits)
      then have "?H = {r. leaked E r}" unfolding l using soc by (auto simp: flag_res_def)
      then show ?thesis using leak [OF s2] soc' [OF soc] by simp
    next
      case gpio
      then have "t = exec (init_softc_hw D E) s3" using hw' by simp
      moreover have "?H = {r. leaked E r}" unfolding l using gpio by (auto simp: flag_res_def)
      ultimately show ?thesis using leak [OF ia(1) [OF gpio(3)]] by simp
    next
      case hw
      then have "t = exec (init_softc_hw D E) s3" using hw' by simp
      moreover have "?H - ?B = {r. leaked E r}" unfolding l using hw by (auto simp: flag_res_def)
      ultimately show ?thesis using leak [OF ia(2) [OF hw(3,4)]] by simp
    next
      case bt
      then have "t = exec (init_softc_hw D E) s3" using hw' by simp
      moreover have "?H - ?B = {r. leaked E r}" unfolding l using bt by (auto simp: flag_res_def)
      ultimately show ?thesis using leak [OF ia(3) [OF bt(3-5)]] by simp
    next
      case ch
      then have "t = exec (init_softc_hw D E) s3" using hw' by simp
      moreover have "insert Btcoex (?H - ?B) = {r. leaked E r}" unfolding l using ch by (auto simp: flag_res_def)
      ultimately show ?thesis using leak [OF ia(4) [OF ch(3-6)]] by simp
    qed
  qed
  show "at ({Gpio_out, Chip, Btcoex} \<union> flag_res (ie_p2p_timer E) (ie_dfs E) (blob_loaded E)) (queues_of E {..<6})
      (ie_p2p_timer E) (ie_dfs E) (blob_loaded E) t" if "softc_result E = 0"
  proof -
    have f: "flag_res (ie_p2p_timer E) (ie_dfs E) (blob_loaded E) = ?H \<union> (if ie_p2p_timer E then {P2p_timer} else {})"
      by (auto simp: flag_res_def)
    have z: "ie_kzalloc E" "soc_result E = 0" "ie_gpio E = 0" "ie_hw_init E = 0" "ie_init_btcoex E = 0"
        "ie_channels_rates E = 0"
      using that by (auto simp: softc_result_def ENOMEM_def split: if_splits)
    show ?thesis using ia(5) [OF z(3-6)] hw' [OF z(1,2)] unfolding f by (simp only: Un_assoc)
  qed
qed

subsection \<open>Tear-down and the whole device\<close>

definition softc_res :: "drv_res set" where
  "softc_res = {Gpio_out, Chip, Btcoex}"

definition device_res :: "drv_res set" where
  "device_res = {Rx_dma, Mac80211, Debugfs, Leds}"

lemma at_deinit_softc:
  assumes "at (softc_res \<union> flag_res p d b) Q p d b s" "calm D" "Q \<subseteq> {..<num_tx_queues D}"
  shows "clean (exec (ath9k_deinit_softc D) s)"
proof -
  let ?F = "flag_res False d b"
  have m: "p = has_p2p_timer (dsc s)" using assms(1) by (simp add: at_def)
  have 1: "at (softc_res \<union> ?F) Q p d b (exec (only_if p (release P2p_timer)) s)"
  proof (cases p)
    case True
    have "softc_res \<union> flag_res p d b - {P2p_timer} = softc_res \<union> ?F" using True by (auto simp: softc_res_def flag_res_def)
    with at_release [OF assms(1), of P2p_timer] True show ?thesis by (simp add: flag_res_def)
  next
    case False
    then show ?thesis using assms(1) by simp
  qed
  have "softc_res \<union> ?F - {Btcoex} = {Gpio_out, Chip} \<union> ?F" by (auto simp: softc_res_def flag_res_def)
  with at_release [OF 1, of Btcoex]
  have 2: "at ({Gpio_out, Chip} \<union> ?F) Q p d b (exec (do { only_if p (release P2p_timer); release Btcoex }) s)"
    by (simp add: softc_res_def)
  have "at ({Gpio_out, Chip} \<union> ?F) {} p d b (exec (do { only_if p (release P2p_timer); release Btcoex; cleanup_queues D;
      on_sc (do_call D (Power Del_sleep_timer)) }) s)"
    using at_view [OF at_cleanup [OF 2 assms(3)], of "on_sc (do_call D (Power Del_sleep_timer))"] assms(2)
    by (simp add: keeps_intros del: exec_on_sc)
  moreover have "{Gpio_out, Chip} \<union> ?F - {Chip} = {Gpio_out} \<union> ?F" by (auto simp: flag_res_def)
  ultimately have 3: "at ({Gpio_out} \<union> ?F) {} p d b (exec (do { only_if p (release P2p_timer); release Btcoex; cleanup_queues D;
      on_sc (do_call D (Power Del_sleep_timer)); release Chip }) s)" (is "at _ _ _ _ _ ?s")
    using at_release [of "{Gpio_out, Chip} \<union> ?F" _ _ _ _ _ Chip] by simp
  have e: "exec (ath9k_deinit_softc D) s = exec (release Gpio_out) (exec ath9k_eeprom_release (exec (only_if d (release Dfs_detector_res)) ?s))"
    using 3 by (simp add: ath9k_deinit_softc_def m at_def)
  show ?thesis unfolding e using 3
    by (auto simp: at_def clean_def ath9k_eeprom_release_def release_def flag_res_def)
qed

definition register_result :: "init_env \<Rightarrow> int" where
  "register_result E =
     (if ie_register_hw E \<noteq> 0 then ie_register_hw E else if ie_init_debug E \<noteq> 0 then ie_init_debug E
      else if ie_world_regd E then 0 else ie_regulatory_hint E)"

definition device_result :: "init_env \<Rightarrow> int" where
  "device_result E =
     (if softc_result E \<noteq> 0 then softc_result E else if ie_regd_init E \<noteq> 0 then ie_regd_init E
      else if ie_tx_init E \<noteq> 0 then ie_tx_init E else if ie_rx_init E \<noteq> 0 then ie_rx_init E
      else register_result E)"

text \<open>Giving back what the error labels give back, before the structure is torn down.\<close>

lemma at_drop:
  assumes "at (insert r H) Q p d b s" "r \<notin> H" "r \<notin> range Tx_queue"
  shows "at H Q p d b (exec (release r) s)"
  using at_release [OF assms(1), of r] assms(2) by simp

lemma device_disjoint:
  "Rx_dma \<notin> softc_res \<union> flag_res p d b" "Mac80211 \<notin> insert Rx_dma (softc_res \<union> flag_res p d b)"
  "Debugfs \<notin> insert Mac80211 (insert Rx_dma (softc_res \<union> flag_res p d b))"
  "Leds \<notin> insert Debugfs (insert Mac80211 (insert Rx_dma (softc_res \<union> flag_res p d b)))"
  by (auto simp: softc_res_def flag_res_def)

lemma device_res_insert:
  "device_res \<union> softc_res \<union> flag_res p d b =
     insert Leds (insert Debugfs (insert Mac80211 (insert Rx_dma (softc_res \<union> flag_res p d b))))"
  by (auto simp: device_res_def)

lemma clean_labels:
  assumes "calm D" "Q \<subseteq> {..<num_tx_queues D}"
  shows clean_deinit: "at (softc_res \<union> flag_res p d b) Q p d b s \<Longrightarrow> clean (exec (deinit D r) s)"
    and clean_rx_cleanup: "at (insert Rx_dma (softc_res \<union> flag_res p d b)) Q p d b s \<Longrightarrow> clean (exec (rx_cleanup D r) s)"
    and clean_unregister: "at (insert Mac80211 (insert Rx_dma (softc_res \<union> flag_res p d b))) Q p d b s \<Longrightarrow>
      clean (exec (unregister D r) s)"
    and clean_debug_cleanup: "at (insert Debugfs (insert Mac80211 (insert Rx_dma (softc_res \<union> flag_res p d b)))) Q p d b s \<Longrightarrow>
      clean (exec (debug_cleanup D r) s)"
proof -
  show 1: "clean (exec (deinit D r) s)" if "at (softc_res \<union> flag_res p d b) Q p d b s" for s
    using at_deinit_softc [OF that assms] by (simp add: deinit_def)
  show 2: "clean (exec (rx_cleanup D r) s)" if "at (insert Rx_dma (softc_res \<union> flag_res p d b)) Q p d b s" for s
    unfolding rx_cleanup_def exec_simps using that device_disjoint(1) by (intro 1 at_drop) auto
  show 3: "clean (exec (unregister D r) s)" if "at (insert Mac80211 (insert Rx_dma (softc_res \<union> flag_res p d b))) Q p d b s" for s
    unfolding unregister_def exec_simps using that device_disjoint(2) by (intro 2 at_drop) auto
  show "clean (exec (debug_cleanup D r) s)"
    if "at (insert Debugfs (insert Mac80211 (insert Rx_dma (softc_res \<union> flag_res p d b)))) Q p d b s" for s
    unfolding debug_cleanup_def exec_simps using that device_disjoint(3) by (intro 3 at_drop) auto
qed

lemma register_outcome:
  fixes E :: init_env
  assumes "calm D" "Q \<subseteq> {..<num_tx_queues D}" "at (insert Rx_dma (softc_res \<union> flag_res p d b)) Q p d b s"
  defines "t \<equiv> exec (init_device_register D E) s"
  shows "res (init_device_register D E) s = register_result E"
    and "register_result E \<noteq> 0 \<Longrightarrow> clean t"
    and "register_result E = 0 \<Longrightarrow> at (device_res \<union> softc_res \<union> flag_res p d b) Q p d b t"
proof -
  define s1 where "s1 = exec (acquire Mac80211) s"
  define s2 where "s2 = exec (acquire Debugfs) s1"
  have s1: "at (insert Mac80211 (insert Rx_dma (softc_res \<union> flag_res p d b))) Q p d b s1"
    unfolding s1_def using assms(3) by (rule at_acquire) auto
  have s2: "at (insert Debugfs (insert Mac80211 (insert Rx_dma (softc_res \<union> flag_res p d b)))) Q p d b s2"
    unfolding s2_def using s1 by (rule at_acquire) auto
  note e = init_device_register_def Let_def
  show "res (init_device_register D E) s = register_result E"
    by (simp add: e register_result_def rx_cleanup_def unregister_def debug_cleanup_def deinit_def)
  show "clean t" if "register_result E \<noteq> 0"
  proof -
    consider (reg) "ie_register_hw E \<noteq> 0" | (debug) "ie_register_hw E = 0" "ie_init_debug E \<noteq> 0"
      | (hint) "ie_register_hw E = 0" "ie_init_debug E = 0" "\<not> ie_world_regd E" "ie_regulatory_hint E \<noteq> 0"
      using \<open>register_result E \<noteq> 0\<close> by (auto simp: register_result_def split: if_splits)
    then show ?thesis
    proof cases
      case reg
      then have "t = exec (rx_cleanup D (ie_register_hw E)) s" by (simp add: t_def e)
      then show ?thesis using clean_rx_cleanup [OF assms(1-3)] by simp
    next
      case debug
      then have "t = exec (unregister D (ie_init_debug E)) s1" by (simp add: t_def e s1_def)
      then show ?thesis using clean_unregister [OF assms(1,2) s1] by simp
    next
      case hint
      then have "t = exec (debug_cleanup D (ie_regulatory_hint E)) s2" by (simp add: t_def e s1_def s2_def)
      then show ?thesis using clean_debug_cleanup [OF assms(1,2) s2] by simp
    qed
  qed
  have s3: "at (device_res \<union> softc_res \<union> flag_res p d b) Q p d b (exec (acquire Leds) s2)"
    unfolding device_res_insert using s2 by (rule at_acquire) auto
  have k: "keeps view (on_sc (do_call D (Init Rfkill_start)))" using assms(1) by (intro keeps_intros)
  show "at (device_res \<union> softc_res \<union> flag_res p d b) Q p d b t" if "register_result E = 0"
  proof -
    have "t = exec (on_sc (do_call D (Init Rfkill_start))) (exec (acquire Leds) s2)"
      using that by (auto simp: t_def e s1_def s2_def register_result_def split: if_splits)
    then show ?thesis using at_view [OF s3 k] by simp
  qed
qed

text \<open>\<open>up\<close>: everything a working device holds.\<close>

definition device_up :: "device \<Rightarrow> driver \<Rightarrow> bool" where
  "device_up D s \<longleftrightarrow> (\<exists>Q p d b. Q \<subseteq> {..<num_tx_queues D} \<and> at (device_res \<union> softc_res \<union> flag_res p d b) Q p d b s)"

lemma device_upI:
  "Q \<subseteq> {..<num_tx_queues D} \<Longrightarrow> at (device_res \<union> softc_res \<union> flag_res p d b) Q p d b s \<Longrightarrow> device_up D s"
  unfolding device_up_def by blast

lemma device_outcome:
  fixes devid :: u16
  assumes "clean s" "fresh D E" "dsc s = ie_sc E" "calm D"
  defines "t \<equiv> exec (ath9k_init_device D E devid) s"
  shows "res (ath9k_init_device D E devid) s = device_result E"
    and "device_result E \<noteq> 0 \<Longrightarrow> held_res t = {r. leaked E r} \<and> \<not> bad_release t"
    and "device_result E = 0 \<Longrightarrow> device_up D t"
proof -
  define s1 where "s1 = exec (ath9k_init_softc D E devid) s"
  define s2 where "s2 = exec (do { ath9k_set_hw_capab D E; on_sc (set_op OP_INVALID) }) s1"
  define txp where "txp = (do { caps \<leftarrow> gets (\<lambda>s. hw_caps (ah s));
    on_sc (ath9k_init_txpower_limits D (ie_max_rate_power E) (CAP_2GHZ \<in> caps) (CAP_5GHZ \<in> caps));
    on_sc (ath_get_initial_entropy D) })"
  define s3 where "s3 = exec txp (exec (acquire Rx_dma) s2)"
  let ?p = "ie_p2p_timer E" and ?d = "ie_dfs E" and ?b = "blob_loaded E" and ?Q = "queues_of E {..<6}"
  note o = softc_outcome [OF assms(1-4), of devid, folded s1_def]
  have Q: "?Q \<subseteq> {..<num_tx_queues D}" using assms(2) by (simp add: fresh_def)
  have l: "{r. leaked E r} = {}" if "softc_result E = 0"
    using that by (auto simp: softc_result_def ENOMEM_def split: if_splits elim!: leaked.elims)
  have k: "keeps view (do { ath9k_set_hw_capab D E; on_sc (set_op OP_INVALID) })" "keeps view txp"
    unfolding txp_def by (intro keeps_intros assms(4))+
  have s2: "at (softc_res \<union> flag_res ?p ?d ?b) ?Q ?p ?d ?b s2" if "softc_result E = 0"
    unfolding s2_def using at_view [OF o(3) [OF that] k(1)] by (simp only: softc_res_def)
  have s3: "at (insert Rx_dma (softc_res \<union> flag_res ?p ?d ?b)) ?Q ?p ?d ?b s3" if "softc_result E = 0"
    unfolding s3_def using s2 [OF that] by (intro at_view [OF _ k(2)] at_acquire) auto
  have fail: "t = s1 \<and> res (ath9k_init_device D E devid) s = softc_result E" if "softc_result E \<noteq> 0"
    using that o(1) by (simp add: t_def ath9k_init_device_def s1_def)
  have dein': "t = exec (deinit D r) s2 \<and> res (ath9k_init_device D E devid) s = r"
    if "softc_result E = 0" "r \<noteq> 0" "r = (if ie_regd_init E \<noteq> 0 then ie_regd_init E else if ie_tx_init E \<noteq> 0 then ie_tx_init E
      else ie_rx_init E)" for r
    using that o(1) by (auto simp: t_def ath9k_init_device_def s1_def s2_def deinit_def split: if_splits)
  have reg': "t = exec (init_device_register D E) s3 \<and>
      res (ath9k_init_device D E devid) s = res (init_device_register D E) s3"
    if "softc_result E = 0" "ie_regd_init E = 0" "ie_tx_init E = 0" "ie_rx_init E = 0"
    using that o(1) by (simp add: t_def ath9k_init_device_def s1_def s2_def s3_def txp_def)
  note ro = register_outcome [OF assms(4) Q s3]
  consider (softc) "softc_result E \<noteq> 0"
    | (dein) r where "softc_result E = 0" "r \<noteq> 0" "r = (if ie_regd_init E \<noteq> 0 then ie_regd_init E else
        if ie_tx_init E \<noteq> 0 then ie_tx_init E else ie_rx_init E)"
    | (reg) "softc_result E = 0" "ie_regd_init E = 0" "ie_tx_init E = 0" "ie_rx_init E = 0"
    by (metis (full_types))
  then have "res (ath9k_init_device D E devid) s = device_result E \<and>
      (device_result E \<noteq> 0 \<longrightarrow> held_res t = {r. leaked E r} \<and> \<not> bad_release t) \<and> (device_result E = 0 \<longrightarrow> device_up D t)"
  proof cases
    case softc
    then show ?thesis using fail o(2) by (simp add: device_result_def)
  next
    case dein
    have "device_result E = r" using dein by (auto simp: device_result_def split: if_splits)
    moreover have "clean t" using clean_deinit [OF assms(4) Q s2] dein' [OF dein] dein(1) by simp
    ultimately show ?thesis using dein' [OF dein] l [OF dein(1)] dein(2) by (simp add: clean_def)
  next
    case reg
    have "device_result E = register_result E" using reg by (simp add: device_result_def)
    moreover have "device_up D t" if "register_result E = 0"
      using device_upI [OF Q ro(3) [OF reg(1) that]] reg' [OF reg] by simp
    moreover have "clean t" if "register_result E \<noteq> 0"
      using ro(2) [OF reg(1) that] reg' [OF reg] by simp
    ultimately show ?thesis
      using reg' [OF reg] ro(1) [OF reg(1), of E] l [OF reg(1)] by (simp add: clean_def)
  qed
  then show "res (ath9k_init_device D E devid) s = device_result E"
    "device_result E \<noteq> 0 \<Longrightarrow> held_res t = {r. leaked E r} \<and> \<not> bad_release t"
    "device_result E = 0 \<Longrightarrow> device_up D t" by blast+
qed

lemma device_down:
  assumes "device_up D s" "calm D"
  shows "clean (exec (ath9k_deinit_device D) s)"
proof -
  obtain Q p d b where Q: "Q \<subseteq> {..<num_tx_queues D}"
    and s: "at (device_res \<union> softc_res \<union> flag_res p d b) Q p d b s" using assms(1) by (auto simp: device_up_def)
  have k: "keeps view (do { on_sc (ath9k_ps_wakeup D); on_sc (do_call D (Init Rfkill_stop)) })"
    "keeps view (on_sc (ath9k_ps_restore D))"
    by (intro keeps_intros assms(2))+
  define s1 where "s1 = exec (do { on_sc (ath9k_ps_wakeup D); on_sc (do_call D (Init Rfkill_stop)) }) s"
  define s2 where "s2 = exec (on_sc (ath9k_ps_restore D)) (exec (release Leds) s1)"
  have 1: "at (insert Leds (insert Debugfs (insert Mac80211 (insert Rx_dma (softc_res \<union> flag_res p d b))))) Q p d b s1"
    unfolding s1_def using at_view [OF s k(1)] by (simp only: device_res_insert)
  have 2: "at (insert Debugfs (insert Mac80211 (insert Rx_dma (softc_res \<union> flag_res p d b)))) Q p d b s2"
    unfolding s2_def using device_disjoint(4) by (intro at_view [OF _ k(2)] at_drop [OF 1]) auto
  have "exec (ath9k_deinit_device D) s = exec (debug_cleanup D 0) s2"
    by (simp add: ath9k_deinit_device_def debug_cleanup_def unregister_def rx_cleanup_def deinit_def s1_def s2_def)
  with clean_debug_cleanup [OF assms(2) Q 2] show ?thesis by simp
qed

section \<open>Cycles of probing and removing\<close>

text \<open>The bus glue hands fresh structures over.\<close>

fun probe :: "device \<Rightarrow> init_env \<times> u16 \<Rightarrow> (driver, int) state" where
  "probe D (E, devid) = do {
     modify (\<lambda>s. s\<lparr>dsc := ie_sc E, scx := ie_scx E, hw := ie_hw E, null_deref := False\<rparr>);
     ath9k_init_device D E devid
   }"

definition no_leak :: "init_env \<Rightarrow> bool" where
  "no_leak E \<longleftrightarrow> {r. leaked E r} = {}"

lemma probe_outcome:
  fixes devid :: u16
  assumes "clean s" "fresh D E" "calm D"
  defines "t \<equiv> exec (probe D (E, devid)) s"
  shows "res (probe D (E, devid)) s = device_result E"
    and "device_result E \<noteq> 0 \<Longrightarrow> held_res t = {r. leaked E r} \<and> \<not> bad_release t"
    and "device_result E = 0 \<Longrightarrow> device_up D t"
  unfolding t_def using assms(1-3)
    device_outcome [of "s\<lparr>dsc := ie_sc E, scx := ie_scx E, hw := ie_hw E, null_deref := False\<rparr>" D E devid]
  by (auto simp: clean_def)

interpretation ath: loadable "probe D" "ath9k_deinit_device D" "\<lambda>i. calm D \<and> fresh D (fst i) \<and> no_leak (fst i)"
  clean "\<lambda>s. calm D \<and> device_up D s" for D
proof
  fix i :: "init_env \<times> u16" and s :: driver
  assume a: "calm D \<and> fresh D (fst i) \<and> no_leak (fst i)" "clean s"
  then have f: "fresh D (fst i)" "calm D" by simp_all
  note o = probe_outcome [OF a(2) f, of "snd i", unfolded prod.collapse]
  show "calm D \<and> device_up D (exec (probe D i) s)" if "res (probe D i) s = 0" using o that f(2) by simp
  show "clean (exec (probe D i) s)" if "res (probe D i) s \<noteq> 0"
    using o that a(1) by (simp add: clean_def no_leak_def)
qed (simp add: device_down)

text \<open>A device that comes up, serves a run of events and is then taken down.\<close>

fun serve :: "device \<Rightarrow> init_env \<times> u16 \<times> event list \<Rightarrow> (driver, int) state" where
  "serve D (E, devid, es) = do {
     r \<leftarrow> probe D (E, devid);
     only_if (r = 0) (on_sc (for_each (ath9k_event D) es));
     ret r
   }"

lemma up_events:
  assumes "calm D" "device_up D s"
  shows "device_up D (exec (on_sc (for_each (ath9k_event D) es)) s)"
proof -
  have k: "keeps view (on_sc (for_each (ath9k_event D) es))" by (intro keeps_intros assms(1))
  from assms(2) obtain Q p d b where "Q \<subseteq> {..<num_tx_queues D}"
    "at (device_res \<union> softc_res \<union> flag_res p d b) Q p d b s" unfolding device_up_def by blast
  then show ?thesis by (intro device_upI at_view [OF _ k])
qed

lemma serve_simps:
  "res (serve D (E, devid, es)) s = res (probe D (E, devid)) s"
  "exec (serve D (E, devid, es)) s = (if res (probe D (E, devid)) s = 0
     then exec (on_sc (for_each (ath9k_event D) es)) (exec (probe D (E, devid)) s) else exec (probe D (E, devid)) s)"
  by (simp_all del: probe.simps)

interpretation ath_serve: loadable "serve D" "ath9k_deinit_device D" "\<lambda>i. calm D \<and> fresh D (fst i) \<and> no_leak (fst i)"
  clean "\<lambda>s. calm D \<and> device_up D s" for D
proof
  fix i :: "init_env \<times> u16 \<times> event list" and s :: driver
  assume a: "calm D \<and> fresh D (fst i) \<and> no_leak (fst i)" "clean s"
  obtain E devid es where i: "i = (E, devid, es)" by (cases i)
  have g: "calm D \<and> fresh D (fst (E, devid)) \<and> no_leak (fst (E, devid))" using a(1) i by simp
  show "calm D \<and> device_up D (exec (serve D i) s)" if "res (serve D i) s = 0"
    using that ath.load_up [OF g a(2)] up_events [of D _ es] by (simp add: i serve_simps del: serve.simps probe.simps)
  show "clean (exec (serve D i) s)" if "res (serve D i) s \<noteq> 0"
    using that ath.load_fails [OF g a(2)] by (simp add: i serve_simps del: serve.simps probe.simps)
qed (simp add: device_down)

section \<open>Locks and users over the whole life\<close>

text \<open>Steps that leave no lock and no user of the chip behind.\<close>

definition balanced :: "(driver, 'a) state \<Rightarrow> bool" where
  "balanced m \<longleftrightarrow> (\<forall>s. locked (dsc s) = Some [] \<longrightarrow>
     locked (dsc (exec m s)) = Some [] \<and> ps_usecount (dsc (exec m s)) = ps_usecount (dsc s))"

named_theorems balanced_intros \<open>rules for steps that are balanced\<close>

lemma balanced_rules [balanced_intros]:
  "balanced (State_Monad.return x)"
  "balanced (gets g)"
  "balanced m \<Longrightarrow> (\<And>x. balanced (f x)) \<Longrightarrow> balanced (State_Monad.bind m f)"
  "(b \<Longrightarrow> balanced m) \<Longrightarrow> (\<not> b \<Longrightarrow> balanced n) \<Longrightarrow> balanced (if b then m else n)"
  "(b \<Longrightarrow> balanced u) \<Longrightarrow> balanced (only_if b u)"
  "(\<And>s. dsc (h s) = dsc s) \<Longrightarrow> balanced (modify h)"
  "uses all_locks k \<Longrightarrow> keeps ps_usecount k \<Longrightarrow> balanced (on_sc k)"
  "(\<And>c. trace (f' c) = trace c) \<Longrightarrow> (\<And>c. ps_usecount (f' c) = ps_usecount c) \<Longrightarrow> balanced (mod_sc f')"
  "balanced (mod_ah k1)" "balanced (mod_scx k2)" "balanced (mod_hw k3)" "balanced (acquire r)" "balanced (release r)"
  by (auto simp: balanced_def only_if_def mod_defs res_defs locked_def uses_def keeps_def)

lemma balanced_case_option [balanced_intros]:
  "(v = None \<Longrightarrow> balanced m) \<Longrightarrow> (\<And>x. v = Some x \<Longrightarrow> balanced (f x)) \<Longrightarrow>
   balanced (case v of None \<Rightarrow> m | Some x \<Rightarrow> f x)"
  by (cases v) auto

lemma balanced_for_each [balanced_intros]: "(\<And>x. x \<in> set xs \<Longrightarrow> balanced (f x)) \<Longrightarrow> balanced (for_each f xs)"
  by (induction xs) (auto intro: balanced_rules)

lemma balanced_release [balanced_intros]:
  "balanced ath9k_eeprom_release" "balanced (err_gpio r)" "balanced (err_hw r)" "balanced (err_queues r)"
  "balanced (cleanup_queues D)"
  unfolding err_gpio_def err_hw_def err_queues_def ath9k_eeprom_release_def cleanup_queues_def ath_tx_cleanupq_def
  by (intro balanced_intros; simp)+

lemma balanced_deinit_softc [balanced_intros]:
  assumes "frames D ps_usecount"
  shows "balanced (ath9k_deinit_softc D)"
  unfolding ath9k_deinit_softc_def
  by (intro balanced_intros uses_intros keeps_intros assms; simp)

lemma balanced_errors [balanced_intros]:
  assumes "frames D ps_usecount"
  shows "balanced (err_btcoex D r)" "balanced (deinit D r)" "balanced (rx_cleanup D r)" "balanced (unregister D r)"
    "balanced (debug_cleanup D r)"
  unfolding err_btcoex_def deinit_def rx_cleanup_def unregister_def debug_cleanup_def
  by (intro balanced_intros assms)+

lemma balanced_init_softc [balanced_intros]:
  assumes "frames D ps_usecount"
  shows "balanced (ath9k_init_softc D E devid)"
  unfolding ath9k_init_softc_def init_softc_hw_def init_softc_end_def ath9k_init_misc_def ath9k_init_pcoem_platform_def
    ath9k_init_soc_platform_def ath9k_eeprom_request_def ath9k_eeprom_request_cb_def ath9k_init_queues_def
    init_data_queue_def ath_txq_setup_def Let_def
  by (intro balanced_intros uses_intros keeps_intros assms; simp)

lemma balanced_init_device:
  assumes "frames D ps_usecount"
  shows "balanced (ath9k_init_device D E devid)"
  unfolding ath9k_init_device_def init_device_register_def ath9k_set_hw_capab_def Let_def
  by (intro balanced_intros uses_intros keeps_intros assms; simp add: lock_sets)

lemma balanced_deinit_device:
  assumes "frames D ps_usecount"
  shows "balanced (ath9k_deinit_device D)"
proof -
  define m where "m = (do { ath9k_ps_wakeup D; do_call D (Init Rfkill_stop); ath9k_ps_restore D })"
  have "keeps ps_usecount m"
    unfolding m_def by (simp add: keeps_def shiftsD [OF usecount_wakeup [OF assms]]
      shiftsD [OF usecount_restore [OF assms]] frames_world [OF assms])
  moreover have "uses all_locks m" unfolding m_def by (intro uses_intros; simp add: lock_sets)
  ultimately have "balanced (on_sc m)" using balanced_rules(7) by blast
  moreover have "balanced (do { n; release Leds; release Debugfs; release Mac80211; release Rx_dma; ath9k_deinit_softc D })"
    if "balanced n" for n :: "(driver, unit) state"
    by (intro balanced_intros assms that)
  ultimately have "balanced (do { on_sc m; release Leds; release Debugfs; release Mac80211; release Rx_dma; ath9k_deinit_softc D })"
    by blast
  moreover have "exec (ath9k_deinit_device D) s =
      exec (do { on_sc m; release Leds; release Debugfs; release Mac80211; release Rx_dma; ath9k_deinit_softc D }) s" for s
    by (simp add: ath9k_deinit_device_def m_def release_def)
  ultimately show ?thesis unfolding balanced_def by metis
qed

section \<open>A concrete attempt\<close>

definition ah0 :: ath_hw where
  "ah0 = \<lparr>force_quiet_bit_delay = 0, force_quiet_bit_restore = False, force_quiet_bit_restore_in = 0,
     current_timing_count = 0, max_timing_count = 0, ah_eifs_equal_to_aifs = False, unlocking_logging = False,
     ah_unlocked = False, maxCCApwr = 0, hw_devid = 0, hw_reg_ops = None, ah_flags = {}, led_pin = 0,
     ah_gpio_mask = 0, ah_gpio_val = 0, is_clk_25mhz = False, get_mac_revision = None, external_reset = None,
     disable_2ghz = False, disable_5ghz = False, hw_caps = {}, max_rxchains = 0, max_txchains = 0,
     eeprom_blob = False, tx_gain_buffalo = False, xlna_gpio = 0, xatten_margin_cfg = False,
     alt_mingainidx = False, ant_ctrl_comm2g = 0, pcie_waen = 0, no_pll_pwrsave = False, debug_mask = 0,
     btcoex_enabled = False, disable_ani = False, bt_ant_diversity = False, cachelsz = 0\<rparr>"

definition scx0 :: sc_extra where
  "scx0 = \<lparr>tx99_power = 0, txq_max_pending = (\<lambda>_. 0), mac80211_qnum = (\<lambda>_. 0), beaconq = 0, cabq = None,
     uapsdq = None, ant_comb_count = 0, low_rssi_thresh = 0, fast_div_bias = 0, spec_short_repeat = False,
     spec_count = 0, spec_period = 0, spec_fft_period = 0\<rparr>"

definition hw0 :: ieee80211_hw where
  "hw0 = \<lparr>hw_flags = {}, mcs_have_stbc = False, wiphy_features = {}, interface_modes = {}, has_if_comb = False,
     wiphy_flags = {PS_ON_BY_DEFAULT}, hw_queues = 0, hw_max_rates = 0, hw_max_listen_interval = 0,
     hw_max_rate_tries = 0, available_antennas_rx = 0, available_antennas_tx = 0, band_2ghz = False,
     band_5ghz = False, perm_addr = []\<rparr>"

definition env0 :: init_env where
  "env0 = \<lparr>ie_params = \<lparr>p_debug = 0, p_nohwcrypt = False, p_btcoex_enable = 0, p_bt_ant_diversity = False,
       p_ps_enable = False, cfg_pcoem = False\<rparr>,
     ie_pdata = None, ie_bus_pci = False, ie_driver_data = 0, ie_sc = softc0\<lparr>txqsetup := (\<lambda>_. False)\<rparr>,
     ie_ah = ah0, ie_hw = hw0, ie_scx = scx0, ie_kzalloc = True, ie_dfs = False, ie_firmware = 0,
     ie_firmware_found = True, ie_cachesize = 8, ie_gpio = 0, ie_hw_init = 0,
     ie_caps = (\<lambda>_. {CAP_HT, CAP_2GHZ}), ie_rxchains = 2, ie_txchains = 2, ie_beaconq = 9,
     ie_txq = (\<lambda>n. Some n), ie_init_btcoex = 0, ie_channels_rates = 0, ie_p2p_timer = True, ie_aspm_init = False,
     ie_srev_9280_20 = True, ie_srev_9160_10 = True, ie_regd_init = 0, ie_tx_init = 0, ie_rx_init = 0,
     ie_register_hw = 0, ie_init_debug = 0, ie_world_regd = True, ie_regulatory_hint = 0, ie_slot_time_9 = 9,
     ie_max_rate_power = 63\<rparr>"

definition driver0 :: driver where
  "driver0 = \<lparr>held_res = {}, bad_release = False, ah_null = True, dsc = softc0, ah = ah0, scx = scx0, hw = hw0,
     null_deref = False\<rparr>"

lemma clean_driver0: "clean driver0"
  by (simp add: driver0_def clean_def)

lemma calm_dev0: "calm dev0"
  unfolding calm_def by (rule frames_world0) (simp add: sc_view_def)

lemma fresh_env0:
  "ie_sc E = ie_sc env0 \<Longrightarrow> ie_ah E = ah0 \<Longrightarrow> ie_txq E = ie_txq env0 \<Longrightarrow> fresh dev0 E"
  by (auto simp: fresh_def env0_def ah0_def softc0_def queues_of_def dev0_def)

section \<open>Properties\<close>

text \<open>
  C8: An attempt to bring a device up from a clean table: if it succeeds, taking the device down
  gives everything back. If it fails, nothing is given back twice, and what stays behind is
  known exactly: the DFS detector when \<open>ath9k_init_softc\<close> fails behind its creation, the EEPROM
  file when the output pin is refused, and the Bluetooth coexistence when the channels and rates
  cannot be set up. Nothing is left behind when a later step fails.
\<close>

theorem probe_leaks:
  fixes devid :: u16
  assumes "clean s" "fresh D E" "calm D"
  defines "t \<equiv> exec (probe D (E, devid)) s"
  shows "if res (probe D (E, devid)) s = 0 then clean (exec (ath9k_deinit_device D) t)
    else held_res t = {r. leaked E r} \<and> \<not> bad_release t"
  using probe_outcome [OF assms(1-3), of devid] device_down [OF _ assms(3)] unfolding t_def by simp

text \<open>The kernel refuses the pin to a device with an EEPROM file and a DFS detector.\<close>

definition env_leak :: init_env where
  "env_leak = env0\<lparr>ie_dfs := True, ie_gpio := -16, ie_pdata := Some
     \<lparr>pd_use_eeprom = False, pd_gpio_mask = 0, pd_gpio_val = 0, pd_led_pin = 0, pd_is_clk_25mhz = False,
      pd_get_mac_revision = None, pd_external_reset = None, pd_disable_2ghz = False, pd_disable_5ghz = False,
      pd_endian_check = False, pd_macaddr = None, pd_eeprom_name = Some ''board.bin'', pd_tx_gain_buffalo = False\<rparr>\<rparr>"

theorem probe_leaks_witness:
  "held_res (exec (probe dev0 (env_leak, 0x2a)) driver0) = {Dfs_detector_res, Eeprom_blob}"
proof -
  have f: "fresh dev0 env_leak" by (rule fresh_env0) (simp_all add: env_leak_def env0_def)
  have r: "res (probe dev0 (env_leak, 0x2a)) driver0 \<noteq> 0"
    using probe_outcome(1) [OF clean_driver0 f calm_dev0]
    by (simp add: device_result_def softc_result_def env_leak_def env0_def soc_result_def)
  have "{r. leaked env_leak r} = {Dfs_detector_res, Eeprom_blob}"
    by (auto elim!: leaked.elims simp: env_leak_def env0_def soc_result_def blob_loaded_def)
  with probe_leaks [OF clean_driver0 f calm_dev0, of "0x2a"] r show ?thesis by simp
qed

text \<open>
  However often the device is probed and removed, with whatever results of the functions of
  the kernel and of other files, the driver ends up holding nothing and never gives back what it
  does not hold, as long as none of the three leaking failures occurs.
\<close>

theorem probe_cycles_clean:
  assumes "calm D" "clean s" "\<And>E devid. (E, devid) \<in> set is \<Longrightarrow> fresh D E \<and> (\<forall>r. \<not> leaked E r)"
  shows "clean (load_cycles (probe D) (ath9k_deinit_device D) is s)"
  by (rule ath.cycles_idle [of _ _ D]) (use assms in \<open>auto simp: no_leak_def\<close>)

theorem probe_cycles_clean_witness:
  "clean (load_cycles (probe dev0) (ath9k_deinit_device dev0)
     [(env0, 0x2a), (env0\<lparr>ie_rx_init := -12\<rparr>, 0x2a), (env0\<lparr>ie_dfs := True, ie_register_hw := -17\<rparr>, 0x2b)] driver0)"
proof (rule probe_cycles_clean [OF calm_dev0 clean_driver0])
  fix E and devid :: u16
  assume "(E, devid) \<in> set [(env0, 0x2a), (env0\<lparr>ie_rx_init := -12\<rparr>, 0x2a),
    (env0\<lparr>ie_dfs := True, ie_register_hw := -17\<rparr>, 0x2b)]"
  then have E: "E \<in> {env0, env0\<lparr>ie_rx_init := -12\<rparr>, env0\<lparr>ie_dfs := True, ie_register_hw := -17\<rparr>}" by auto
  then have "fresh dev0 E" by (intro fresh_env0) (auto simp: env0_def)
  moreover have "\<not> leaked E r" for r
    using E by (cases r) (auto simp: env0_def soc_result_def blob_loaded_def)
  ultimately show "fresh dev0 E \<and> (\<forall>r. \<not> leaked E r)" by simp
qed

text \<open>
  C33: A device can be brought up, used and taken down any number of times. Between the cycles
  the table is clean, whether a probe succeeds or fails, and whatever run of callbacks,
  interrupts, tasklets, works, timers and regulatory changes the driver serves while it is up; nothing is
  given back that is not held, as long as none of the three leaking failures occurs.
\<close>

theorem serve_cycles_clean:
  assumes "calm D" "clean s" "\<And>E devid es. (E, devid, es) \<in> set is \<Longrightarrow> fresh D E \<and> (\<forall>r. \<not> leaked E r)"
  shows "clean (load_cycles (serve D) (ath9k_deinit_device D) is s)"
  by (rule ath_serve.cycles_idle [of _ _ D]) (use assms in \<open>auto simp: no_leak_def\<close>)

theorem serve_cycles_clean_witness:
  "clean (load_cycles (serve dev0) (ath9k_deinit_device dev0)
     [(env0, 0x2a, [Iface_op Op_start, Ev_isr, Ev_tasklet, Ev_reset_work, Iface_op Op_stop]),
      (env0\<lparr>ie_rx_init := -12\<rparr>, 0x2a, []),
      (env0\<lparr>ie_dfs := True, ie_register_hw := -17\<rparr>, 0x2b, [Ev_isr])] driver0)"
proof (rule serve_cycles_clean [OF calm_dev0 clean_driver0])
  fix E and devid :: u16 and es
  assume "(E, devid, es) \<in> set [(env0, 0x2a, [Iface_op Op_start, Ev_isr, Ev_tasklet, Ev_reset_work, Iface_op Op_stop]),
    (env0\<lparr>ie_rx_init := -12\<rparr>, 0x2a, []), (env0\<lparr>ie_dfs := True, ie_register_hw := -17\<rparr>, 0x2b, [Ev_isr])]"
  then have E: "E \<in> {env0, env0\<lparr>ie_rx_init := -12\<rparr>, env0\<lparr>ie_dfs := True, ie_register_hw := -17\<rparr>}" by auto
  then have "fresh dev0 E" by (intro fresh_env0) (auto simp: env0_def)
  moreover have "\<not> leaked E r" for r
    using E by (cases r) (auto simp: env0_def soc_result_def blob_loaded_def)
  ultimately show "fresh dev0 E \<and> (\<forall>r. \<not> leaked E r)" by simp
qed

text \<open>
  The whole life of a device leaves no lock and no user of the chip behind: bringing it up,
  any sequence of callbacks, interrupts, tasklets, works, timers and regulatory changes while it
  is up, and taking it down again. This holds for every outcome of every function of other files.
\<close>

theorem device_life_balanced:
  fixes devid :: u16 and s :: driver and es :: "event list"
  assumes "frames D ps_usecount" "locked (ie_sc E) = Some []"
  defines "t \<equiv> exec (do {
      _ \<leftarrow> probe D (E, devid);
      on_sc (for_each (ath9k_event D) es);
      ath9k_deinit_device D }) s"
  shows "locked (dsc t) = Some [] \<and> ps_usecount (dsc t) = ps_usecount (ie_sc E)"
proof -
  have ev: "balanced (on_sc (for_each (ath9k_event D) es))"
    using drv.run_inv [OF assms(1)] by (simp add: balanced_def)
  have "balanced (do { _ \<leftarrow> ath9k_init_device D E devid; on_sc (for_each (ath9k_event D) es); ath9k_deinit_device D })"
    by (intro balanced_rules balanced_init_device balanced_deinit_device ev assms(1))
  then show ?thesis using assms(2) unfolding t_def balanced_def by simp
qed

theorem device_life_balanced_witness:
  "locked (dsc (exec (do {
      _ \<leftarrow> probe dev0 (env0, 0x2a);
      on_sc (for_each (ath9k_event dev0) [Iface_op Op_start, Ev_isr, Ev_tasklet, Ev_reg_notifier 1, Iface_op Op_stop]);
      ath9k_deinit_device dev0 }) driver0)) = Some []"
proof -
  have "frames dev0 ps_usecount" by (rule frames_world0) simp
  moreover have "locked (ie_sc env0) = Some []" by (simp add: locked_def env0_def softc0_def)
  ultimately show ?thesis using device_life_balanced [of dev0 env0 "0x2a"] by blast
qed

section \<open>Queues and channels\<close>

lemma data_queue_null:
  "null_deref (exec (init_data_queue E i) s) \<longleftrightarrow> null_deref s \<or> ie_txq E (2 + i) = None"
  by (cases "ie_txq E (2 + i)") (simp_all add: init_data_queue_def ath_txq_setup_def mod_defs res_defs)

lemma data_queue_some:
  assumes "ie_txq E (2 + i) = Some q"
  shows "txq_map (dsc (exec (init_data_queue E i) s)) = (txq_map (dsc s))(i := q)"
    "txqsetup (dsc (exec (init_data_queue E i) s)) = (txqsetup (dsc s))(q := True)"
    "mac80211_qnum (scx (exec (init_data_queue E i) s)) = (mac80211_qnum (scx s))(q := i)"
    "txq_max_pending (scx (exec (init_data_queue E i) s)) = (txq_max_pending (scx s))(i := 123)"
  using assms by (simp_all add: init_data_queue_def ath_txq_setup_def mod_defs res_defs ATH_MAX_QDEPTH_def)

text \<open>
  C39: When the chip has a queue for each access category, different from each other, the two
  tables of the driver are inverse to each other after the queues are set up: the queue of
  category \<open>i\<close> carries the number \<open>i\<close> of mac80211, is marked as set up, and may hold 123 frames.
  When a queue is missing, the driver uses the null pointer it got.
\<close>

theorem queue_maps:
  fixes s :: driver and E :: init_env and D :: device
  assumes "\<not> null_deref s"
  defines "t \<equiv> exec (ath9k_init_queues D E) s"
  shows "if \<exists>i < 4. ie_txq E (2 + i) = None then null_deref t
    else \<not> null_deref t \<and> (inj_on (\<lambda>i. ie_txq E (2 + i)) {..<4} \<longrightarrow>
      (\<forall>i < 4. mac80211_qnum (scx t) (txq_map (dsc t) i) = i \<and> txqsetup (dsc t) (txq_map (dsc t) i) \<and>
        txq_max_pending (scx t) i = 123))"
proof -
  have i: "[0..<IEEE80211_NUM_ACS] = [0, 1, 2, 3]" by (simp add: IEEE80211_NUM_ACS_def upt_conv_Cons)
  have lt: "(i < (4 :: nat)) = (i = 0 \<or> i = 1 \<or> i = 2 \<or> i = 3)" for i by auto
  have ex4: "(\<exists>i < 4. R i) \<longleftrightarrow> R 0 \<or> R 1 \<or> R 2 \<or> R 3" for R :: "nat \<Rightarrow> bool" unfolding lt by blast
  define s1 where "s1 = exec (do {
     mod_scx (\<lambda>x. x\<lparr>beaconq := ie_beaconq E\<rparr>);
     q \<leftarrow> ath_txq_setup E 0;
     mod_scx (\<lambda>x. x\<lparr>cabq := q\<rparr>);
     on_sc (do_call D (Init Cabq_update));
     q \<leftarrow> ath_txq_setup E 1;
     mod_scx (\<lambda>x. x\<lparr>uapsdq := q\<rparr>) }) s"
  have n: "null_deref s1 = null_deref s"
    by (simp add: s1_def mod_defs ath_txq_setup_def res_defs split: option.split)
  have t: "t = exec (for_each (init_data_queue E) [0, 1, 2, 3]) s1"
    by (simp add: t_def s1_def ath9k_init_queues_def i)
  have null: "null_deref t \<longleftrightarrow> (\<exists>i < 4. ie_txq E (2 + i) = None)"
    using assms(1) n by (simp add: t data_queue_null ex4 numeral_2_eq_2 numeral_3_eq_3)
  show ?thesis
  proof (cases "\<exists>i < 4. ie_txq E (2 + i) = None")
    case True
    then have "null_deref t" using null by simp
    with True show ?thesis by simp
  next
    case False
    have "\<exists>q. ie_txq E (2 + i) = Some q" if "i < 4" for i using False that by auto
    then obtain q where q: "\<And>i. i < 4 \<Longrightarrow> ie_txq E (2 + i) = Some (q i)" by metis
    have nn: "\<not> null_deref t" using False null by simp
    have "mac80211_qnum (scx t) (txq_map (dsc t) i) = i \<and> txqsetup (dsc t) (txq_map (dsc t) i) \<and>
        txq_max_pending (scx t) i = 123" if "inj_on (\<lambda>i. ie_txq E (2 + i)) {..<4}" "i < 4" for i
    proof -
      have "q a \<noteq> q b" if "a < 4" "b < 4" "a \<noteq> b" for a b
        using that \<open>inj_on _ _\<close> q by (auto simp: inj_on_def)
      from this [of 0 1] this [of 0 2] this [of 0 3] this [of 1 2] this [of 1 3] this [of 2 3] that(2)
      show ?thesis
        using q [of 0] q [of 1] q [of 2] q [of 3] by (auto simp: t data_queue_some lt)
    qed
    with nn False show ?thesis by auto
  qed
qed

theorem queue_maps_witness:
  "map (\<lambda>i. mac80211_qnum (scx (exec (ath9k_init_queues dev0 env0) driver0))
     (txq_map (dsc (exec (ath9k_init_queues dev0 env0) driver0)) i)) [0, 1, 2, 3] = [0, 1, 2, 3]"
  using queue_maps [of driver0 env0 dev0] by (auto simp: driver0_def env0_def inj_on_def)

text \<open>
  Trying all channels for their power limits leaves the device on the channel it was on, if
  it was on one, and on the last channel of the last band otherwise. The reset that reads the
  entropy is done on exactly this channel.
\<close>

theorem power_limits_channel:
  fixes c :: softc and D :: device and m :: u32 and c5 :: bool and xs ys :: "nat list"
  assumes "frames D curchan" "channels_2ghz D = Some xs" "xs \<noteq> []" "channels_5ghz D = None \<or> channels_5ghz D = Some ys \<and> ys \<noteq> []"
  defines "t \<equiv> exec (ath9k_init_txpower_limits D m True c5) c"
  defines "ch \<equiv> (case curchan c of Some x \<Rightarrow> x | None \<Rightarrow> if c5 \<and> channels_5ghz D \<noteq> None then last ys else last xs)"
  shows "curchan t = Some ch \<and>
    (\<exists>es. trace (exec (ath_get_initial_entropy D) t) = es @ Call (Reset (Hw_reset (Some ch) False False)) # trace t)"
proof -
  have one: "curchan (exec (try_channel D m x) c) = Some x" for x c
    using assms(1) by (simp add: try_channel_def frames_world [OF assms(1)])
  have loop: "zs \<noteq> [] \<Longrightarrow> curchan (exec (for_each (try_channel D m) zs) c) = Some (last zs)" for zs c
  proof (induction zs arbitrary: c)
    case (Cons z zs)
    then show ?case by (cases "zs = []") (simp_all add: one)
  qed simp
  have "curchan t = Some ch"
    using assms(2-4) loop [OF assms(3)] loop [of ys]
    by (cases "curchan c") (auto simp: t_def ch_def ath9k_init_txpower_limits_def ath9k_init_band_txpower_def split: if_splits)
  then show ?thesis by (simp add: ath_get_initial_entropy_def)
qed

theorem power_limits_channel_witness:
  "curchan (exec (ath9k_init_txpower_limits dev0 63 True True) softc0) = Some 2"
proof -
  have "frames dev0 curchan" by (rule frames_world0) simp
  then show ?thesis
    using power_limits_channel [of dev0 "[0, 1, 2]" undefined 63 True softc0] by (simp add: dev0_def softc0_def)
qed

section \<open>The module\<close>

interpretation ath_module: kernel_module ath9k_init ath9k_exit "\<lambda>_. True" "{Ahb_driver, Pci_driver}"
  by unfold_locales (auto simp: ath9k_init_def ath9k_exit_def res_defs clean_def ENODEV_def Let_def split: prod.splits if_splits)

text \<open>Loading the module registers both bus drivers or none, whatever the two registrations return.\<close>

lemma module_cycles: "clean s \<Longrightarrow> clean (load_cycles ath9k_init ath9k_exit is s)"
  by (rule ath_module.cycles_clean) simp_all

text \<open>
  On the memory \<open>devm_kzalloc\<close> has just cleared, the platform data cannot take the antenna
  combining away: there is nothing to take, and \<open>ath9k_hw_init\<close> fills the capabilities later.
\<close>

lemma pcoem_caps:
  assumes "hw_caps (ah s) = {}"
  shows "hw_caps (ah (exec (ath9k_init_pcoem_platform E) s)) =
    (if cfg_pcoem (ie_params E) \<and> ie_bus_pci E \<and> ie_driver_data E AND ATH9K_PCI_BT_ANT_DIV \<noteq> 0
     then {CAP_BT_ANT_DIV} else {})"
  using assms by (simp add: ath9k_init_pcoem_platform_def Let_def mod_defs)

section \<open>The exported pointer\<close>

lemma keeps_null [keeps_intros]:
  "keeps ah_null (on_sc m)" "keeps ah_null (mod_sc f)" "keeps ah_null (mod_ah g)" "keeps ah_null (mod_scx k)"
  "keeps ah_null (mod_hw h)" "keeps ah_null (acquire r)" "keeps ah_null (release r)"
  by (simp_all add: keeps_def mod_defs res_defs)

lemma keeps_null_down [keeps_intros]:
  "keeps ah_null (cleanup_queues D)" "keeps ah_null (ath9k_deinit_softc D)" "keeps ah_null (ath9k_deinit_device D)"
  "keeps ah_null (err_btcoex D r)" "keeps ah_null (err_queues r)" "keeps ah_null (err_hw r)" "keeps ah_null (err_gpio r)"
  unfolding ath9k_deinit_device_def ath9k_deinit_softc_def cleanup_queues_def ath_tx_cleanupq_def
    ath9k_eeprom_release_def err_btcoex_def err_queues_def err_hw_def err_gpio_def
  by (intro keeps_intros)+

lemma keeps_null_softc [keeps_intros]:
  "keeps ah_null (ath9k_init_pcoem_platform E)" "keeps ah_null (ath9k_init_soc_platform E)"
  "keeps ah_null (init_softc_hw D E)" "keeps ah_null (ath9k_set_hw_capab D E)" "keeps ah_null (init_device_register D E)"
  "keeps ah_null (deinit D r)"
  unfolding init_softc_hw_def init_softc_end_def ath9k_init_misc_def ath9k_init_pcoem_platform_def
    ath9k_init_soc_platform_def ath9k_eeprom_request_def ath9k_eeprom_request_cb_def ath9k_init_queues_def
    init_data_queue_def ath_txq_setup_def ath9k_set_hw_capab_def init_device_register_def deinit_def rx_cleanup_def
    unregister_def debug_cleanup_def Let_def
  by (intro keeps_intros; simp)+

text \<open>
  The memory behind \<open>ath9k_ah\<close> belongs to the device and goes away with it, after a failed attempt
  and after the removal. The pointer other modules import is never set back: it stays what the
  allocation returned.
\<close>

lemma exported_pointer_stays:
  "ah_null (exec (ath9k_init_device D E devid) s) = (\<not> ie_kzalloc E)"
  "ah_null (exec (ath9k_deinit_device D) s) = ah_null s"
proof -
  note k = keeps_null_down keeps_null_softc
  show "ah_null (exec (ath9k_deinit_device D) s) = ah_null s" by (rule keepsD) (rule k)
  have "ah_null (exec (ath9k_init_softc D E devid) s) = (\<not> ie_kzalloc E)"
    by (simp add: ath9k_init_softc_def keepsD [OF keeps_null_softc(1)] keepsD [OF keeps_null_softc(2)]
        keepsD [OF keeps_null_softc(3)] mod_defs res_defs)
  then show "ah_null (exec (ath9k_init_device D E devid) s) = (\<not> ie_kzalloc E)"
    by (simp add: ath9k_init_device_def keepsD [OF keeps_null_softc(4)] keepsD [OF keeps_null_softc(5)]
        keepsD [OF keeps_null_softc(6)] res_defs)
qed

end
