(* ===== verification/Ath_Descdma.thy ===== *)
theory Ath_Descdma
  imports Ucsma_Prelude
begin

text \<open>
  The descriptor areas of the driver: \<open>ath_descdma_setup\<close> of \<open>ath9k/init.c\<close> with the macros of
  \<open>ath9k.h\<close>. A descriptor must not start in the last 128 bytes of a page, so such places are
  skipped, and the area is made longer by one descriptor for each page. Lengths and addresses
  are 32-bit words, a place in the area is its offset from the area's start. The chip's
  descriptor length, its capability and the results of the allocations are inputs.
\<close>

section \<open>The length of the area\<close>

definition BOUND_CHECK :: "u32 \<Rightarrow> bool" where
  "BOUND_CHECK daddr \<longleftrightarrow> daddr AND 0xFFF > 0xF7F"

definition NUM_SKIPPED :: "u32 \<Rightarrow> u32" where
  "NUM_SKIPPED l = l div 4096"

text \<open>The loop that adds the skipped descriptors; \<open>None\<close> when it does not end.\<close>

partial_function (option) skip_len :: "u32 \<Rightarrow> u32 \<Rightarrow> u32 \<Rightarrow> u32 option" where
  "skip_len desc_len ndesc_skipped len =
     (if ndesc_skipped = 0 then Some len
      else let dma_len = ndesc_skipped * desc_len
           in skip_len desc_len (NUM_SKIPPED dma_len) (len + dma_len))"

definition desc_area_len :: "bool \<Rightarrow> u32 \<Rightarrow> u32 \<Rightarrow> u32 \<Rightarrow> u32 option" where
  "desc_area_len splittrans desc_len nbuf ndesc =
     (let len = desc_len * nbuf * ndesc
      in if splittrans then Some len else skip_len desc_len (NUM_SKIPPED len) len)"

section \<open>The places of the descriptors\<close>

datatype dma_fault = Bug_on | Diverges

text \<open>
  The inner loop moves a descriptor on until it is clear of the end of a page. It stops with
  \<open>BUG_ON\<close> behind the area, and it never ends when a step does not move it.
\<close>

function next_place :: "u32 \<Rightarrow> nat \<Rightarrow> nat \<Rightarrow> nat \<Rightarrow> dma_fault + nat" where
  "next_place paddr len step off =
     (if BOUND_CHECK (paddr + of_nat off) then
        if off \<ge> len then Inl Bug_on
        else if step = 0 then Inl Diverges
        else next_place paddr len step (off + step)
      else Inr off)"
  by pat_completeness auto
termination by (relation "measure (\<lambda>(paddr, len, step, off). len - off)") auto

declare next_place.simps [simp del]

text \<open>The loop over the buffers, the same for both directions, yields their descriptors' offsets.\<close>

fun place_buffers :: "bool \<Rightarrow> u32 \<Rightarrow> nat \<Rightarrow> nat \<Rightarrow> nat \<Rightarrow> nat \<Rightarrow> dma_fault + nat list" where
  "place_buffers splittrans paddr len step 0 ds = Inr []"
| "place_buffers splittrans paddr len step (Suc n) ds =
     (case (if splittrans then Inr ds else next_place paddr len step ds) of
        Inl e \<Rightarrow> Inl e
      | Inr off \<Rightarrow>
          (case place_buffers splittrans paddr len step n (off + step) of
             Inl e \<Rightarrow> Inl e
           | Inr offs \<Rightarrow> Inr (off # offs)))"

record dma_env =
  de_tx_desc_len :: u32
  de_ath_desc_size :: u32
  de_splittrans :: bool
  de_area :: "u32 option"     \<comment> \<open>\<open>dmam_alloc_coherent\<close>: the area's address for the device\<close>
  de_bufs :: bool             \<comment> \<open>\<open>devm_kzalloc\<close> of the buffers succeeds\<close>

datatype dma_result =
    Fault dma_fault | Failed int
  | Ready u32 "nat list"      \<comment> \<open>length of the area, offsets of the descriptors\<close>

definition ath_descdma_setup :: "dma_env \<Rightarrow> u32 \<Rightarrow> u32 \<Rightarrow> bool \<Rightarrow> dma_result" where
  "ath_descdma_setup E nbuf ndesc is_tx =
     (let desc_len = (if is_tx then de_tx_desc_len E else de_ath_desc_size E)
      in if desc_len mod 4 \<noteq> 0 then Fault Bug_on
         else case desc_area_len (de_splittrans E) desc_len nbuf ndesc of
                None \<Rightarrow> Fault Diverges
              | Some len \<Rightarrow>
                  (case de_area E of
                     None \<Rightarrow> Failed (- ENOMEM)
                   | Some paddr \<Rightarrow>
                       if \<not> de_bufs E then Failed (- ENOMEM)
                       else case place_buffers (de_splittrans E) paddr (unat len)
                                   (unat (desc_len * ndesc)) (unat nbuf) 0 of
                              Inl e \<Rightarrow> Fault e
                            | Inr offs \<Rightarrow> Ready len offs))"

section \<open>Lemmas\<close>

definition fits_page :: "u32 \<Rightarrow> nat \<Rightarrow> bool" where
  "fits_page paddr off \<longleftrightarrow> \<not> BOUND_CHECK (paddr + of_nat off)"

text \<open>The places of a run, as multiples of the step.\<close>

lemma next_place_spec:
  assumes "next_place paddr len step off = Inr off'"
  shows "\<exists>k. off' = off + k * step \<and> fits_page paddr off' \<and> (\<forall>j < k. \<not> fits_page paddr (off + j * step))"
  using assms
proof (induction paddr len step off rule: next_place.induct)
  case (1 paddr len step off)
  show ?case
  proof (cases "fits_page paddr off")
    case True
    then show ?thesis using "1.prems" by (subst (asm) next_place.simps) (auto simp: fits_page_def intro: exI [of _ 0])
  next
    case False
    then have b: "BOUND_CHECK (paddr + of_nat off)" by (simp add: fits_page_def)
    then have r: "next_place paddr len step (off + step) = Inr off'" "\<not> len \<le> off" "step \<noteq> 0"
      using "1.prems" by (subst (asm) next_place.simps, auto split: if_splits)+
    from "1.IH" [OF b r(2,3,1)] obtain k where
      k: "off' = off + step + k * step" "fits_page paddr off'" "\<forall>j < k. \<not> fits_page paddr (off + step + j * step)" by blast
    have "\<not> fits_page paddr (off + j * step)" if "j < Suc k" for j
      using False k(3) that by (cases j) (simp_all add: add.assoc)
    then show ?thesis using k(1,2) by (intro exI [of _ "Suc k"]) auto
  qed
qed

text \<open>The reference: all multiples of the step that do not cross a page's end, in order.\<close>

definition places :: "u32 \<Rightarrow> nat \<Rightarrow> nat \<Rightarrow> nat \<Rightarrow> nat list" where
  "places paddr step i m = filter (fits_page paddr) (map (\<lambda>k. k * step) [i..<m])"

lemma places_skip:
  assumes "\<forall>j < k. \<not> fits_page paddr ((i + j) * step)" "fits_page paddr ((i + k) * step)" "i + k < m"
  shows "places paddr step i m = (i + k) * step # places paddr step (Suc (i + k)) m"
proof -
  have s: "[i..<m] = [i..<i + k] @ (i + k) # [Suc (i + k)..<m]"
    using assms(3) upt_add_eq_append [of i "i + k" "m - (i + k)"] upt_conv_Cons [of "i + k" m] by simp
  have "filter (fits_page paddr) (map (\<lambda>j. j * step) [i..<i + k]) = []"
  proof (clarsimp simp: filter_empty_conv)
    fix j assume "i \<le> j" "j < i + k" "fits_page paddr (j * step)"
    moreover then have "i + (j - i) = j" "j - i < k" by simp_all
    ultimately show False using assms(1) by metis
  qed
  then show ?thesis using assms(2) unfolding places_def s by simp
qed

lemma place_buffers_spec:
  assumes "place_buffers False paddr len step n (i * step) = Inr offs"
  shows "\<exists>m \<ge> i. offs = places paddr step i m \<and> length offs = n \<and> (offs \<noteq> [] \<longrightarrow> last offs = (m - 1) * step \<and> i < m)"
  using assms
proof (induction n arbitrary: i offs)
  case 0
  then show ?case by (intro exI [of _ i]) (simp add: places_def)
next
  case (Suc n)
  then obtain off os where np: "next_place paddr len step (i * step) = Inr off"
    and os: "place_buffers False paddr len step n (off + step) = Inr os" and offs: "offs = off # os"
    by (auto split: sum.splits)
  from next_place_spec [OF np] obtain k where k: "off = (i + k) * step" "fits_page paddr ((i + k) * step)"
    "\<forall>j < k. \<not> fits_page paddr ((i + j) * step)"
    unfolding add_mult_distrib by blast
  have "off + step = Suc (i + k) * step" using k(1) by simp
  with os have "place_buffers False paddr len step n (Suc (i + k) * step) = Inr os" by simp
  from Suc.IH [OF this] obtain m where m: "m \<ge> Suc (i + k)" "os = places paddr step (Suc (i + k)) m" "length os = n"
    "os \<noteq> [] \<longrightarrow> last os = (m - 1) * step \<and> Suc (i + k) < m" by blast
  show ?case
  proof (cases "os = []")
    case True
    then show ?thesis using m k offs places_skip [OF k(3,2), of "Suc (i + k)"]
      by (intro exI [of _ "Suc (i + k)"]) (simp add: places_def)
  next
    case False
    then show ?thesis using m k offs places_skip [OF k(3,2), of m]
      by (intro exI [of _ m]) auto
  qed
qed

text \<open>The loop on the length ends for descriptors shorter than a page.\<close>

lemma skip_len_ends:
  assumes "desc_len < 4096"
  shows "n < 2 ^ 20 \<Longrightarrow> \<exists>len'. skip_len desc_len n len = Some len'"
proof (induction "unat n" arbitrary: n len rule: less_induct)
  case less
  have d: "unat desc_len < 4096" and n: "unat n < 2 ^ 20"
    using assms less.prems by (simp_all add: word_less_nat_alt)
  show ?case
  proof (cases "n = 0")
    case True
    then show ?thesis by (subst skip_len.simps) simp
  next
    case False
    then have n0: "0 < unat n" by (simp add: unat_gt_0)
    have "unat n * unat desc_len < unat n * 4096" using n0 d by (simp only: mult_less_mono2)
    moreover have "unat n * unat desc_len < 2 ^ 20 * 4096"
      using n d n0 by (intro mult_strict_mono) simp_all
    ultimately have nd: "unat n * unat desc_len < unat n * 4096" "unat n * unat desc_len < 2 ^ 32" by simp_all
    then have u: "unat (n * desc_len) = unat n * unat desc_len"
      by (simp add: unat_word_ariths)
    have "unat (NUM_SKIPPED (n * desc_len)) = unat n * unat desc_len div 4096"
      by (simp add: NUM_SKIPPED_def unat_div_distrib u)
    with nd(1) have less': "unat (NUM_SKIPPED (n * desc_len)) < unat n"
      by (simp add: less_mult_imp_div_less)
    then have "NUM_SKIPPED (n * desc_len) < 2 ^ 20"
      using less.prems by (simp add: word_less_nat_alt)
    from less.hyps [OF less' this] show ?thesis
      using False by (subst skip_len.simps) (simp add: Let_def)
  qed
qed

lemma num_skipped_less: "NUM_SKIPPED len < 2 ^ 20"
proof -
  have "unat len div 4096 < 2 ^ 20" using unat_bound [of len] by (simp add: less_mult_imp_div_less)
  then show ?thesis by (simp add: NUM_SKIPPED_def word_less_nat_alt unat_div_distrib)
qed

lemma place_buffers_moves:
  assumes "step \<noteq> 0 \<or> len = 0"
  shows "place_buffers b paddr len step n ds \<noteq> Inl Diverges"
proof -
  have np: "next_place paddr len step off \<noteq> Inl Diverges" for off
    using assms
    by (induction paddr len step off rule: next_place.induct) (subst next_place.simps, auto)
  show ?thesis
  proof (induction n arbitrary: ds)
    case (Suc n)
    show ?case using np [of ds] Suc.IH by (auto split: sum.splits)
  qed simp
qed

text \<open>An area that starts on a page.\<close>

lemma bound_check_nat: "BOUND_CHECK daddr = (unat daddr mod 4096 > 0xF7F)"
proof -
  have "daddr AND 0xFFF = take_bit 12 daddr"
    unfolding take_bit_eq_mask by (simp add: mask_eq_exp_minus_1)
  then have "unat (daddr AND 0xFFF) = unat daddr mod 4096"
    by (simp only: unsigned_take_bit_eq) (simp add: take_bit_nat_def)
  then show ?thesis unfolding BOUND_CHECK_def word_less_nat_alt by simp
qed

lemma bound_check_low:
  assumes "unat paddr mod 4096 = 0"
  shows "BOUND_CHECK (paddr + x) = BOUND_CHECK x"
proof -
  have "unat (paddr + x) mod 4096 = (unat paddr + unat x) mod 4096"
    by (simp add: unat_word_ariths mod_mod_cancel)
  also have "\<dots> = unat x mod 4096" using assms mod_add_left_eq [of "unat paddr" 4096 "unat x"] by simp
  finally show ?thesis by (simp add: bound_check_nat)
qed

text \<open>The first place that is clear of a page's end is found, if it starts in the area.\<close>

lemma next_place_finds:
  assumes "step \<noteq> 0" "\<forall>j < k. \<not> fits_page paddr ((i + j) * step)" "fits_page paddr ((i + k) * step)"
    and "\<forall>j < k. (i + j) * step < len"
  shows "next_place paddr len step (i * step) = Inr ((i + k) * step)"
  using assms(2-)
proof (induction k arbitrary: i)
  case 0
  then show ?case by (subst next_place.simps) (simp add: fits_page_def)
next
  case (Suc k)
  have i: "\<not> fits_page paddr (i * step)" using Suc.prems(1) [rule_format, of 0] by simp
  have l: "i * step < len" using Suc.prems(3) [rule_format, of 0] by simp
  have "next_place paddr len step (Suc i * step) = Inr ((Suc i + k) * step)"
    using Suc.prems by (intro Suc.IH allI impI) (auto dest: spec [of _ "Suc _"])
  then show ?case using i l assms(1) by (subst next_place.simps) (simp add: fits_page_def add.commute)
qed

lemma distinct_places: "step \<noteq> 0 \<Longrightarrow> distinct (places paddr step i m)"
  by (simp add: places_def distinct_map inj_on_def)

lemma place_buffers_exist:
  assumes "step \<noteq> 0" "\<forall>k < m. fits_page paddr (k * step) \<or> k * step < len" "n \<le> length (places paddr step i m)"
  shows "\<exists>offs. place_buffers False paddr len step n (i * step) = Inr offs \<and> (\<forall>off \<in> set offs. off + step \<le> m * step)"
  using assms(3)
proof (induction n arbitrary: i)
  case (Suc n)
  let ?P = "\<lambda>k. fits_page paddr ((i + k) * step)"
  from Suc.prems have "places paddr step i m \<noteq> []" by auto
  then obtain k0 where "i \<le> k0" "k0 < m" "fits_page paddr (k0 * step)" by (auto simp: places_def filter_empty_conv)
  then have ex: "?P (k0 - i)" "i + (k0 - i) < m" by simp_all
  define k where "k = (LEAST k. ?P k)"
  have k: "?P k" "\<forall>j < k. \<not> ?P j" "i + k < m"
    unfolding k_def using LeastI [of ?P, OF ex(1)] not_less_Least Least_le [of ?P, OF ex(1)] ex(2) by auto
  have "\<forall>j < k. (i + j) * step < len" using assms(2) k(2,3) by (metis add_less_cancel_left order.strict_trans)
  then have np: "next_place paddr len step (i * step) = Inr ((i + k) * step)"
    using assms k by (intro next_place_finds) auto
  have "n \<le> length (places paddr step (Suc (i + k)) m)"
    using Suc.prems places_skip [OF k(2,1,3)] by simp
  from Suc.IH [OF this] obtain os where os: "place_buffers False paddr len step n (Suc (i + k) * step) = Inr os"
    "\<forall>off \<in> set os. off + step \<le> m * step" by blast
  have e: "(i + k) * step + step = Suc (i + k) * step" by simp
  have "Suc (i + k) * step \<le> m * step" using k(3) by (intro mult_le_mono1) simp
  then show ?case using np os by (simp add: e del: mult_Suc)
qed simp

lemma place_buffers_fits:
  assumes "step \<noteq> 0"
  shows "(\<exists>offs. place_buffers False paddr len step n 0 = Inr offs \<and> (\<forall>off \<in> set offs. off + step \<le> len))
    \<longleftrightarrow> n \<le> length (places paddr step 0 (len div step))"
proof (intro iffI)
  assume "n \<le> length (places paddr step 0 (len div step))"
  moreover have "k * step < len" if "k < len div step" for k
  proof -
    have "k * step < len div step * step" using that assms by simp
    also have "\<dots> \<le> len" by simp
    finally show ?thesis .
  qed
  ultimately have "\<exists>offs. place_buffers False paddr len step n (0 * step) = Inr offs \<and>
      (\<forall>off \<in> set offs. off + step \<le> len div step * step)"
    using assms by (intro place_buffers_exist) auto
  then show "\<exists>offs. place_buffers False paddr len step n 0 = Inr offs \<and> (\<forall>off \<in> set offs. off + step \<le> len)"
    by (fastforce intro: le_trans)
next
  assume "\<exists>offs. place_buffers False paddr len step n 0 = Inr offs \<and> (\<forall>off \<in> set offs. off + step \<le> len)"
  then obtain offs where offs: "place_buffers False paddr len step n (0 * step) = Inr offs"
    and le: "\<forall>off \<in> set offs. off + step \<le> len" by auto
  from place_buffers_spec [OF offs] obtain m where m: "offs = places paddr step 0 m" "length offs = n" by blast
  have "set offs \<subseteq> set (places paddr step 0 (len div step))"
  proof
    fix off assume off: "off \<in> set offs"
    then obtain k where k: "off = k * step" "fits_page paddr (k * step)" unfolding m by (auto simp: places_def)
    have "Suc k * step \<le> len" using le off k by auto
    then have "k < len div step" using assms less_eq_div_iff_mult_less_eq [of step "Suc k" len] by auto
    with k show "off \<in> set (places paddr step 0 (len div step))" by (auto simp: places_def)
  qed
  then have "card (set offs) \<le> length (places paddr step 0 (len div step))"
    by (meson card_length card_mono finite_set le_trans)
  then show "n \<le> length (places paddr step 0 (len div step))"
    using distinct_places [OF assms] m distinct_card [of offs] by simp
qed

lemma skip_len_step:
  "skip_len d n len = (if n = 0 then Some len else skip_len d (NUM_SKIPPED (n * d)) (len + n * d))"
  by (subst skip_len.simps) (simp add: Let_def)

text \<open>The places in an area of a given length, and how to count them from a page on.\<close>

definition good_places :: "u32 \<Rightarrow> u32 \<Rightarrow> nat \<Rightarrow> nat" where
  "good_places paddr len step =
     length (filter (\<lambda>k. \<not> BOUND_CHECK (paddr + of_nat (k * step))) [0..<unat len div step])"

definition count_good :: "nat \<Rightarrow> nat \<Rightarrow> nat \<Rightarrow> nat" where
  "count_good step i m = length (filter (\<lambda>k. k * step mod 4096 \<le> 3967) [i..<m])"

lemma count_good_rec:
  "count_good step i m =
     (if i < m then (if i * step mod 4096 \<le> 3967 then 1 else 0) + count_good step (i + 1) m else 0)"
  by (simp add: count_good_def upt_conv_Cons)

lemma count_good_append:
  assumes "i \<le> l" "l \<le> m"
  shows "count_good step i m = count_good step i l + count_good step l m"
proof -
  have "[i..<m] = [i..<l] @ [l..<m]" using assms upt_add_eq_append [of i l "m - l"] by simp
  then show ?thesis by (simp add: count_good_def)
qed

lemma fits_page_low:
  assumes "unat paddr mod 4096 = 0" "off < 2 ^ 32"
  shows "fits_page paddr off \<longleftrightarrow> off mod 4096 \<le> 3967"
  unfolding fits_page_def bound_check_low [OF assms(1)]
  unfolding bound_check_nat unat_of_nat using assms(2) by (simp add: take_bit_nat_def not_less)

lemma places_low:
  assumes "unat paddr mod 4096 = 0" "m * step \<le> 2 ^ 32" "step \<noteq> 0"
  shows "length (places paddr step i m) = count_good step i m"
proof -
  have "k * step < 2 ^ 32" if "k < m" for k
  proof -
    have "k * step < m * step" using that assms(3) by simp
    then show ?thesis using assms(2) by (rule less_le_trans)
  qed
  then have "filter (\<lambda>k. fits_page paddr (k * step)) [i..<m] = filter (\<lambda>k. k * step mod 4096 \<le> 3967) [i..<m]"
    by (intro filter_cong) (simp_all add: fits_page_low [OF assms(1)])
  then show ?thesis by (simp add: places_def count_good_def filter_map comp_def)
qed

lemma good_places_length: "good_places paddr len step = length (places paddr step 0 (unat len div step))"
  by (simp add: good_places_def places_def filter_map comp_def fits_page_def)

lemma good_places_low:
  assumes "unat paddr mod 4096 = 0" "step \<noteq> 0"
  shows "good_places paddr len step = count_good step 0 (unat len div step)"
  unfolding good_places_length
proof (rule places_low [OF assms(1) _ assms(2)])
  have "unat len div step * step \<le> unat len" by simp
  also have "unat len \<le> 2 ^ 32" using unat_bound [of len] by simp
  finally show "unat len div step * step \<le> 2 ^ 32" .
qed

lemma descdma_fits_iff:
  assumes "d = (if is_tx then de_tx_desc_len E else de_ath_desc_size E)" "d mod 4 = 0"
    and "step = unat (d * ndesc)" "step \<noteq> 0" "desc_area_len False d nbuf ndesc = Some len"
    and "de_area E = Some paddr" "de_bufs E" "\<not> de_splittrans E"
  shows "(\<exists>offs. ath_descdma_setup E nbuf ndesc is_tx = Ready len offs \<and>
      (\<forall>off \<in> set offs. off + step \<le> unat len)) \<longleftrightarrow> unat nbuf \<le> good_places paddr len step"
proof -
  have "ath_descdma_setup E nbuf ndesc is_tx =
      (case place_buffers False paddr (unat len) step (unat nbuf) 0 of Inl e \<Rightarrow> Fault e | Inr offs \<Rightarrow> Ready len offs)"
    using assms by (simp add: ath_descdma_setup_def Let_def)
  then show ?thesis unfolding good_places_length using place_buffers_fits [OF assms(4), of paddr "unat len" "unat nbuf"]
    by (auto split: sum.splits)
qed

section \<open>Properties\<close>

text \<open>A device with descriptors of 128 bytes for transmission and \<open>d\<close> bytes for reception.\<close>

definition dma0 :: "u32 \<Rightarrow> dma_env" where
  "dma0 d = \<lparr>de_tx_desc_len = 128, de_ath_desc_size = d, de_splittrans = False,
     de_area = Some 0x10000, de_bufs = True\<rparr>"

text \<open>
  C32: The set-up agrees with the plain specification of the descriptors' places: without the
  capability they are the first \<open>nbuf\<close> multiples of the descriptor size whose address is not in
  the last 128 bytes of a page, none left out and in this order; with it they simply follow each
  other. So descriptors never overlap.
\<close>

theorem descdma_places:
  assumes "ath_descdma_setup E nbuf ndesc is_tx = Ready len offs" "de_area E = Some paddr"
    and "step = unat ((if is_tx then de_tx_desc_len E else de_ath_desc_size E) * ndesc)"
  shows "length offs = unat nbuf \<and>
    (if de_splittrans E then offs = map (\<lambda>k. k * step) [0..<unat nbuf]
     else \<exists>m. offs = filter (\<lambda>off. \<not> BOUND_CHECK (paddr + of_nat off)) (map (\<lambda>k. k * step) [0..<m]))"
proof -
  have pb: "place_buffers (de_splittrans E) paddr (unat len) step (unat nbuf) 0 = Inr offs"
    using assms by (auto simp: ath_descdma_setup_def Let_def split: if_splits option.splits sum.splits)
  have split: "place_buffers True paddr l step n (i * step) = Inr (map (\<lambda>k. k * step) [i..<i + n])" for l n i
  proof (induction n arbitrary: i)
    case (Suc n)
    have "[i..<i + Suc n] = i # [Suc i..<Suc i + n]" by (simp add: upt_conv_Cons)
    then show ?case using Suc.IH [of "Suc i"] by (simp add: add.commute)
  qed simp
  show ?thesis
  proof (cases "de_splittrans E")
    case True
    then show ?thesis using pb split [of "unat len" "unat nbuf" 0] by auto
  next
    case False
    then have "place_buffers False paddr (unat len) step (unat nbuf) (0 * step) = Inr offs" using pb by simp
    from place_buffers_spec [OF this] False show ?thesis
      by (auto simp: places_def fits_page_def [abs_def])
  qed
qed

theorem descdma_places_witness:
  "ath_descdma_setup (dma0 0\<lparr>de_tx_desc_len := 1984\<rparr>) 3 1 True = Ready 7936 [0, 1984, 5952] \<and>
   (\<exists>m. [0, 1984, 5952] = filter (\<lambda>off. \<not> BOUND_CHECK (0x10000 + of_nat off)) (map (\<lambda>k. k * 1984) [0..<m]))"
proof -
  have n: "next_place 0x10000 7936 1984 0 = Inr 0" "next_place 0x10000 7936 1984 1984 = Inr 1984"
    "next_place 0x10000 7936 1984 5952 = Inr 5952"
    by (subst next_place.simps, simp add: BOUND_CHECK_def)+
  have "next_place 0x10000 7936 1984 3968 = next_place 0x10000 7936 1984 5952"
    by (subst next_place.simps) (simp add: BOUND_CHECK_def)
  then have "place_buffers False 0x10000 7936 1984 3 0 = Inr [0, 1984, 5952]"
    using n by (simp add: numeral_3_eq_3)
  then have e: "ath_descdma_setup (dma0 0\<lparr>de_tx_desc_len := 1984\<rparr>) 3 1 True = Ready 7936 [0, 1984, 5952]"
    by (simp add: ath_descdma_setup_def dma0_def desc_area_len_def NUM_SKIPPED_def skip_len_step)
  with descdma_places [OF e, of "0x10000" 1984] show ?thesis by (simp add: dma0_def)
qed

text \<open>
  The set-up always comes to an end for descriptors shorter than a page: the loop on the
  length ends, and so does the search for a place.
\<close>

theorem descdma_terminates:
  assumes "(if is_tx then de_tx_desc_len E else de_ath_desc_size E) < 4096"
  shows "ath_descdma_setup E nbuf ndesc is_tx \<noteq> Fault Diverges"
proof -
  let ?d = "if is_tx then de_tx_desc_len E else de_ath_desc_size E"
  obtain len where len: "desc_area_len (de_splittrans E) ?d nbuf ndesc = Some len"
    using skip_len_ends [OF assms num_skipped_less] unfolding desc_area_len_def Let_def by (cases "de_splittrans E") auto
  have "unat (?d * ndesc) \<noteq> 0 \<or> unat len = 0"
  proof (cases "?d * ndesc = 0")
    case True
    then have "?d * nbuf * ndesc = 0" by (metis mult.assoc mult.commute mult_zero_right)
    then have "len = 0" using len unfolding desc_area_len_def Let_def
      by (subst (asm) skip_len.simps) (simp add: NUM_SKIPPED_def split: if_splits)
    then show ?thesis by simp
  next
    case False
    then show ?thesis by (simp add: unat_eq_0)
  qed
  from place_buffers_moves [OF this] show ?thesis
    using len by (auto simp: ath_descdma_setup_def Let_def split: option.splits sum.splits)
qed

theorem descdma_terminates_witness: "ath_descdma_setup (dma0 96) 256 1 False \<noteq> Fault Diverges"
  by (rule descdma_terminates) (simp add: dma0_def)

text \<open>
  C16: The set-up succeeds with every descriptor inside the area exactly when the area holds
  enough places: of the multiples of the step whose step lies inside the area, at least
  \<open>nbuf\<close> are not in the last 128 bytes of a page.
\<close>

theorem descdma_fits:
  assumes "d = (if is_tx then de_tx_desc_len E else de_ath_desc_size E)" "d mod 4 = 0"
    and "step = unat (d * ndesc)" "step \<noteq> 0" "desc_area_len False d nbuf ndesc = Some len"
    and "de_area E = Some paddr" "de_bufs E" "\<not> de_splittrans E"
  shows "(\<exists>offs. ath_descdma_setup E nbuf ndesc is_tx = Ready len offs \<and>
      (\<forall>off \<in> set offs. off + step \<le> unat len)) \<longleftrightarrow> unat nbuf \<le> good_places paddr len step"
  using assms by (rule descdma_fits_iff)

text \<open>80 transmit descriptors of 128 bytes, as the driver asks for them.\<close>

lemma tx_area: "desc_area_len False 128 80 1 = Some 10496"
  by (simp add: desc_area_len_def NUM_SKIPPED_def skip_len_step)

lemma tx_good: "good_places 0x10000 10496 128 = 80"
  by (simp add: good_places_low count_good_rec)

lemma rx_262: "count_good 96 0 262 = 254" "count_good 104 0 262 = 255"
  by (simp_all add: count_good_rec)

lemma rx_counts: "count_good 96 0 264 = 256" "count_good 104 0 263 = 256"
proof -
  have "count_good 96 262 264 = 2" "count_good 104 262 263 = 1" by (simp_all add: count_good_rec)
  then show "count_good 96 0 264 = 256" "count_good 104 0 263 = 256"
    using count_good_append [of 0 262 264 96] count_good_append [of 0 262 263 104] by (simp_all add: rx_262)
qed

theorem descdma_fits_witness:
  "\<exists>offs. ath_descdma_setup (dma0 104) 80 1 True = Ready 10496 offs \<and> (\<forall>off \<in> set offs. off + 128 \<le> 10496)"
  using descdma_fits [of 128 True "dma0 104" 128 1 80 10496 "0x10000"] tx_area tx_good
  by (simp add: dma0_def)

text \<open>
  C30: The area is too short for 256 receive descriptors of 96 or of 104 bytes (the sizes of a
  descriptor of 24 words, and of one that also has an 8 byte pointer): the loop on the length
  leaves out places for the places that are skipped in the added part, and rounds down. The
  set-up succeeds without an error, and its last descriptor lies behind the area.
\<close>

theorem descdma_overruns:
  assumes "d \<in> {96, 104}" "de_ath_desc_size E = d" "unat paddr mod 4096 = 0"
    and "de_area E = Some paddr" "de_bufs E" "\<not> de_splittrans E"
  shows "\<exists>offs. ath_descdma_setup E 256 1 False = Ready (262 * d) offs \<and>
    (\<exists>off \<in> set offs. unat (262 * d) < off + unat d)"
proof -
  let ?m = "if d = 96 then 264 else 263 :: nat"
  have len: "desc_area_len False d 256 1 = Some (262 * d)"
    using assms(1) by (auto simp: desc_area_len_def NUM_SKIPPED_def skip_len_step)
  have d: "d mod 4 = 0" "unat d \<noteq> 0" "?m * unat d \<le> 2 ^ 32" using assms(1) by auto
  have few: "\<not> 256 \<le> good_places paddr (262 * d) (unat d)"
    using assms(1) rx_262 by (auto simp: good_places_low [OF assms(3)])
  have "\<forall>k < ?m. fits_page paddr (k * unat d) \<or> k * unat d < unat (262 * d)"
  proof (intro allI impI)
    fix k assume k: "k < ?m"
    then have "k * unat d < 2 ^ 32" using assms(1) by (auto split: if_splits)
    moreover have "k < 262 \<or> k = 262 \<or> k = 263 \<and> d = 96" using k by (auto split: if_splits)
    ultimately show "fits_page paddr (k * unat d) \<or> k * unat d < unat (262 * d)"
      using assms(1) by (auto simp: fits_page_low [OF assms(3)])
  qed
  moreover have "256 \<le> length (places paddr (unat d) 0 ?m)"
    unfolding places_low [OF assms(3) d(3,2)] using assms(1) rx_counts by auto
  ultimately obtain offs where "place_buffers False paddr (unat (262 * d)) (unat d) 256 (0 * unat d) = Inr offs"
    using place_buffers_exist [OF d(2)] by blast
  then have "ath_descdma_setup E 256 1 False = Ready (262 * d) offs"
    using assms d(1) len by (simp add: ath_descdma_setup_def Let_def)
  then show ?thesis
    using few descdma_fits_iff [of d False E "unat d" 1 256 "262 * d" paddr] assms d len by fastforce
qed

theorem descdma_overruns_witness:
  "\<exists>offs. ath_descdma_setup (dma0 96) 256 1 False = Ready 25152 offs \<and> (\<exists>off \<in> set offs. 25152 < off + 96)"
  using descdma_overruns [of 96 "dma0 96" "0x10000"] by (simp add: dma0_def)

end
