(* ===== verification/Ath_Aggr.thy ===== *)
theory Ath_Aggr
  imports Ucsma_Prelude
begin

text \<open>
  Arithmetic macros of \<open>ath9k/ath9k.h\<close>, for aggregation and the block acknowledgement window: sequence
  numbers modulo 4096, the window test, the bitmap, the delimiters that pad a short subframe, the
  ring index, the beacon time units and the rate classes. C's \<open>int\<close> is a 32-bit word, a \<open>u16\<close> argument is extended to it.
\<close>

section \<open>Definitions\<close>

definition IEEE80211_SEQ_MAX :: u32 where "IEEE80211_SEQ_MAX = 4096"
definition ATH_AGGR_DELIM_SZ :: nat where "ATH_AGGR_DELIM_SZ = 4"
definition ATH_AGGR_MINPLEN :: nat where "ATH_AGGR_MINPLEN = 256"

definition ATH_BA_INDEX :: "u16 \<Rightarrow> u16 \<Rightarrow> u32" where
  "ATH_BA_INDEX st seq = (ucast seq - ucast st) AND (IEEE80211_SEQ_MAX - 1)"

definition ATH_BA_INDEX2SEQ :: "u16 \<Rightarrow> u32 \<Rightarrow> u32" where
  "ATH_BA_INDEX2SEQ seq off = (ucast seq + off) AND (IEEE80211_SEQ_MAX - 1)"

definition BAW_WITHIN :: "u16 \<Rightarrow> u16 \<Rightarrow> u16 \<Rightarrow> bool" where
  "BAW_WITHIN st bawsz seqno \<longleftrightarrow> ((ucast seqno - ucast st) AND 4095 :: u32) <s ucast bawsz"

text \<open>\<open>DIV_ROUND_UP\<close> of the kernel.\<close>

definition DIV_ROUND_UP :: "nat \<Rightarrow> nat \<Rightarrow> nat" where
  "DIV_ROUND_UP n d = (n + d - 1) div d"

definition ATH_AGGR_GET_NDELIM :: "nat \<Rightarrow> nat" where
  "ATH_AGGR_GET_NDELIM len =
     (if len \<ge> ATH_AGGR_MINPLEN then 0 else DIV_ROUND_UP (ATH_AGGR_MINPLEN - len) ATH_AGGR_DELIM_SZ)"

text \<open>The bitmap has \<open>WME_BA_BMP_SIZE\<close> bits, a parameter, in words of 32 bits.\<close>

definition ATH_BA_ISSET :: "nat \<Rightarrow> u32 list \<Rightarrow> nat \<Rightarrow> bool" where
  "ATH_BA_ISSET bmp_size bm n \<longleftrightarrow> n < bmp_size \<and> (bm ! (n div 32)) AND push_bit (n mod 32) 1 \<noteq> 0"

text \<open>The index of a ring whose size is a power of two.\<close>

definition INCR :: "u32 \<Rightarrow> u32 \<Rightarrow> u32" where
  "INCR l sz = (l + 1) AND (sz - 1)"

datatype wme_ac = AC_VO | AC_VI | AC_BE | AC_BK

definition TID_TO_WME_AC :: "nat \<Rightarrow> wme_ac" where
  "TID_TO_WME_AC tid =
     (if tid = 0 \<or> tid = 3 then AC_BE else if tid = 1 \<or> tid = 2 then AC_BK
      else if tid = 4 \<or> tid = 5 then AC_VI else AC_VO)"

text \<open>The time of the chip, in two words of microseconds, in units of 1024 microseconds.\<close>

definition TSF_TO_TU :: "u32 \<Rightarrow> u32 \<Rightarrow> u32" where
  "TSF_TO_TU h l = push_bit 22 h OR drop_bit 10 l"

definition IS_HT_RATE :: "u8 \<Rightarrow> bool" where "IS_HT_RATE rate \<longleftrightarrow> rate AND 0x80 \<noteq> 0"
definition IS_CCK_RATE :: "u8 \<Rightarrow> bool" where "IS_CCK_RATE rate \<longleftrightarrow> rate \<ge> 0x18 \<and> rate \<le> 0x1e"
definition IS_OFDM_RATE :: "u8 \<Rightarrow> bool" where "IS_OFDM_RATE rate \<longleftrightarrow> rate \<ge> 0x8 \<and> rate \<le> 0xf"

section \<open>Lemmas\<close>

lemma and_4095: "uint ((x :: u32) AND 4095) = uint x mod 4096"
proof -
  have "x AND 4095 = take_bit 12 x" unfolding take_bit_eq_mask by (simp add: mask_eq_exp_minus_1)
  then show ?thesis by (simp only: unsigned_take_bit_eq) (simp add: take_bit_int_def)
qed

lemma uint_ext: "uint (ucast (x :: u16) :: u32) = uint x"
proof -
  have "uint x < 2 ^ 32" using uint_bounded [of x] by simp
  then show ?thesis by (simp add: unsigned_ucast_eq take_bit_int_eq_self)
qed

lemma uint_ba_index: "uint (ATH_BA_INDEX st seq) = (uint seq - uint st) mod 4096"
  by (simp add: ATH_BA_INDEX_def IEEE80211_SEQ_MAX_def and_4095 uint_word_ariths uint_ext mod_mod_cancel)

lemma uint_ba_index2seq: "uint (ATH_BA_INDEX2SEQ seq off) = (uint seq + uint off) mod 4096"
  by (simp add: ATH_BA_INDEX2SEQ_def IEEE80211_SEQ_MAX_def and_4095 uint_word_ariths uint_ext mod_mod_cancel)

lemma baw_within_int: "BAW_WITHIN st bawsz seqno \<longleftrightarrow> (uint seqno - uint st) mod 4096 < uint bawsz"
proof -
  let ?i = "(ucast seqno - ucast st) AND 4095 :: u32" and ?b = "ucast bawsz :: u32"
  have i: "uint ?i = (uint seqno - uint st) mod 4096"
    using uint_ba_index [of st seqno] by (simp add: ATH_BA_INDEX_def IEEE80211_SEQ_MAX_def)
  have "uint ?i < 2 ^ 31" "uint ?b < 2 ^ 31"
    using i uint_bounded [of bawsz] pos_mod_bound [of 4096 "uint seqno - uint st"] by (simp_all add: uint_ext)
  moreover have "sint x = uint x" if "uint x < 2 ^ 31" for x :: u32
  proof -
    have "- (2 ^ 31) \<le> (0 :: int)" by simp
    also have "0 \<le> uint x" by simp
    finally have "- (2 ^ 31) \<le> uint x" .
    then show ?thesis using that by (simp add: sint_uint signed_take_bit_int_eq_self)
  qed
  ultimately have "sint ?i = uint ?i" "sint ?b = uint ?b" by blast+
  then have "?i <s ?b \<longleftrightarrow> uint ?i < uint ?b" by (simp add: word_sless_alt)
  then show ?thesis by (simp add: BAW_WITHIN_def i uint_ext)
qed

lemma mod_steps:
  fixes a b :: int
  assumes "0 \<le> b" "b < 4096"
  shows "(a + (b - a) mod 4096) mod 4096 = b" "((a + b) mod 4096 - a) mod 4096 = b"
  using assms by (simp_all add: mod_add_right_eq mod_diff_left_eq)

section \<open>Properties\<close>

text \<open>
  The index of a sequence number in a block acknowledgement bitmap and the sequence number
  of an index are inverse to each other, also where the numbers wrap around at 4096.
\<close>

theorem ba_index_roundtrip:
  "(uint seq < 4096 \<longrightarrow> ATH_BA_INDEX2SEQ st (ATH_BA_INDEX st seq) = ucast seq) \<and>
   (uint off < 4096 \<longrightarrow> ATH_BA_INDEX st (ucast (ATH_BA_INDEX2SEQ st off)) = off)"
proof (intro conjI impI)
  assume s: "uint seq < 4096"
  have "uint (ATH_BA_INDEX2SEQ st (ATH_BA_INDEX st seq)) = uint (ucast seq :: u32)"
    using s by (simp add: uint_ba_index2seq uint_ba_index mod_steps uint_ext)
  then show "ATH_BA_INDEX2SEQ st (ATH_BA_INDEX st seq) = ucast seq" by (simp only: word_uint_eq_iff)
next
  assume o: "uint off < 4096"
  let ?s = "ucast (ATH_BA_INDEX2SEQ st off) :: u16"
  have "(uint st + uint off) mod 4096 < 65536"
    using pos_mod_bound [of 4096 "uint st + uint off"] by simp
  then have "uint ?s = (uint st + uint off) mod 4096"
    by (simp add: unsigned_ucast_eq uint_ba_index2seq take_bit_int_eq_self)
  then have "uint (ATH_BA_INDEX st ?s) = uint off"
    using o by (simp add: uint_ba_index mod_steps)
  then show "ATH_BA_INDEX st ?s = off" by (simp only: word_uint_eq_iff)
qed

theorem ba_index_roundtrip_witness:
  "ATH_BA_INDEX2SEQ 4090 (ATH_BA_INDEX 4090 3) = 3 \<and> ATH_BA_INDEX 4090 (ucast (ATH_BA_INDEX2SEQ 4090 9)) = 9"
  using ba_index_roundtrip [of 3 4090 9] by simp

text \<open>
  The window test holds exactly for the sequence numbers of the window: those that are
  reached from its start by less than \<open>bawsz\<close> steps modulo 4096.
\<close>

theorem baw_within_window:
  assumes "uint seqno < 4096" "uint bawsz \<le> 4096"
  shows "BAW_WITHIN st bawsz seqno \<longleftrightarrow> (\<exists>off. uint off < uint bawsz \<and> ATH_BA_INDEX2SEQ st off = ucast seqno)"
proof
  assume "BAW_WITHIN st bawsz seqno"
  then have "uint (ATH_BA_INDEX st seqno) < uint bawsz" by (simp add: baw_within_int uint_ba_index)
  moreover have "uint (ATH_BA_INDEX2SEQ st (ATH_BA_INDEX st seqno)) = uint (ucast seqno :: u32)"
    using assms(1) by (simp add: uint_ba_index2seq uint_ba_index mod_steps uint_ext)
  ultimately show "\<exists>off. uint off < uint bawsz \<and> ATH_BA_INDEX2SEQ st off = ucast seqno"
    by (metis word_uint_eq_iff)
next
  assume "\<exists>off. uint off < uint bawsz \<and> ATH_BA_INDEX2SEQ st off = ucast seqno"
  then obtain off where o: "uint off < uint bawsz" "ATH_BA_INDEX2SEQ st off = ucast seqno" by blast
  have "(uint st + uint off) mod 4096 = uint seqno" using o(2) uint_ba_index2seq [of st off] by (simp add: uint_ext)
  moreover have "((uint st + uint off) mod 4096 - uint st) mod 4096 = uint off" using o(1) assms(2) by (simp add: mod_steps)
  ultimately show "BAW_WITHIN st bawsz seqno" using o(1) by (simp add: baw_within_int)
qed

theorem baw_within_window_witness:
  "BAW_WITHIN 4090 64 3 \<and> (\<exists>off. uint off < 64 \<and> ATH_BA_INDEX2SEQ 4090 off = 3)"
proof -
  have "BAW_WITHIN 4090 64 3" by (simp add: baw_within_int)
  then show ?thesis using baw_within_window [of 3 64 4090] by simp
qed

text \<open>
  The delimiters pad a subframe to at least 256 bytes, and no smaller number does.
\<close>

theorem delimiters_minimal:
  "len + ATH_AGGR_DELIM_SZ * ATH_AGGR_GET_NDELIM len \<ge> ATH_AGGR_MINPLEN \<and>
   (\<forall>n. len + ATH_AGGR_DELIM_SZ * n \<ge> ATH_AGGR_MINPLEN \<longrightarrow> ATH_AGGR_GET_NDELIM len \<le> n)"
proof -
  have "len < 256 \<Longrightarrow> len + 4 * ((259 - len) div 4) \<ge> 256" by presburger
  moreover have "len + 4 * n \<ge> 256 \<Longrightarrow> (259 - len) div 4 \<le> n" for n by presburger
  ultimately show ?thesis
    by (auto simp add: ATH_AGGR_GET_NDELIM_def DIV_ROUND_UP_def ATH_AGGR_MINPLEN_def ATH_AGGR_DELIM_SZ_def)
qed

text \<open>The ring index stays inside its ring and comes back to the start after the last place.\<close>

lemma incr_ring:
  assumes "n < 32" "unat l < 2 ^ n"
  shows "unat (INCR l (push_bit n 1)) = (unat l + 1) mod 2 ^ n"
proof -
  have "unat l + 1 < 2 ^ 32"
    using assms(2) power_strict_increasing [OF assms(1), of "2 :: nat"] by simp
  then have "unat (l + 1) = unat l + 1" by (simp add: unat_add_small)
  moreover have "INCR l (push_bit n 1) = take_bit n (l + 1)"
    by (simp add: INCR_def take_bit_eq_mask mask_eq_exp_minus_1 push_bit_of_1)
  ultimately show ?thesis by (simp only: unsigned_take_bit_eq) (simp add: take_bit_nat_def)
qed

text \<open>
  The beacon time units computed from the two halves of the chip's 64-bit time are the time
  divided by 1024, modulo 32 bits: the shifts lose and mix no bits.
\<close>

theorem tsf_to_tu_division:
  "TSF_TO_TU (ucast (drop_bit 32 t)) (ucast t) = ucast ((t :: 64 word) div 1024)"
proof -
  have "t div 1024 = drop_bit 10 t" by (simp add: drop_bit_eq_div)
  moreover have "TSF_TO_TU (ucast (drop_bit 32 t)) (ucast t) = ucast (drop_bit 10 t)"
    unfolding TSF_TO_TU_def by (rule bit_word_eqI) (auto simp: bit_simps)
  ultimately show ?thesis by simp
qed

end
