(* ===== verification/Unlock_Protocol.thy ===== *)
theory Unlock_Protocol
  imports Event_Log
begin

text \<open>
  The unlock protocol as the modules are meant to play it, on mathematical integers: a signal that
  comes between half a period and a second after the last accepted one is relayed by a pulse and
  sets the timer, at the timeout a node pulses by itself. Both modules, \<open>kernel-module/unlock.c\<close> and
  \<open>kernel-module/unlock_with_log.c\<close>, refine it; a network of nodes is a family of them.
\<close>

section \<open>The protocol\<close>

text \<open>Times and delays in nanoseconds, the parameters in microseconds.\<close>

record proto =
  p_last :: int
  p_prev :: int
  p_timer :: "int option"
  p_pulses :: nat

text \<open>A signal comes with its time and the two random draws below \<open>2 Delta\<close>.\<close>

datatype proto_ev = Signal int int int | Timeout

definition proto_accepts :: "int \<Rightarrow> int \<Rightarrow> proto \<Rightarrow> bool" where
  "proto_accepts T t p \<longleftrightarrow> T * 500 \<le> t - p_last p \<and> t - p_last p < nsec_per_sec"

definition proto_period :: "int \<Rightarrow> int \<Rightarrow> proto \<Rightarrow> int" where
  "proto_period T r p =
     (let d = p_last p - p_prev p in if T * 1000 < d \<and> d < nsec_per_sec then T - r else T + r)"

fun proto_step :: "int \<Rightarrow> bool \<Rightarrow> proto_ev \<Rightarrow> proto \<Rightarrow> proto" where
  "proto_step T rearm (Signal t r b) p =
     (if proto_accepts T t p
      then \<lparr>p_last = t, p_prev = p_last p, p_timer = Some ((proto_period T r p - b) * 1000),
            p_pulses = p_pulses p + 1\<rparr>
      else p)"
| "proto_step T rearm Timeout p =
     p\<lparr>p_timer := (if rearm then Some (T * 1000) else None), p_pulses := p_pulses p + 1\<rparr>"

definition proto_run :: "int \<Rightarrow> bool \<Rightarrow> proto_ev list \<Rightarrow> proto \<Rightarrow> proto" where
  "proto_run T rearm es p = fold (proto_step T rearm) es p"

text \<open>In a burst that is shorter than half a period, at most one signal is relayed.\<close>

fun signal_time :: "proto_ev \<Rightarrow> int option" where
  "signal_time (Signal t r b) = Some t"
| "signal_time Timeout = None"

definition in_burst :: "int \<Rightarrow> int \<Rightarrow> proto_ev \<Rightarrow> bool" where
  "in_burst T t0 e \<longleftrightarrow> (\<exists>t. signal_time e = Some t \<and> t0 \<le> t \<and> t < t0 + T * 500)"

lemma burst_quiet:
  assumes "\<And>e. e \<in> set es \<Longrightarrow> in_burst T t0 e" "t0 \<le> p_last p"
  shows "proto_run T rearm es p = p"
  using assms
proof (induction es)
  case (Cons e es)
  from Cons.prems(1) [of e] obtain t r b where e: "e = Signal t r b" "t < t0 + T * 500"
    by (cases e) (auto simp: in_burst_def)
  then have "\<not> proto_accepts T t p" using Cons.prems(2) by (simp add: proto_accepts_def)
  then show ?case using Cons e(1) by (simp add: proto_run_def)
qed (simp add: proto_run_def)

lemma burst_once:
  assumes "\<And>e. e \<in> set es \<Longrightarrow> in_burst T t0 e"
  shows "p_pulses (proto_run T rearm es p) \<le> p_pulses p + 1"
  using assms
proof (induction es arbitrary: p)
  case Nil
  then show ?case by (simp add: proto_run_def)
next
  case (Cons e es)
  from Cons.prems [of e] obtain t r b where e: "e = Signal t r b" "t0 \<le> t"
    by (cases e) (auto simp: in_burst_def)
  show ?case
  proof (cases "proto_accepts T t p")
    case True
    let ?p = "proto_step T rearm e p"
    have "t0 \<le> p_last ?p" using True e by simp
    then have "proto_run T rearm es ?p = ?p" using Cons.prems by (intro burst_quiet) auto
    then show ?thesis using True e by (simp add: proto_run_def)
  next
    case False
    then show ?thesis using Cons.IH [of p] Cons.prems e by (simp add: proto_run_def)
  qed
qed

section \<open>The contract of a node\<close>

datatype node_ev = N_irq irq_input | N_timer timespec

fun abs_ev :: "u32 \<Rightarrow> node_ev \<Rightarrow> proto_ev" where
  "abs_ev D (N_irq I) =
     Signal (timespec_ns (in_now I)) (uint (in_rng I mod (D + D))) (uint (in_backoff I mod (D + D)))"
| "abs_ev D (N_timer t) = Timeout"

text \<open>\<open>ok n s\<close>: the state is good for \<open>n\<close> more events.\<close>

locale unlock_node =
  fixes step :: "node_ev \<Rightarrow> 's \<Rightarrow> 's"
    and abs :: "'s \<Rightarrow> proto"
    and ok :: "nat \<Rightarrow> 's \<Rightarrow> bool"
    and pT :: "'s \<Rightarrow> u32"
    and pD :: "'s \<Rightarrow> u32"
    and rearm :: bool
  assumes sim: "ok (Suc n) s \<Longrightarrow> abs (step e s) = proto_step (uint (pT s)) rearm (abs_ev (pD s) e) (abs s)"
    and keep: "ok (Suc n) s \<Longrightarrow> ok n (step e s) \<and> pT (step e s) = pT s \<and> pD (step e s) = pD s"
    and fewer: "ok (Suc n) s \<Longrightarrow> ok n s"
begin

lemma ok_mono: "ok n s \<Longrightarrow> m \<le> n \<Longrightarrow> ok m s"
  by (induction n) (auto simp: le_Suc_eq fewer)

lemma refines:
  "ok (length es) s \<Longrightarrow> abs (fold step es s) = proto_run (uint (pT s)) rearm (map (abs_ev (pD s)) es) (abs s)"
proof (induction es arbitrary: s)
  case (Cons e es)
  then have "ok (Suc (length es)) s" by simp
  from keep [OF this, of e] sim [OF this, of e] Cons.IH [of "step e s"] show ?case by (simp add: proto_run_def)
qed (simp add: proto_run_def)

text \<open>A network of such nodes: each event happens at one of them.\<close>

definition net_step :: "'n \<times> node_ev \<Rightarrow> ('n \<Rightarrow> 's) \<Rightarrow> 'n \<Rightarrow> 's" where
  "net_step e N = N(fst e := step (snd e) (N (fst e)))"

lemma net_local: "fold net_step es N i = fold step (map snd (filter (\<lambda>e. fst e = i) es)) (N i)"
  by (induction es arbitrary: N) (auto simp: net_step_def)

lemma net_burst:
  assumes "ok (length es) (N i)" "\<And>I. (i, I) \<in> set es \<Longrightarrow> in_burst (uint (pT (N i))) t0 (abs_ev (pD (N i)) I)"
  shows "p_pulses (abs (fold net_step es N i)) \<le> p_pulses (abs (N i)) + 1"
proof -
  let ?es = "map snd (filter (\<lambda>e. fst e = i) es)"
  have "length ?es \<le> length es" by simp
  then have r: "abs (fold step ?es (N i)) = proto_run (uint (pT (N i))) rearm (map (abs_ev (pD (N i))) ?es) (abs (N i))"
    using assms(1) ok_mono by (intro refines) blast
  show ?thesis unfolding net_local r
    by (rule burst_once [of _ _ t0]) (use assms(2) in auto)
qed

end

section \<open>\<open>unlock.c\<close>\<close>

definition params_ok :: "u32 \<Rightarrow> u32 \<Rightarrow> bool" where
  "params_ok T D \<longleftrightarrow> 0 < D \<and> 4 * unat D \<le> unat T \<and> unat T + 2 * unat D \<le> 4294967"

definition pulses :: "unlock_ev list \<Rightarrow> nat" where
  "pulses tr = length (filter (\<lambda>e. e = Gpio_set 21 True) tr)"

definition unlock_abs :: "unlock_state \<Rightarrow> proto" where
  "unlock_abs s = \<lparr>p_last = timespec_ns (last_unlock s), p_prev = timespec_ns (last_unlock_2nd s),
     p_timer = map_option uint (unlock_timer s), p_pulses = pulses (utrace s)\<rparr>"

fun unlock_step :: "chip \<Rightarrow> node_ev \<Rightarrow> unlock_state \<Rightarrow> unlock_state" where
  "unlock_step K (N_irq I) s = exec (unlock_r_irq_handler K I) s"
| "unlock_step K (N_timer t) s = timer_fires K s"

text \<open>The arithmetic of both modules agrees with the protocol's as long as nothing wraps.\<close>

lemma params_bounds:
  assumes "params_ok T D"
  shows "unat T * 500 < 2 ^ 32" "uint (T * 1000) = uint T * 1000" "uint (x mod (D + D)) < 2 * uint D"
    "D + D \<noteq> 0"
proof -
  have b: "unat T \<le> 4294967" "4 * unat D \<le> unat T" "0 < unat D"
    using assms by (auto simp: params_ok_def word_less_nat_alt)
  then show "unat T * 500 < 2 ^ 32" by simp
  show "uint (T * 1000) = uint T * 1000"
    using unat_mult_small [of T 1000] b by (simp only: uint_nat) simp
  have "unat (x mod (D + D)) < 2 * unat D" using assms b by (intro unat_mod_double) (simp_all add: params_ok_def)
  then show "uint (x mod (D + D)) < 2 * uint D" unfolding uint_nat by linarith
  have "unat (D + D) = 2 * unat D" using b by (simp add: unat_word_ariths)
  then have "unat (D + D) \<noteq> 0" using b by simp
  then show "D + D \<noteq> 0" by force
qed

lemma period_no_wrap:
  fixes T D r b :: int
  assumes "0 \<le> r" "r < 2 * D" "0 \<le> b" "b < 2 * D" "4 * D \<le> T" "T + 2 * D \<le> 4294967"
  shows "(T - r) mod 2 ^ 32 = T - r" "(T + r) mod 2 ^ 32 = T + r"
    "((if c then T - r else T + r) - b) mod 2 ^ 32 = (if c then T - r else T + r) - b"
    "(((if c then T - r else T + r) - b) * 1000) mod 2 ^ 32 = ((if c then T - r else T + r) - b) * 1000"
proof -
  show "(T - r) mod 2 ^ 32 = T - r" by (rule mod_pos_pos_trivial) (use assms in auto)
  show "(T + r) mod 2 ^ 32 = T + r" by (rule mod_pos_pos_trivial) (use assms in auto)
  show "((if c then T - r else T + r) - b) mod 2 ^ 32 = (if c then T - r else T + r) - b"
    by (rule mod_pos_pos_trivial) (use assms in auto)
  show "(((if c then T - r else T + r) - b) * 1000) mod 2 ^ 32 = ((if c then T - r else T + r) - b) * 1000"
    by (rule mod_pos_pos_trivial) (use assms in auto)
qed

lemma delay_abs:
  assumes P: "params_ok T D" and r: "r = x mod (D + D)" and b: "b = y mod (D + D)"
  shows "uint (timer_delay (next_period T r (timespec_sub l2 l1)) b * 1000) =
    (proto_period (uint T) (uint r) \<lparr>p_last = timespec_ns l2, p_prev = timespec_ns l1, p_timer = t, p_pulses = k\<rparr>
     - uint b) * 1000"
proof -
  let ?d = "timespec_sub l2 l1" and ?n = "timespec_ns l2 - timespec_ns l1"
  note B = params_bounds [OF P]
  have n: "4 * unat D \<le> unat T" "unat T + 2 * unat D \<le> 4294967" using P by (simp_all add: params_ok_def)
  have u: "uint w = int (unat w)" for w :: u32 by (rule uint_nat)
  have i: "uint r < 2 * uint D" "uint b < 2 * uint D" using B(3) [of x] B(3) [of y] by (simp_all only: r b)
  have t: "4 * uint D \<le> uint T" "uint T + 2 * uint D \<le> 4294967" using n unfolding u by linarith+
  note W = period_no_wrap [OF uint_ge_0 i(1) uint_ge_0 i(2) t]
  have w: "uint (nsec_word ?d) = tv_nsec ?d" by (rule uint_nsec_word) (rule tv_nsec_sub_range)+
  have c: "tv_sec ?d \<noteq> 0 \<or> nsec_word ?d \<le> T * 1000 \<longleftrightarrow> \<not> (uint T * 1000 < ?n \<and> ?n < nsec_per_sec)"
  proof (cases "tv_sec ?d = 0")
    case True
    then show ?thesis by (auto simp: word_le_def w B(2) tv_nsec_sub_same_sec tv_sec_sub_zero_iff)
  next
    case False
    moreover have "0 \<le> uint T" by simp
    ultimately show ?thesis unfolding tv_sec_sub_zero_iff by (simp, linarith)
  qed
  have p: "uint (next_period T r ?d) = (if uint T * 1000 < ?n \<and> ?n < nsec_per_sec then uint T - uint r else uint T + uint r)"
    unfolding next_period_def c by (simp add: uint_word_ariths W(1,2) [simplified])
  have "uint (next_period T r ?d - b) = uint (next_period T r ?d) - uint b"
    unfolding uint_word_ariths p using W(3) by simp
  moreover have "uint (v * 1000) = uint v * 1000 mod 2 ^ 32" for v :: u32 by (simp add: uint_word_ariths)
  ultimately have "uint ((next_period T r ?d - b) * 1000) = (uint (next_period T r ?d) - uint b) * 1000"
    using W(4) unfolding p by presburger
  then show ?thesis by (simp add: timer_delay_eq p proto_period_def Let_def)
qed

lemma proto_accepts_iff:
  assumes "params_ok T D"
  shows "proto_accepts (uint T) (timespec_ns now) \<lparr>p_last = timespec_ns l, p_prev = a, p_timer = t, p_pulses = k\<rparr> \<longleftrightarrow>
    \<not> dropped T (timespec_sub now l)"
proof -
  have "0 \<le> uint T" by simp
  then show ?thesis
    unfolding dropped_iff [OF params_bounds(1) [OF assms]] proto_accepts_def by (simp, linarith)
qed

definition unlock_ok :: "nat \<Rightarrow> unlock_state \<Rightarrow> bool" where
  "unlock_ok n s \<longleftrightarrow> txbuf_fff s \<noteq> None \<and> \<not> driver_lock s \<and> params_ok (par_T s) (par_Delta s)"

lemma unlock_irq_abs:
  fixes K :: chip and I :: irq_input
  assumes "unlock_ok n s"
  defines "t \<equiv> exec (unlock_r_irq_handler K I) s"
  shows "unlock_abs t = proto_step (uint (par_T s)) rearm (abs_ev (par_Delta s) (N_irq I)) (unlock_abs s)"
    and "unlock_ok m t \<and> par_T t = par_T s \<and> par_Delta t = par_Delta s"
proof -
  from assms(1) obtain b where b: "txbuf_fff s = Some b" "\<not> driver_lock s"
    and P: "params_ok (par_T s) (par_Delta s)" by (auto simp: unlock_ok_def)
  have D: "delta_ok (after_cw K b s)" using params_bounds(4) [OF P] by (simp add: delta_ok_def)
  note sp = irq_split(1) [OF b(2,1), of K I]
  have acc: "accepts I s \<longleftrightarrow> proto_accepts (uint (par_T s)) (timespec_ns (in_now I)) (unlock_abs s)"
    using proto_accepts_iff [OF P] by (simp add: accepts_def unlock_abs_def)
  have del: "uint (delay_of I (after_cw K b s) * 1000) =
      (proto_period (uint (par_T s)) (uint (in_rng I mod (par_Delta s + par_Delta s))) (unlock_abs s)
       - uint (in_backoff I mod (par_Delta s + par_Delta s))) * 1000"
    unfolding delay_of_def backoff_of_def after_cw_fields unlock_abs_def by (rule delay_abs [OF P refl refl])
  show "unlock_abs t = proto_step (uint (par_T s)) rearm (abs_ev (par_Delta s) (N_irq I)) (unlock_abs s)"
  proof (cases "accepts I s")
    case True
    then show ?thesis using acc del
      unfolding t_def by (simp add: sp unlock_abs_def [of "exec _ _"] relay_effect [OF D]) (simp add: unlock_abs_def pulses_def)
  next
    case False
    then show ?thesis using acc unfolding t_def by (simp add: sp) (simp add: unlock_abs_def)
  qed
  show "unlock_ok m t \<and> par_T t = par_T s \<and> par_Delta t = par_Delta s"
    using b P unfolding t_def unlock_ok_def by (simp add: sp relay_effect [OF D])
qed

lemma unlock_timer_abs:
  assumes "unlock_ok n s"
  shows "unlock_abs (timer_fires K s) = proto_step (uint (par_T s)) True Timeout (unlock_abs s)"
    and "unlock_ok m (timer_fires K s) \<and> par_T (timer_fires K s) = par_T s \<and> par_Delta (timer_fires K s) = par_Delta s"
proof -
  from assms obtain b where b: "txbuf_fff (s\<lparr>unlock_timer := None\<rparr>) = Some b" and P: "params_ok (par_T s) (par_Delta s)"
    by (auto simp: unlock_ok_def)
  let ?t = "exec (unlock_timer_handler K) (s\<lparr>unlock_timer := None\<rparr>)"
  have f: "last_unlock ?t = last_unlock s" "last_unlock_2nd ?t = last_unlock_2nd s" "par_T ?t = par_T s"
    "par_Delta ?t = par_Delta s" "utrace ?t = Gpio_set 21 False # Udelay 1 # Gpio_set 21 True # utrace s"
    using b by (simp_all add: unlock_timer_handler_def Let_def)
  have e: "timer_fires K s = ?t" by (simp add: timer_fires_def Let_def timer_handler_some [OF b])
  show "unlock_abs (timer_fires K s) = proto_step (uint (par_T s)) True Timeout (unlock_abs s)"
    unfolding e by (simp add: unlock_abs_def f timer_handler_some [OF b] params_bounds(2) [OF P] pulses_def)
  show "unlock_ok m (timer_fires K s) \<and> par_T (timer_fires K s) = par_T s \<and> par_Delta (timer_fires K s) = par_Delta s"
    using assms unfolding e unlock_ok_def by (simp add: f timer_handler_some [OF b])
qed

interpretation unlock: unlock_node "unlock_step K" unlock_abs unlock_ok par_T par_Delta True for K
proof
  fix n s e
  assume a: "unlock_ok (Suc n) s"
  show "unlock_abs (unlock_step K e s) = proto_step (uint (par_T s)) True (abs_ev (par_Delta s) e) (unlock_abs s)"
    using unlock_irq_abs(1) [OF a] unlock_timer_abs(1) [OF a] by (cases e) (simp_all del: proto_step.simps)
  show "unlock_ok n (unlock_step K e s) \<and> par_T (unlock_step K e s) = par_T s \<and> par_Delta (unlock_step K e s) = par_Delta s"
    using unlock_irq_abs(2) [OF a] unlock_timer_abs(2) [OF a] by (cases e) (simp_all only: unlock_step.simps)
qed (simp add: unlock_ok_def)

section \<open>\<open>unlock_with_log.c\<close>\<close>

definition ulog_abs :: "ulog_state \<Rightarrow> proto" where
  "ulog_abs s = \<lparr>p_last = timespec_ns (w_last_unlock s), p_prev = timespec_ns (w_last_unlock_2nd s),
     p_timer = map_option uint (w_timer s), p_pulses = pulses (w_trace s)\<rparr>"

fun ulog_step :: "chip \<Rightarrow> node_ev \<Rightarrow> ulog_state \<Rightarrow> ulog_state" where
  "ulog_step K (N_irq I) s = exec (log_irq_handler K I) s"
| "ulog_step K (N_timer t) s = exec (log_timer_handler t) s"

text \<open>There is room in the log for the events to come.\<close>

definition ulog_ok :: "nat \<Rightarrow> ulog_state \<Rightarrow> bool" where
  "ulog_ok n s \<longleftrightarrow> w_ok s \<and> \<not> w_lock s \<and> params_ok (w_T s) (w_Delta s) \<and> unat (w_count s) + n \<le> 1000"

lemma log_event_fields:
  assumes "w_ok s" "unat (w_count s) < 1000"
  shows "w_last_unlock (exec (log_event t b) s) = w_last_unlock s"
    "w_last_unlock_2nd (exec (log_event t b) s) = w_last_unlock_2nd s"
    "unat (w_count (exec (log_event t b) s)) = Suc (unat (w_count s))"
proof -
  have "w_count (exec (log_event t b) s) = w_count s + 1"
    using assms by (auto simp: log_event_defs w_ok_def count_less_iff split: if_splits)
  then show "unat (w_count (exec (log_event t b) s)) = Suc (unat (w_count s))" using assms(2) by (simp add: count_suc)
qed (use assms in \<open>auto simp: log_event_defs w_ok_def count_less_iff split: if_splits\<close>)

lemma ulog_last_more:
  assumes "reg_bus.more s = reg_bus.more t"
  shows "w_last_unlock s = w_last_unlock t" "w_last_unlock_2nd s = w_last_unlock_2nd t"
  using assms by (cases s; cases t; simp)+

lemmas ulog_last_frame = ulog_last_more [OF more_iowrite(3)] ulog_last_more [OF more_iowrite(4)]

lemma log_schedule_fields:
  fixes K :: chip and I :: irq_input
  assumes "w_Delta s + w_Delta s \<noteq> 0"
  defines "t \<equiv> exec (log_schedule K I) s"
  shows "w_last_unlock t = in_now I" "w_last_unlock_2nd t = w_last_unlock s" "w_count t = w_count s"
    "w_T t = w_T s" "w_Delta t = w_Delta s" "pulses (w_trace t) = pulses (w_trace s)"
    "w_timer t = Some (timer_delay (next_period (w_T s) (in_rng I mod (w_Delta s + w_Delta s))
        (timespec_sub (w_last_unlock s) (w_last_unlock_2nd s))) (in_backoff I mod (w_Delta s + w_Delta s)) * 1000)"
  using assms(1) unfolding t_def
  by (simp_all add: log_schedule_def Let_def w_emit_def pulses_def ulog_last_frame)

lemma ulog_irq_abs:
  fixes K :: chip and I :: irq_input
  assumes "ulog_ok (Suc n) s"
  defines "t \<equiv> exec (log_irq_handler K I) s"
  shows "ulog_abs t = proto_step (uint (w_T s)) rearm (abs_ev (w_Delta s) (N_irq I)) (ulog_abs s)"
    and "ulog_ok n t \<and> w_T t = w_T s \<and> w_Delta t = w_Delta s"
proof -
  have P: "params_ok (w_T s) (w_Delta s)" and c: "unat (w_count s) < 1000" and l: "\<not> w_lock s" and w: "w_ok s"
    using assms(1) by (auto simp: ulog_ok_def)
  define s1 where "s1 = s\<lparr>w_lock := True, w_timer := None\<rparr>"
  define s2 where "s2 = exec (log_event (in_restore I) False) s1"
  have w1: "w_ok s1" "unat (w_count s1) < 1000" using w c by (simp_all add: s1_def w_ok_def)
  note e = log_event_ok [OF w1(1), of "in_restore I" False, folded s2_def] log_event_fields [OF w1, of "in_restore I" False, folded s2_def]
  have D: "w_Delta s2 + w_Delta s2 \<noteq> 0" using params_bounds(4) [OF P] by (simp add: e s1_def)
  have acc: "\<not> dropped (w_T s) (timespec_sub (in_now I) (w_last_unlock s)) \<longleftrightarrow>
      proto_accepts (uint (w_T s)) (timespec_ns (in_now I)) (ulog_abs s)"
    using proto_accepts_iff [OF P] by (simp add: ulog_abs_def)
  have t: "t = (if proto_accepts (uint (w_T s)) (timespec_ns (in_now I)) (ulog_abs s)
      then exec (log_schedule K I) s2 else s\<lparr>w_lock := False\<rparr>)"
    using l e(1) unfolding t_def acc [symmetric] by (simp add: log_irq_handler_def s1_def s2_def)
  have del: "uint (timer_delay (next_period (w_T s) (in_rng I mod (w_Delta s + w_Delta s))
        (timespec_sub (w_last_unlock s) (w_last_unlock_2nd s))) (in_backoff I mod (w_Delta s + w_Delta s)) * 1000) =
      (proto_period (uint (w_T s)) (uint (in_rng I mod (w_Delta s + w_Delta s))) (ulog_abs s)
       - uint (in_backoff I mod (w_Delta s + w_Delta s))) * 1000"
    unfolding ulog_abs_def by (rule delay_abs [OF P refl refl])
  show "ulog_abs t = proto_step (uint (w_T s)) rearm (abs_ev (w_Delta s) (N_irq I)) (ulog_abs s)"
  proof (cases "proto_accepts (uint (w_T s)) (timespec_ns (in_now I)) (ulog_abs s)")
    case True
    then show ?thesis using del c unfolding t
      by (simp add: ulog_abs_def [of "exec _ _"] log_schedule_fields [OF D] e s1_def) (simp add: ulog_abs_def pulses_def)
  next
    case False
    then show ?thesis unfolding t by simp (simp add: ulog_abs_def)
  qed
  show "ulog_ok n t \<and> w_T t = w_T s \<and> w_Delta t = w_Delta s"
    using assms(1) w l log_schedule_ok [OF e(2)] D unfolding t ulog_ok_def
    by (simp add: log_schedule_fields [OF D] e s1_def w_ok_def)
qed

lemma ulog_timer_abs:
  fixes t :: timespec
  assumes "ulog_ok (Suc n) s"
  defines "u \<equiv> exec (log_timer_handler t) s"
  shows "ulog_abs u = proto_step (uint (w_T s)) False Timeout (ulog_abs s)"
    and "ulog_ok n u \<and> w_T u = w_T s \<and> w_Delta u = w_Delta s"
proof -
  define s1 where "s1 = s\<lparr>w_timer := None\<rparr>"
  have w1: "w_ok s1" "unat (w_count s1) < 1000" using assms(1) by (simp_all add: ulog_ok_def s1_def w_ok_def)
  note e = log_event_ok [OF w1(1), of t True] log_event_fields [OF w1, of t True]
  have u: "u = (exec (log_event t True) s1)\<lparr>w_forwarded := w_T s * 1000\<rparr>"
    unfolding u_def by (simp add: log_timer_handler_def s1_def [symmetric] e) (simp add: s1_def)
  show "ulog_abs u = proto_step (uint (w_T s)) False Timeout (ulog_abs s)"
    using w1(2) unfolding u by (simp add: ulog_abs_def e pulses_def) (simp add: s1_def)
  show "ulog_ok n u \<and> w_T u = w_T s \<and> w_Delta u = w_Delta s"
    using assms(1) e(2) unfolding u ulog_ok_def by (simp add: e w_ok_def) (simp add: s1_def)
qed

interpretation ulog: unlock_node "ulog_step K" ulog_abs ulog_ok w_T w_Delta False for K
proof
  fix n s e
  assume a: "ulog_ok (Suc n) s"
  show "ulog_abs (ulog_step K e s) = proto_step (uint (w_T s)) False (abs_ev (w_Delta s) e) (ulog_abs s)"
    using ulog_irq_abs(1) [OF a] ulog_timer_abs(1) [OF a] by (cases e) (simp_all del: proto_step.simps)
  show "ulog_ok n (ulog_step K e s) \<and> w_T (ulog_step K e s) = w_T s \<and> w_Delta (ulog_step K e s) = w_Delta s"
    using ulog_irq_abs(2) [OF a] ulog_timer_abs(2) [OF a] by (cases e) (simp_all only: ulog_step.simps)
qed (simp add: ulog_ok_def)

section \<open>Properties\<close>

text \<open>
  C13: The unlock module refines the protocol: over any sequence of unlock signals and timeouts,
  the times of the last two accepted signals, the armed delay and the number of pulses are those
  of the protocol on mathematical integers. No word wraps, as long as \<open>4 Delta \<le> T\<close> and
  \<open>T + 2 Delta\<close> is at most 4294967 microseconds.
\<close>

theorem unlock_refines:
  assumes "txbuf_fff s \<noteq> None" "\<not> driver_lock s" "params_ok (par_T s) (par_Delta s)"
  shows "unlock_abs (fold (unlock_step K) es s) =
    proto_run (uint (par_T s)) True (map (abs_ev (par_Delta s)) es) (unlock_abs s)"
  by (rule unlock.refines) (simp add: unlock_ok_def assms)

theorem unlock_refines_witness:
  "p_pulses (unlock_abs (fold (unlock_step ar9331) [N_irq (signal_at 12000000), N_timer zero_time, N_irq (signal_at 13000000)] node0)) = 2"
proof -
  let ?es = "[N_irq (signal_at 12000000), N_timer zero_time, N_irq (signal_at 13000000)]"
  have "unlock_abs node0 = \<lparr>p_last = 0, p_prev = 0, p_timer = None, p_pulses = 0\<rparr>"
    by (simp add: unlock_abs_def node0_def zero_time_def timespec_ns_def pulses_def)
  moreover have "par_T node0 = 20000" by (simp add: node0_def)
  ultimately have "p_pulses (proto_run (uint (par_T node0)) True (map (abs_ev (par_Delta node0)) ?es) (unlock_abs node0)) = 2"
    by (simp add: proto_run_def proto_accepts_def signal_at_def nsec_per_sec_def)
  moreover have "txbuf_fff node0 \<noteq> None" "\<not> driver_lock node0" "params_ok (par_T node0) (par_Delta node0)"
    by (simp_all add: node0_def params_ok_def)
  ultimately show ?thesis using unlock_refines [of node0 ar9331 ?es] by simp
qed

text \<open>
  C24: The logging unlock module refines the same protocol, but for the timeout, after which it
  does not arm the timer again, and only while its log of a thousand entries has room for the
  events.
\<close>

theorem unlock_log_refines:
  assumes "w_ok s" "\<not> w_lock s" "params_ok (w_T s) (w_Delta s)" "unat (w_count s) + length es \<le> 1000"
  shows "ulog_abs (fold (ulog_step K) es s) =
    proto_run (uint (w_T s)) False (map (abs_ev (w_Delta s)) es) (ulog_abs s)"
  by (rule ulog.refines) (simp add: ulog_ok_def assms)

theorem unlock_log_refines_witness:
  "p_timer (ulog_abs (fold (ulog_step ar9331) [N_irq (signal_at 12000000), N_timer zero_time] ulog0)) = None"
  using unlock_log_refines [of ulog0 "[N_irq (signal_at 12000000), N_timer zero_time]" ar9331]
  by (simp add: params_ok_def w_ok_def ulog0_def proto_run_def)

text \<open>A network of unlock nodes: an event is a signal or a timeout at one of them.\<close>

definition network_step :: "chip \<Rightarrow> 'n \<times> node_ev \<Rightarrow> ('n \<Rightarrow> unlock_state) \<Rightarrow> 'n \<Rightarrow> unlock_state" where
  "network_step K e N = N(fst e := unlock_step K (snd e) (N (fst e)))"

lemma network_step_eq: "network_step K = unlock.net_step K"
  by (simp add: fun_eq_iff network_step_def unlock.net_step_def)

text \<open>
  A flood dies out: in a network of any shape, however the pulses of the nodes come back to
  them as signals, a node relays at most once in a burst of signals that is shorter than half of
  its period. So two neighbours never keep each other pulsing.
\<close>

theorem flood_relays_once:
  fixes N :: "'n \<Rightarrow> unlock_state"
  assumes "txbuf_fff (N i) \<noteq> None" "\<not> driver_lock (N i)" "params_ok (par_T (N i)) (par_Delta (N i))"
    and "\<And>e. (i, e) \<in> set es \<Longrightarrow> \<exists>I. e = N_irq I \<and> t0 \<le> timespec_ns (in_now I) \<and>
      timespec_ns (in_now I) < t0 + uint (par_T (N i)) * 500"
  shows "pulses (utrace (fold (network_step K) es N i)) \<le> pulses (utrace (N i)) + 1"
proof -
  have "p_pulses (unlock_abs (fold (unlock.net_step K) es N i)) \<le> p_pulses (unlock_abs (N i)) + 1"
  proof (rule unlock.net_burst [of _ _ _ t0])
    fix e assume "(i, e) \<in> set es"
    from assms(4) [OF this] show "in_burst (uint (par_T (N i))) t0 (abs_ev (par_Delta (N i)) e)"
      by (auto simp: in_burst_def)
  qed (simp add: unlock_ok_def assms)
  then show ?thesis by (simp add: network_step_eq unlock_abs_def)
qed

theorem flood_relays_once_witness:
  "pulses (utrace (fold (network_step ar9331)
     [(0 :: nat, N_irq (signal_at 12000000)), (1, N_irq (signal_at 12001000)), (0, N_irq (signal_at 12002000)),
      (1, N_irq (signal_at 12003000))] (\<lambda>_. node0) 1)) \<le> pulses (utrace node0) + 1"
  by (rule flood_relays_once [of _ _ _ 12000000])
     (auto simp: node0_def params_ok_def signal_at_def)

end
