(* ===== verification/Timing_Test.thy ===== *)
theory Timing_Test
  imports Ucsma_Prelude
begin

text \<open>
  \<open>kernel-module/kernel_timing_test.c\<close>: how long a delay and ten million reads of the clock take,
  measured with \<open>do_gettimeofday\<close> and with \<open>getnstimeofday\<close>. The clock is the input: the n-th read
  yields \<open>clock n\<close>, in nanoseconds. A report is what one \<open>printk\<close> prints as seconds and fraction.
\<close>

section \<open>Definitions\<close>

record timeval =
  tval_sec :: int
  tval_usec :: int

definition do_gettimeofday :: "(nat \<Rightarrow> int) \<Rightarrow> (nat, timeval) state" where
  "do_gettimeofday clock = State (\<lambda>n. (\<lparr>tval_sec = clock n div nsec_per_sec,
     tval_usec = clock n mod nsec_per_sec div 1000\<rparr>, n + 1))"

definition getnstimeofday :: "(nat \<Rightarrow> int) \<Rightarrow> (nat, timespec) state" where
  "getnstimeofday clock = State (\<lambda>n. (timespec_of_ns (clock n), n + 1))"

text \<open>The difference the module computes itself.\<close>

definition timeval_diff :: "timeval \<Rightarrow> timeval \<Rightarrow> timeval" where
  "timeval_diff en st =
     (let sec = tval_sec en - tval_sec st
      in if tval_usec en < tval_usec st
         then \<lparr>tval_sec = sec - 1, tval_usec = 1000000 + tval_usec en - tval_usec st\<rparr>
         else \<lparr>tval_sec = sec, tval_usec = tval_usec en - tval_usec st\<rparr>)"

text \<open>A loop of reads keeps the last one; with no turn it keeps what was there.\<close>

fun clock_loop :: "(nat, 't) state \<Rightarrow> nat \<Rightarrow> 't \<Rightarrow> (nat, 't) state" where
  "clock_loop r 0 x = ret x"
| "clock_loop r (Suc k) x = do { y \<leftarrow> r; clock_loop r k y }"

definition LOOPS :: nat where "LOOPS = 10000000"

text \<open>What is printed: seconds and microseconds, or seconds and nanoseconds.\<close>

datatype report = Usec_report int int | Nsec_report int int

definition kernel_timing_test_init_module :: "(nat \<Rightarrow> int) \<Rightarrow> (nat, int \<times> report list) state" where
  "kernel_timing_test_init_module clock = do {
     st \<leftarrow> do_gettimeofday clock;
     en \<leftarrow> do_gettimeofday clock;
     let diff = timeval_diff en st;
     s \<leftarrow> getnstimeofday clock;
     e \<leftarrow> getnstimeofday clock;
     let dif = timespec_sub e s;
     let reports1 = [Usec_report (tval_sec diff) (tval_usec diff), Nsec_report (tv_sec dif) (tv_nsec dif)];
     st \<leftarrow> do_gettimeofday clock;
     en \<leftarrow> clock_loop (do_gettimeofday clock) LOOPS en;
     let diff = timeval_diff en st;
     s \<leftarrow> getnstimeofday clock;
     e \<leftarrow> clock_loop (getnstimeofday clock) LOOPS e;
     let dif = timespec_sub e s;
     ret (0, reports1 @ [Usec_report (tval_sec diff) (tval_usec diff), Nsec_report (tv_sec dif) (tv_nsec dif)])
   }"

section \<open>Lemmas\<close>

definition timeval_us :: "timeval \<Rightarrow> int" where
  "timeval_us t = tval_sec t * 1000000 + tval_usec t"

definition timeval_ok :: "timeval \<Rightarrow> bool" where
  "timeval_ok t \<longleftrightarrow> 0 \<le> tval_usec t \<and> tval_usec t < 1000000"

lemma read_clock:
  "res (do_gettimeofday clock) n = \<lparr>tval_sec = clock n div nsec_per_sec, tval_usec = clock n mod nsec_per_sec div 1000\<rparr>"
  "exec (do_gettimeofday clock) n = n + 1"
  "res (getnstimeofday clock) n = timespec_of_ns (clock n)" "exec (getnstimeofday clock) n = n + 1"
  by (simp_all add: do_gettimeofday_def getnstimeofday_def res_def exec_def)

lemma timeval_of_clock:
  "timeval_ok (res (do_gettimeofday clock) n)" "timeval_us (res (do_gettimeofday clock) n) = clock n div 1000"
proof -
  have m: "clock n mod nsec_per_sec = 1000 * (clock n div 1000 mod 1000000) + clock n mod 1000"
    using zmod_zmult2_eq [of 1000000 "clock n" 1000] by (simp add: nsec_per_sec_def)
  have d: "clock n div nsec_per_sec = clock n div 1000 div 1000000"
    using zdiv_zmult2_eq [of 1000000 "clock n" 1000] by (simp add: nsec_per_sec_def)
  have u: "clock n mod nsec_per_sec div 1000 = clock n div 1000 mod 1000000"
    unfolding m by simp
  show "timeval_ok (res (do_gettimeofday clock) n)" by (simp add: timeval_ok_def read_clock u)
  show "timeval_us (res (do_gettimeofday clock) n) = clock n div 1000"
    by (simp add: timeval_us_def read_clock u d)
qed

lemma timeval_diff_spec:
  assumes "timeval_ok a" "timeval_ok b"
  shows "timeval_ok (timeval_diff a b)" "timeval_us (timeval_diff a b) = timeval_us a - timeval_us b"
  using assms by (auto simp: timeval_ok_def timeval_us_def timeval_diff_def Let_def)

lemma clock_loop_last:
  assumes "\<And>n. exec r n = n + 1"
  shows "0 < k \<Longrightarrow> res (clock_loop r k x) n = res r (n + k - 1)" "exec (clock_loop r k x) n = n + k"
  using assms by (induction k arbitrary: x n) (auto, case_tac k, auto)

section \<open>Property\<close>

text \<open>
  Whatever the clock does, also when it is set back, each of the four reports is the exact
  difference of the two clock readings it names, in microseconds or nanoseconds, with a fraction
  that is not negative and below a second; the two loops report the time of ten million reads.
\<close>

theorem timing_reports:
  "\<exists>s1 u1 s2 u2 s3 u3 s4 u4.
     res (kernel_timing_test_init_module clock) n =
       (0, [Usec_report s1 u1, Nsec_report s2 u2, Usec_report s3 u3, Nsec_report s4 u4]) \<and>
     s1 * 1000000 + u1 = clock (n + 1) div 1000 - clock n div 1000 \<and>
     s2 * 1000000000 + u2 = clock (n + 3) - clock (n + 2) \<and>
     s3 * 1000000 + u3 = clock (n + 4 + LOOPS) div 1000 - clock (n + 4) div 1000 \<and>
     s4 * 1000000000 + u4 = clock (n + 5 + 2 * LOOPS) - clock (n + 5 + LOOPS) \<and>
     {u1, u3} \<subseteq> {0..<1000000} \<and> {u2, u4} \<subseteq> {0..<1000000000}"
proof -
  let ?g = "\<lambda>n. res (do_gettimeofday clock) n"
  let ?h = "\<lambda>n. timespec_of_ns (clock n)"
  have L: "0 < LOOPS" by (simp add: LOOPS_def)
  note loop = clock_loop_last(1) [OF read_clock(2) [of clock] L] clock_loop_last(2) [OF read_clock(2) [of clock], of LOOPS]
    clock_loop_last(1) [OF read_clock(4) [of clock] L] clock_loop_last(2) [OF read_clock(4) [of clock], of LOOPS]
  define d1 where "d1 = timeval_diff (?g (n + 1)) (?g n)"
  define d2 where "d2 = timespec_sub (?h (n + 3)) (?h (n + 2))"
  define d3 where "d3 = timeval_diff (?g (n + 4 + LOOPS)) (?g (n + 4))"
  define d4 where "d4 = timespec_sub (?h (n + 5 + 2 * LOOPS)) (?h (n + 5 + LOOPS))"
  have "res (kernel_timing_test_init_module clock) n =
      (0, [Usec_report (tval_sec d1) (tval_usec d1), Nsec_report (tv_sec d2) (tv_nsec d2),
           Usec_report (tval_sec d3) (tval_usec d3), Nsec_report (tv_sec d4) (tv_nsec d4)])"
    by (simp add: kernel_timing_test_init_module_def Let_def read_clock(2-4) loop d1_def d2_def d3_def d4_def
        add.commute add.left_commute numeral_eq_Suc)
  moreover have "timeval_ok d1" "timeval_us d1 = clock (n + 1) div 1000 - clock n div 1000"
    "timeval_ok d3" "timeval_us d3 = clock (n + 4 + LOOPS) div 1000 - clock (n + 4) div 1000"
    by (simp_all add: d1_def d3_def timeval_diff_spec timeval_of_clock)
  moreover have "timespec_ns d2 = clock (n + 3) - clock (n + 2)"
    "timespec_ns d4 = clock (n + 5 + 2 * LOOPS) - clock (n + 5 + LOOPS)" by (simp_all add: d2_def d4_def)
  moreover have "0 \<le> tv_nsec d2" "tv_nsec d2 < nsec_per_sec" "0 \<le> tv_nsec d4" "tv_nsec d4 < nsec_per_sec"
    by (simp_all add: d2_def d4_def tv_nsec_sub_range)
  ultimately show ?thesis
    by (fastforce simp: timeval_ok_def timeval_us_def timespec_ns_def nsec_per_sec_def)
qed

end
