(* ===== verification/Registers_Smp.thy ===== *)
theory Registers_Smp
  imports Registers
begin

text \<open>
  The register hooks of \<open>ath9k/init.c\<close> on several processors: one step of a processor is one
  access to the bus or one operation on \<open>sc_serial_rw\<close>, and any processor may go next. A
  processor is also the place of an interrupt handler on a machine with one processor, whose steps come
  between two steps of the code it interrupts.
\<close>

section \<open>Processors that access registers\<close>

text \<open>The calls of the hooks, and what each does when nothing comes between its steps.\<close>

datatype access = Read32 u32 | Write32 u32 u32 | Rmw32 u32 u32 u32

fun hook :: "access \<Rightarrow> (reg_bus, u32) state" where
  "hook (Read32 r) = ath9k_ioread32 r"
| "hook (Write32 v r) = do { ath9k_iowrite32 v r; ret 0 }"
| "hook (Rmw32 r st cl) = ath9k_reg_rmw r st cl"

text \<open>
  Where a processor is: outside the hooks, at the access (with the lock, where one is taken),
  between the two halves of a read-modify-write, or past the access, before it gives back
  the lock and returns.
\<close>

datatype place = Outside | Inside access | Loaded u32 u32 u32 u32 | Leaving access u32

record processor =
  todo :: "access list"
  at_pc :: place

record smp =
  bus :: reg_bus
  holder :: "nat option"      \<comment> \<open>who has \<open>sc_serial_rw\<close>\<close>
  cpu :: "nat \<Rightarrow> processor"
  returned :: "(nat \<times> access \<times> u32) list"

definition on_bus :: "(reg_bus, unit) state \<Rightarrow> smp \<Rightarrow> smp" where
  "on_bus m s = s\<lparr>bus := exec m (bus s)\<rparr>"

definition goto :: "nat \<Rightarrow> place \<Rightarrow> smp \<Rightarrow> smp" where
  "goto i p s = s\<lparr>cpu := (cpu s)(i := (cpu s i)\<lparr>at_pc := p\<rparr>)\<rparr>"

text \<open>\<open>spin_lock_irqsave\<close>, where the hook takes it; a processor that finds it taken spins.\<close>

definition hook_enter :: "nat \<Rightarrow> smp \<Rightarrow> smp" where
  "hook_enter i s =
     (case todo (cpu s i) of
        [] \<Rightarrow> s
      | a # as \<Rightarrow>
          let s' = s\<lparr>cpu := (cpu s)(i := \<lparr>todo = as, at_pc = Inside a\<rparr>)\<rparr>
          in if serialized (bus s) then
               if holder s = None then on_bus (serial_ev (Acquire Sc_serial_rw)) (s'\<lparr>holder := Some i\<rparr>)
               else s
             else s')"

fun hook_access :: "nat \<Rightarrow> access \<Rightarrow> smp \<Rightarrow> smp" where
  "hook_access i (Read32 r) s = goto i (Leaving (Read32 r) (res (ioread32 r) (bus s))) s"
| "hook_access i (Write32 v r) s = goto i (Leaving (Write32 v r) 0) (on_bus (iowrite32 v r) s)"
| "hook_access i (Rmw32 r st cl) s = goto i (Loaded r st cl (res (ioread32 r) (bus s))) s"

definition hook_store :: "nat \<Rightarrow> u32 \<Rightarrow> u32 \<Rightarrow> u32 \<Rightarrow> u32 \<Rightarrow> smp \<Rightarrow> smp" where
  "hook_store i r st cl val s =
     (let val = val AND NOT cl;
          val = val OR st
      in goto i (Leaving (Rmw32 r st cl) val) (on_bus (iowrite32 val r) s))"

definition hook_leave :: "nat \<Rightarrow> access \<Rightarrow> u32 \<Rightarrow> smp \<Rightarrow> smp" where
  "hook_leave i a v s =
     (let s' = (goto i Outside s)\<lparr>returned := returned s @ [(i, a, v)]\<rparr>
      in if serialized (bus s) then on_bus (serial_ev (Release Sc_serial_rw)) (s'\<lparr>holder := None\<rparr>)
         else s')"

definition smp_step :: "nat \<Rightarrow> smp \<Rightarrow> smp" where
  "smp_step i s =
     (case at_pc (cpu s i) of
        Outside \<Rightarrow> hook_enter i s
      | Inside a \<Rightarrow> hook_access i a s
      | Loaded r st cl v \<Rightarrow> hook_store i r st cl v s
      | Leaving a v \<Rightarrow> hook_leave i a v s)"

abbreviation smp_run :: "nat list \<Rightarrow> smp \<Rightarrow> smp" where
  "smp_run sched s \<equiv> fold smp_step sched s"

section \<open>One access after the other\<close>

text \<open>The accesses of a list, each whole, and whether each returned what is noted with it.\<close>

definition one_by_one :: "(nat \<times> access \<times> u32) list \<Rightarrow> reg_bus \<Rightarrow> reg_bus" where
  "one_by_one es b = exec (for_each (\<lambda>(i, a, v). do { _ \<leftarrow> hook a; ret () }) es) b"

fun answers :: "(nat \<times> access \<times> u32) list \<Rightarrow> reg_bus \<Rightarrow> bool" where
  "answers [] b \<longleftrightarrow> True"
| "answers ((i, a, v) # es) b \<longleftrightarrow> res (hook a) b = v \<and> answers es (exec (hook a) b)"

lemma one_by_one_simps [simp]:
  "one_by_one [] b = b"
  "one_by_one ((i, a, v) # es) b = one_by_one es (exec (hook a) b)"
  by (simp_all add: one_by_one_def)

lemma one_by_one_append: "one_by_one (es @ fs) b = one_by_one fs (one_by_one es b)"
  by (induction es arbitrary: b) auto

lemma answers_append: "answers (es @ fs) b \<longleftrightarrow> answers es b \<and> answers fs (one_by_one es b)"
  by (induction es arbitrary: b) auto

text \<open>The accesses a processor has returned from, is in, and has yet to make.\<close>

definition in_hook :: "place \<Rightarrow> access list" where
  "in_hook p = (case p of Outside \<Rightarrow> [] | Inside a \<Rightarrow> [a] | Loaded r st cl v \<Rightarrow> [Rmw32 r st cl] | Leaving a v \<Rightarrow> [a])"

definition returned_of :: "nat \<Rightarrow> smp \<Rightarrow> access list" where
  "returned_of i s = map (fst \<circ> snd) (filter (\<lambda>e. fst e = i) (returned s))"

definition program_of :: "nat \<Rightarrow> smp \<Rightarrow> access list" where
  "program_of i s = returned_of i s @ in_hook (at_pc (cpu s i)) @ todo (cpu s i)"

lemma smp_step_at:
  "at_pc (cpu s i) = Outside \<Longrightarrow> smp_step i s = hook_enter i s"
  "at_pc (cpu s i) = Inside a \<Longrightarrow> smp_step i s = hook_access i a s"
  "at_pc (cpu s i) = Loaded r st cl v \<Longrightarrow> smp_step i s = hook_store i r st cl v s"
  "at_pc (cpu s i) = Leaving a v \<Longrightarrow> smp_step i s = hook_leave i a v s"
  by (simp_all add: smp_step_def)

lemmas smp_defs = hook_enter_def hook_store_def hook_leave_def on_bus_def goto_def Let_def
lemmas program_defs = program_of_def returned_of_def in_hook_def

lemma program_step: "program_of j (smp_step i s) = program_of j s"
proof (cases "at_pc (cpu s i)")
  case Outside
  then show ?thesis by (auto simp: smp_step_at smp_defs program_defs split: list.split)
next
  case (Inside a)
  then show ?thesis by (cases a) (auto simp: smp_step_at smp_defs program_defs)
qed (auto simp: smp_step_at smp_defs program_defs)

lemma program_run: "program_of j (smp_run sched s) = program_of j s"
  by (induction sched arbitrary: s) (simp_all add: program_step)

lemma serialized_bus [simp]:
  "serialized (exec (serial_ev e) b) = serialized b"
  "serialized (exec (iowrite32 v r) b) = serialized b"
  by (simp_all add: serialized_def serial_ev_def iowrite32_def)

lemma serialized_mem [simp]:
  "serialized (b\<lparr>mem := m\<rparr>) = serialized b" "serialized (b\<lparr>serial_trace := tr\<rparr>) = serialized b"
  by (simp_all add: serialized_def)

lemma keeps_serialized:
  "keeps serialized (serial_ev e)" "keeps serialized (iowrite32 v r)" "keeps serialized (ioread32 r)"
  by (simp_all add: keeps_def ioread32_def)

lemma serialized_hook [simp]: "serialized (exec (hook a) b) = serialized b"
proof -
  have "keeps serialized (hook a)"
    by (cases a)
      (auto simp only: hook.simps ath9k_ioread32_def ath9k_iowrite32_def ath9k_reg_rmw_def
        ath9k_reg_rmw_unlocked_def Let_def intro!: keeps_serialized keeps_rules(1-4))
  then show ?thesis by (rule keepsD)
qed

lemma serialized_one_by_one [simp]: "serialized (one_by_one es b) = serialized b"
  by (induction es b rule: answers.induct) (simp_all only: one_by_one_simps serialized_hook)

lemma serialized_step [simp]: "serialized (bus (smp_step i s)) = serialized (bus s)"
proof (cases "at_pc (cpu s i)")
  case Outside
  then show ?thesis by (auto simp: smp_step_at smp_defs split: list.split)
next
  case (Inside a)
  then show ?thesis by (cases a) (auto simp: smp_step_at smp_defs)
qed (auto simp: smp_step_at smp_defs)

section \<open>The invariant of the serialised bus\<close>

text \<open>
  All but the processor that has the lock are outside the hooks. The bus is as the accesses
  that returned have left it, one after the other, and what the holder has done so far comes on top.
\<close>

definition hook_done :: "place \<Rightarrow> reg_bus \<Rightarrow> reg_bus \<Rightarrow> bool" where
  "hook_done p B b =
     (case p of
        Outside \<Rightarrow> False
      | Inside a \<Rightarrow> b = exec (serial_ev (Acquire Sc_serial_rw)) B
      | Loaded r st cl v \<Rightarrow> b = exec (serial_ev (Acquire Sc_serial_rw)) B \<and> v = mem B r
      | Leaving a v \<Rightarrow> v = res (hook a) B \<and> exec (serial_ev (Release Sc_serial_rw)) b = exec (hook a) B)"

definition serial_inv :: "reg_bus \<Rightarrow> smp \<Rightarrow> bool" where
  "serial_inv b0 s \<longleftrightarrow> serialized b0 \<and> serialized (bus s) \<and> answers (returned s) b0 \<and>
     (case holder s of
        None \<Rightarrow> bus s = one_by_one (returned s) b0 \<and> (\<forall>j. at_pc (cpu s j) = Outside)
      | Some i \<Rightarrow> hook_done (at_pc (cpu s i)) (one_by_one (returned s) b0) (bus s) \<and>
          (\<forall>j. j \<noteq> i \<longrightarrow> at_pc (cpu s j) = Outside))"

lemma serial_inv_holder:
  assumes "serial_inv b0 s" "at_pc (cpu s i) \<noteq> Outside"
  shows "holder s = Some i"
proof (cases "holder s")
  case (Some j)
  then have "\<forall>k. k \<noteq> j \<longrightarrow> at_pc (cpu s k) = Outside" using assms(1) by (simp add: serial_inv_def)
  then show ?thesis using Some assms(2) by (cases "j = i") auto
qed (use assms in \<open>simp add: serial_inv_def\<close>)

lemma hook_done_access:
  assumes "hook_done (Inside a) B (bus s)" "serialized B"
  shows "hook_done (at_pc (cpu (hook_access i a s) i)) B (bus (hook_access i a s))"
  using assms by (cases a) (auto simp: hook_done_def smp_defs reg_access_defs)

lemma hook_done_store:
  assumes "hook_done (Loaded r st cl v) B (bus s)" "serialized B"
  shows "hook_done (at_pc (cpu (hook_store i r st cl v s) i)) B (bus (hook_store i r st cl v s))"
  using assms by (auto simp: hook_done_def smp_defs reg_access_defs)

lemma access_frame:
  "holder (hook_access i a s) = holder s" "returned (hook_access i a s) = returned s"
  "j \<noteq> i \<Longrightarrow> cpu (hook_access i a s) j = cpu s j"
  by (cases a; simp add: smp_defs)+

lemma store_frame:
  "holder (hook_store i r st cl v s) = holder s" "returned (hook_store i r st cl v s) = returned s"
  "j \<noteq> i \<Longrightarrow> cpu (hook_store i r st cl v s) j = cpu s j"
  by (simp_all add: smp_defs)

lemma serial_inv_step:
  assumes "serial_inv b0 s"
  shows "serial_inv b0 (smp_step i s)"
proof -
  let ?B = "one_by_one (returned s) b0"
  have ser: "serialized b0" "serialized (bus s)" "serialized ?B" "answers (returned s) b0"
    using assms by (auto simp: serial_inv_def)
  have ser': "serialized (bus (smp_step i s))" using ser by simp
  show ?thesis
  proof (cases "at_pc (cpu s i)")
    case Outside
    then show ?thesis using assms
      by (auto simp: smp_step_at smp_defs serial_inv_def hook_done_def split: list.split option.splits)
  next
    case (Inside a)
    then have h: "holder s = Some i" using assms by (intro serial_inv_holder) auto
    have "hook_done (Inside a) ?B (bus s)" "\<forall>j. j \<noteq> i \<longrightarrow> at_pc (cpu s j) = Outside"
      using assms h Inside by (auto simp: serial_inv_def)
    then show ?thesis using ser ser' h hook_done_access [of a ?B s i]
      by (simp add: serial_inv_def smp_step_at Inside access_frame)
  next
    case (Loaded r st cl v)
    then have h: "holder s = Some i" using assms by (intro serial_inv_holder) auto
    have "hook_done (Loaded r st cl v) ?B (bus s)" "\<forall>j. j \<noteq> i \<longrightarrow> at_pc (cpu s j) = Outside"
      using assms h Loaded by (auto simp: serial_inv_def)
    then show ?thesis using ser ser' h hook_done_store [of r st cl v ?B s i]
      by (simp add: serial_inv_def smp_step_at Loaded store_frame)
  next
    case (Leaving a v)
    then have h: "holder s = Some i" using assms by (intro serial_inv_holder) auto
    have "hook_done (Leaving a v) ?B (bus s)" "\<forall>j. j \<noteq> i \<longrightarrow> at_pc (cpu s j) = Outside"
      using assms h Leaving by (auto simp: serial_inv_def)
    then show ?thesis using ser h
      by (auto simp: serial_inv_def smp_step_at Leaving smp_defs hook_done_def one_by_one_append answers_append)
  qed
qed

lemma serial_inv_run: "serial_inv b0 s \<Longrightarrow> serial_inv b0 (smp_run sched s)"
  by (induction sched arbitrary: s) (simp_all add: serial_inv_step)

section \<open>Turns\<close>

text \<open>The steps a processor has to go; a turn is one of them or it changes nothing.\<close>

definition to_go :: "processor \<Rightarrow> nat" where
  "to_go p = 4 * length (todo p) +
     (case at_pc p of Outside \<Rightarrow> 0 | Inside a \<Rightarrow> 3 | Loaded r st cl v \<Rightarrow> 2 | Leaving a v \<Rightarrow> 1)"

definition all_to_go :: "nat \<Rightarrow> smp \<Rightarrow> nat" where
  "all_to_go n s = (\<Sum>i<n. to_go (cpu s i))"

lemma cpu_other: "j \<noteq> i \<Longrightarrow> cpu (smp_step i s) j = cpu s j"
proof (cases "at_pc (cpu s i)")
  case (Inside a)
  moreover assume "j \<noteq> i"
  ultimately show ?thesis by (simp add: smp_step_at access_frame)
qed (auto simp: smp_step_at smp_defs split: list.split)

lemma turn: "smp_step i s = s \<or> to_go (cpu (smp_step i s) i) < to_go (cpu s i)"
proof (cases "at_pc (cpu s i)")
  case Outside
  then show ?thesis by (auto simp: smp_step_at smp_defs to_go_def split: list.split)
next
  case (Inside a)
  then show ?thesis by (cases a) (auto simp: smp_step_at smp_defs to_go_def)
qed (auto simp: smp_step_at smp_defs to_go_def)

lemma all_turn:
  assumes "i < n"
  shows "smp_step i s = s \<or> all_to_go n (smp_step i s) < all_to_go n s"
proof -
  have "all_to_go n (smp_step i s) < all_to_go n s" if "to_go (cpu (smp_step i s) i) < to_go (cpu s i)"
    unfolding all_to_go_def using assms that cpu_other [of _ i s]
    by (intro sum_strict_mono_ex1) (auto, metis less_or_eq_imp_le order_refl)
  then show ?thesis using turn [of i s] by blast
qed

lemma round_of_turns:
  assumes "set xs \<subseteq> {..<n}"
  shows "(\<forall>i \<in> set xs. smp_step i s = s) \<and> smp_run xs s = s \<or> all_to_go n (smp_run xs s) < all_to_go n s"
  using assms
proof (induction xs arbitrary: s)
  case (Cons i xs)
  then have "i < n" "set xs \<subseteq> {..<n}" by auto
  from Cons.IH [OF this(2), of "smp_step i s"] all_turn [OF this(1), of s] show ?case
    by auto
qed simp

definition finished :: "nat \<Rightarrow> smp \<Rightarrow> bool" where
  "finished i s \<longleftrightarrow> todo (cpu s i) = [] \<and> at_pc (cpu s i) = Outside"

lemma finished_run: "finished j s \<Longrightarrow> finished j (smp_run sched s)"
proof (induction sched arbitrary: s)
  case (Cons i sched)
  have "finished j (smp_step i s)"
    using Cons.prems cpu_other [of j i s]
    by (cases "j = i") (auto simp: finished_def smp_step_at hook_enter_def)
  then show ?case by (simp add: Cons.IH)
qed simp

text \<open>The spin lock does not block for good: some processor's turn always does something.\<close>

lemma not_stuck:
  assumes "serial_inv b0 s" "\<not> finished i s"
  shows "\<exists>j. \<not> finished j s \<and> smp_step j s \<noteq> s"
proof -
  have moves: "smp_step j s \<noteq> s" if "to_go (cpu (smp_step j s) j) \<noteq> to_go (cpu s j)" for j
    using that by auto
  show ?thesis
  proof (cases "holder s")
    case None
    then have "at_pc (cpu s i) = Outside" using assms by (simp add: serial_inv_def)
    moreover then have "todo (cpu s i) \<noteq> []" using assms(2) by (simp add: finished_def)
    ultimately have "to_go (cpu (smp_step i s) i) \<noteq> to_go (cpu s i)"
      using None by (cases "serialized (bus s)") (auto simp: smp_step_at smp_defs to_go_def neq_Nil_conv)
    with assms(2) show ?thesis using moves by blast
  next
    case (Some j)
    then have p: "at_pc (cpu s j) \<noteq> Outside" using assms by (auto simp: serial_inv_def hook_done_def)
    have "at_pc (cpu (smp_step j s) j) \<noteq> at_pc (cpu s j)"
    proof (cases "at_pc (cpu s j)")
      case (Inside a)
      then show ?thesis by (cases a) (auto simp: smp_step_at smp_defs)
    qed (use p in \<open>auto simp: smp_step_at smp_defs\<close>)
    then have "smp_step j s \<noteq> s" by auto
    moreover have "\<not> finished j s" using p by (simp add: finished_def)
    ultimately show ?thesis by blast
  qed
qed

lemma rounds_finish:
  assumes "serial_inv b0 s" "\<forall>i \<ge> n. finished i s" "all_to_go n s \<le> k"
  shows "finished i (smp_run (concat (replicate k [0..<n])) s)"
  using assms
proof (induction k arbitrary: s)
  case 0
  then have "\<forall>i < n. to_go (cpu s i) = 0" by (simp add: all_to_go_def)
  then have "finished i s" if "i < n"
    using that by (cases "at_pc (cpu s i)") (auto simp: to_go_def finished_def)
  then show ?case using "0.prems"(2) by (cases "i < n") auto
next
  case (Suc k)
  let ?t = "smp_run [0..<n] s"
  have inv: "serial_inv b0 ?t" using Suc.prems(1) by (rule serial_inv_run)
  have fin: "\<forall>i \<ge> n. finished i ?t" using Suc.prems(2) by (simp add: finished_run)
  show ?case
  proof (cases "\<forall>j. finished j s")
    case True
    then show ?thesis by (simp add: finished_run)
  next
    case False
    then obtain j where j: "\<not> finished j s" "smp_step j s \<noteq> s" using not_stuck [OF Suc.prems(1)] by blast
    then have "j < n" using Suc.prems(2) by (meson not_less)
    then have "all_to_go n ?t < all_to_go n s" using j(2) round_of_turns [of "[0..<n]" n s] by (auto simp: subset_iff)
    then have "all_to_go n ?t \<le> k" using Suc.prems(3) by linarith
    from Suc.IH [OF inv fin this] show ?thesis by simp
  qed
qed

section \<open>Properties\<close>

text \<open>The processors before their first access, and what \<open>REG_SET_BIT\<close> and \<open>REG_CLR_BIT\<close> call.\<close>

definition smp_start :: "reg_bus \<Rightarrow> (nat \<Rightarrow> access list) \<Rightarrow> smp" where
  "smp_start b prog = \<lparr>bus = b, holder = None, cpu = (\<lambda>i. \<lparr>todo = prog i, at_pc = Outside\<rparr>), returned = []\<rparr>"

lemma start_simps [simp]:
  "bus (smp_start b prog) = b" "holder (smp_start b prog) = None" "returned (smp_start b prog) = []"
  "at_pc (cpu (smp_start b prog) i) = Outside" "todo (cpu (smp_start b prog) i) = prog i"
  "program_of i (smp_start b prog) = prog i"
  by (simp_all add: smp_start_def program_defs)

lemma serial_inv_start: "serialized b \<Longrightarrow> serial_inv b (smp_start b prog)"
  by (simp add: serial_inv_def)

definition reg_set_bits :: "u32 \<Rightarrow> u32 \<Rightarrow> access" where "reg_set_bits r f = Rmw32 r f 0"
definition reg_clr_bits :: "u32 \<Rightarrow> u32 \<Rightarrow> access" where "reg_clr_bits r f = Rmw32 r 0 f"

lemma reg_bits_hook:
  "exec (reg_set_bit r f) b = exec (hook (reg_set_bits r f)) b"
  "exec (reg_clr_bit r f) b = exec (hook (reg_clr_bits r f)) b"
  by (simp_all add: reg_set_bit_def reg_clr_bit_def reg_set_bits_def reg_clr_bits_def)

definition bus0 :: reg_bus where
  "bus0 = \<lparr>mem = (\<lambda>r. 0), nr_cpus = 2, ser_reg_mode_on = True, serial_trace = []\<rparr>"

text \<open>
  C5: On a serialised bus the hooks are atomic. Whatever the order in which the processors take
  their steps, at most one is inside a hook; every call that returned gave the result it
  gives when the calls run whole, one after the other, in the order of their returns; each processor's calls
  happen in its own order; and whenever the lock is free the registers are what this
  order of whole calls makes of them, so no read-modify-write loses another's update.
\<close>

theorem hooks_linearise:
  fixes b :: reg_bus and prog :: "nat \<Rightarrow> access list" and sched :: "nat list"
  assumes "serialized b"
  defines "t \<equiv> smp_run sched (smp_start b prog)"
  shows "(\<forall>i j. at_pc (cpu t i) \<noteq> Outside \<and> at_pc (cpu t j) \<noteq> Outside \<longrightarrow> i = j) \<and>
    answers (returned t) b \<and>
    (\<forall>i. returned_of i t @ in_hook (at_pc (cpu t i)) @ todo (cpu t i) = prog i) \<and>
    (holder t = None \<longrightarrow> bus t = one_by_one (returned t) b)"
proof -
  have inv: "serial_inv b t" unfolding t_def using assms(1) by (intro serial_inv_run serial_inv_start)
  have "program_of i t = prog i" for i by (simp add: t_def program_run)
  moreover have "i = j" if "at_pc (cpu t i) \<noteq> Outside" "at_pc (cpu t j) \<noteq> Outside" for i j
    using serial_inv_holder [OF inv that(1)] serial_inv_holder [OF inv that(2)] by simp
  ultimately show ?thesis using inv by (auto simp: serial_inv_def program_of_def)
qed

theorem hooks_linearise_witness:
  "answers (returned (smp_run [0, 1, 0, 1, 0, 0, 1] (smp_start bus0 (\<lambda>i. [reg_set_bits 4 (2 ^ i)])))) bus0"
  using hooks_linearise [of bus0 "[0, 1, 0, 1, 0, 0, 1]" "\<lambda>i. [reg_set_bits 4 (2 ^ i)]"]
  by (simp add: serialized_def bus0_def)

lemma hooks_progress:
  assumes "serialized b" "\<forall>i \<ge> n. prog i = []" "(\<Sum>i<n. 4 * length (prog i)) \<le> k"
  shows "finished i (smp_run (concat (replicate k [0..<n])) (smp_start b prog))"
  using assms(2,3)
  by (intro rounds_finish [OF serial_inv_start [OF assms(1)]]) (simp_all add: finished_def all_to_go_def to_go_def)

text \<open>
  C27: The lock is never waited for in vain. When \<open>n\<close> processors take turns, four rounds for each call
  are enough for all of them to finish, with the lock free, every call returned and the
  registers as the calls leave them one after the other.
\<close>

theorem hooks_finish:
  fixes b :: reg_bus and prog :: "nat \<Rightarrow> access list" and n k :: nat
  assumes "serialized b" "\<forall>i \<ge> n. prog i = []" "(\<Sum>i<n. 4 * length (prog i)) \<le> k"
  defines "t \<equiv> smp_run (concat (replicate k [0..<n])) (smp_start b prog)"
  shows "holder t = None \<and> (\<forall>i. finished i t \<and> returned_of i t = prog i) \<and> bus t = one_by_one (returned t) b"
proof -
  let ?s = "smp_start b prog"
  have inv: "serial_inv b ?s" using assms(1) by (rule serial_inv_start)
  have fin: "finished i t" for i
    unfolding t_def using assms(1-3) by (rule hooks_progress)
  have inv': "serial_inv b t" unfolding t_def using inv by (rule serial_inv_run)
  have free: "holder t = None"
    using inv' fin by (auto simp: serial_inv_def finished_def hook_done_def split: option.splits)
  have "program_of i t = prog i" for i by (simp add: t_def program_run)
  moreover have "at_pc (cpu t i) = Outside" "todo (cpu t i) = []" for i using fin [of i] by (simp_all add: finished_def)
  ultimately have "returned_of i t = prog i" for i by (simp add: program_of_def in_hook_def)
  then show ?thesis using free inv' fin by (simp add: serial_inv_def)
qed

theorem hooks_finish_witness:
  "finished 1 (smp_run (concat (replicate 8 [0..<2])) (smp_start bus0 (\<lambda>i. if i < 2 then [reg_set_bits 4 (2 ^ i)] else [])))"
  using hooks_finish [of bus0 2 "\<lambda>i. if i < 2 then [reg_set_bits 4 (2 ^ i)] else []" 8]
  by (simp add: serialized_def bus0_def eval_nat_numeral)

text \<open>
  C29: Without serialisation an update can be lost. Two processors set bits of one register; both
  read before either writes, both calls return, and the bits of one of them are not set: the
  register is not what either order of the two calls leaves.
\<close>

theorem rmw_loses_update:
  fixes b :: reg_bus and r f g :: u32
  assumes "\<not> serialized b" "g AND NOT (mem b r OR f) \<noteq> 0"
  defines "t \<equiv> smp_run [0, 0, 1, 1, 1, 1, 0, 0]
    (smp_start b (\<lambda>i. if i = 0 then [reg_set_bits r f] else if i = 1 then [reg_set_bits r g] else []))"
  shows "(\<forall>i. finished i t) \<and> mem (bus t) r = mem b r OR f \<and>
    mem (bus t) \<noteq> mem (exec (do { reg_set_bit r f; reg_set_bit r g }) b) \<and>
    mem (bus t) \<noteq> mem (exec (do { reg_set_bit r g; reg_set_bit r f }) b)"
proof -
  have m: "mem (bus t) r = mem b r OR f" and fin: "\<forall>i. finished i t"
    unfolding t_def using assms(1)
    by (simp_all add: smp_step_at smp_defs smp_start_def reg_set_bits_def ioread32_def iowrite32_def finished_def)
  have ne: "mem b r OR f \<noteq> mem b r OR f OR g" "mem b r OR f \<noteq> mem b r OR g OR f"
  proof -
    have "g AND NOT (mem b r OR f OR g) = 0" "g AND NOT (mem b r OR g OR f) = 0"
      by (rule bit_word_eqI, auto simp: bit_simps)+
    then show "mem b r OR f \<noteq> mem b r OR f OR g" "mem b r OR f \<noteq> mem b r OR g OR f"
      using assms(2) by metis+
  qed
  then have "mem (bus t) r \<noteq> mem (exec (do { reg_set_bit r f; reg_set_bit r g }) b) r"
    "mem (bus t) r \<noteq> mem (exec (do { reg_set_bit r g; reg_set_bit r f }) b) r"
    by (simp_all add: m or.assoc)
  then show ?thesis using m fin by (metis (no_types))
qed

theorem rmw_loses_update_witness:
  "mem (bus (smp_run [0, 0, 1, 1, 1, 1, 0, 0]
     (smp_start (bus0\<lparr>nr_cpus := 1\<rparr>)
       (\<lambda>i. if i = 0 then [reg_set_bits 4 1] else if i = 1 then [reg_set_bits 4 2] else [])))) 4 = 1"
proof -
  have "\<not> serialized (bus0\<lparr>nr_cpus := 1\<rparr>)" "2 AND NOT (mem (bus0\<lparr>nr_cpus := 1\<rparr>) 4 OR 1) \<noteq> 0"
    by (simp_all add: serialized_def bus0_def)
  from rmw_loses_update [OF this] show ?thesis by (simp add: bus0_def)
qed

text \<open>
  On one processor, where the lock is not taken, the unlock handler may still change its
  bit between the steps of an access it interrupts. It sets the bit and clears it again, and so,
  if the bit was clear before, the registers are in the end as if the handler had
  run before or after the whole access, whatever the access and wherever it was interrupted.
\<close>

theorem quiet_pulse_atomic:
  fixes b :: reg_bus and K :: chip and a :: access and k :: nat
  assumes "\<not> serialized b" "mem b (AR_PCU_MISC K) AND AR_PCU_FORCE_QUIET_COLL K = 0" "k \<le> 4"
  defines "pulse \<equiv> [reg_set_bits (AR_PCU_MISC K) (AR_PCU_FORCE_QUIET_COLL K),
    reg_clr_bits (AR_PCU_MISC K) (AR_PCU_FORCE_QUIET_COLL K)]"
  defines "t \<equiv> smp_run (replicate k 0 @ replicate 8 1 @ replicate (4 - k) 0)
    (smp_start b (\<lambda>i. if i = 0 then [a] else if i = 1 then pulse else []))"
  shows "mem (bus t) \<in> {mem (exec (do { _ \<leftarrow> hook (pulse ! 0); _ \<leftarrow> hook (pulse ! 1); hook a }) b),
    mem (exec (do { _ \<leftarrow> hook a; _ \<leftarrow> hook (pulse ! 0); hook (pulse ! 1) }) b)}"
proof -
  have off: "mem b (AR_PCU_MISC K) AND NOT (AR_PCU_FORCE_QUIET_COLL K) = mem b (AR_PCU_MISC K)"
  proof (rule bit_word_eqI)
    fix n assume "n < LENGTH(32)"
    moreover have "bit (mem b (AR_PCU_MISC K) AND AR_PCU_FORCE_QUIET_COLL K) n = bit (0 :: u32) n"
      using assms(2) by simp
    ultimately show "bit (mem b (AR_PCU_MISC K) AND NOT (AR_PCU_FORCE_QUIET_COLL K)) n = bit (mem b (AR_PCU_MISC K)) n"
      by (auto simp: bit_simps)
  qed
  have r8: "replicate 8 (1 :: nat) = [1, 1, 1, 1, 1, 1, 1, 1]" by (simp add: eval_nat_numeral)
  have "k = 0 \<or> k = 1 \<or> k = 2 \<or> k = 3 \<or> k = 4" using assms(3) by auto
  then show ?thesis
    unfolding t_def pulse_def r8 using assms(1) off
    by (elim disjE; cases a)
      (auto simp: smp_step_at smp_defs smp_start_def reg_set_bits_def reg_clr_bits_def ioread32_def iowrite32_def
        ath_bus.rmw_peek ath_bus.rd_peek ath_bus.wr_peek or_and_not eval_nat_numeral fun_upd_twist)
qed

theorem quiet_pulse_atomic_witness:
  "mem (bus (smp_run [0, 0, 1, 1, 1, 1, 1, 1, 1, 1, 0, 0]
     (smp_start (bus0\<lparr>nr_cpus := 1\<rparr>) (\<lambda>i. if i = 0 then [reg_set_bits 0x8120 1] else if i = 1 then
       [reg_set_bits 0x8120 0x40000, reg_clr_bits 0x8120 0x40000] else [])))) 0x8120 = 1"
proof -
  have K: "AR_PCU_MISC ar9331 = 0x8120" "AR_PCU_FORCE_QUIET_COLL ar9331 = 0x40000" by (simp_all add: ar9331_def)
  have sched: "replicate 2 0 @ replicate 8 1 @ replicate (4 - 2) 0 = [0, 0, 1, 1, 1, 1, 1, 1, 1, 1, 0, 0 :: nat]"
    by (simp add: eval_nat_numeral)
  have b: "\<not> serialized (bus0\<lparr>nr_cpus := 1\<rparr>)" "mem (bus0\<lparr>nr_cpus := 1\<rparr>) r = 0" for r
    by (simp_all add: serialized_def bus0_def)
  from quiet_pulse_atomic [of "bus0\<lparr>nr_cpus := 1\<rparr>" ar9331 2 "reg_set_bits 0x8120 1", unfolded K sched] b
  show ?thesis by (auto simp: reg_set_bits_def reg_clr_bits_def ath_bus.rmw_peek simp del: fold_simps)
qed

end
