(* ===== verification/Contention_Smp.thy ===== *)
theory Contention_Smp
  imports Registers_Smp Contention
begin

text \<open>
  \<open>edit_contentionWindow\<close> of \<open>unlock.c\<close> on two processors: the timer handler calls it without the
  lock that the interrupt handler holds, so on a machine with several processors the eight
  writes of two calls can mix.
\<close>

section \<open>The loop as a list of accesses\<close>

fun window_writes :: "chip \<Rightarrow> u32 list \<Rightarrow> u32 \<Rightarrow> access list" where
  "window_writes K [] window_size = []"
| "window_writes K (qnum # qs) window_size =
     (let set' = 0x000fffff;
          tmp = push_bit 10 window_size;
          window_size = window_size OR tmp;
          set' = set' AND window_size
      in Write32 set' (AR_DLCL_IFS K qnum) # window_writes K qs window_size)"

text \<open>Run whole, these accesses are the loop.\<close>

lemma window_writes_loop:
  "one_by_one (map (\<lambda>a. (i, a, 0)) (window_writes K qs w)) b = exec (edit_cw_loop K qs w) b"
  by (induction K qs w arbitrary: b rule: window_writes.induct) (simp_all add: edit_cw_loop.simps Let_def)

declare window_writes.simps [simp del]

lemma window_writes_carry:
  "w < 1024 \<Longrightarrow> cw_carry w x \<Longrightarrow>
   window_writes K qs x = map (\<lambda>q. Write32 (ifs_value w) (AR_DLCL_IFS K q)) qs"
  by (induction K qs x rule: window_writes.induct) (simp_all add: window_writes.simps Let_def cw_carry_step cw_carry_value)

lemma window_writes_eq:
  "w < 1024 \<Longrightarrow> window_writes K qs w = map (\<lambda>q. Write32 (ifs_value w) (AR_DLCL_IFS K q)) qs"
  by (rule window_writes_carry) (simp_all add: cw_carry_start)

section \<open>Writes one after the other\<close>

lemma writes_value:
  assumes "\<forall>(i, a, v) \<in> set es. \<exists>x r. a = Write32 x r \<and> x \<in> V"
  shows "mem (one_by_one es b) r \<in> V \<or>
    mem (one_by_one es b) r = mem b r \<and> (\<forall>(i, a, v) \<in> set es. \<forall>x. a \<noteq> Write32 x r)"
  using assms
proof (induction es arbitrary: b)
  case (Cons e es)
  obtain i a v where e: "e = (i, a, v)" by (cases e)
  with Cons.prems obtain x r' where a: "a = Write32 x r'" "x \<in> V" by auto
  from Cons.IH [of "exec (hook a) b"] Cons.prems show ?case
    by (cases "r' = r") (auto simp: e a)
qed simp

lemma writes_elsewhere:
  "\<forall>(i, a, v) \<in> set es. \<exists>x r'. a = Write32 x r' \<and> r' \<noteq> r \<Longrightarrow> mem (one_by_one es b) r = mem b r"
  by (induction es b rule: answers.induct) auto

text \<open>A processor that is let alone makes its next writes in three steps each.\<close>

fun write_all :: "(u32 \<times> u32) list \<Rightarrow> (u32 \<Rightarrow> u32) \<Rightarrow> u32 \<Rightarrow> u32" where
  "write_all [] m = m"
| "write_all ((v, r) # ws) m = write_all ws (m(r := v))"

lemma solo_writes:
  assumes "serialized (bus s)" "holder s = None" "at_pc (cpu s i) = Outside"
    and "todo (cpu s i) = map (\<lambda>(v, r). Write32 v r) ws @ as"
  defines "t \<equiv> smp_run (replicate (3 * length ws) i) s"
  shows "serialized (bus t) \<and> holder t = None \<and> at_pc (cpu t i) = Outside \<and> todo (cpu t i) = as \<and>
    mem (bus t) = write_all ws (mem (bus s)) \<and> (\<forall>j. j \<noteq> i \<longrightarrow> cpu t j = cpu s j)"
  using assms(1-4) unfolding t_def
proof (induction ws arbitrary: s)
  case (Cons w ws)
  obtain v r where w: "w = (v, r)" by (cases w)
  define u where "u = smp_step i (smp_step i (smp_step i s))"
  have three: "replicate (3 * length (w # ws)) i = [i, i, i] @ replicate (3 * length ws) i"
    by (simp add: eval_nat_numeral)
  have u: "serialized (bus u)" "holder u = None" "at_pc (cpu u i) = Outside"
    "todo (cpu u i) = map (\<lambda>(v, r). Write32 v r) ws @ as" "mem (bus u) = (mem (bus s))(r := v)"
    "\<forall>j. j \<noteq> i \<longrightarrow> cpu u j = cpu s j"
    using Cons.prems unfolding u_def by (simp_all add: w smp_step_at smp_defs serial_ev_def iowrite32_def)
  have "smp_run (replicate (3 * length (w # ws)) i) s = smp_run (replicate (3 * length ws) i) u"
    unfolding three u_def by simp
  then show ?case using Cons.IH [OF u(1-4)] u(5,6) by (simp add: w fun_upd_def)
qed simp

section \<open>Properties\<close>

definition two_calls :: "chip \<Rightarrow> u32 \<Rightarrow> u32 \<Rightarrow> nat \<Rightarrow> access list" where
  "two_calls K w0 w1 i = (if i = 0 then window_writes K cw_queues w0
     else if i = 1 then window_writes K cw_queues w1 else [])"

text \<open>
  C15: Two calls on two processors of a serialised bus, with whatever interleaving: when both have
  returned, every queue has the window of one of the two calls, as minimum and as maximum, and no other
  register has changed. The window of a queue is never torn.
\<close>

theorem windows_race:
  fixes b :: reg_bus and K :: chip and sched :: "nat list"
  assumes "serialized b" "w0 < 1024" "w1 < 1024"
  defines "t \<equiv> smp_run sched (smp_start b (two_calls K w0 w1))"
  assumes "finished 0 t" "finished 1 t"
  shows "(\<forall>q \<in> set cw_queues. mem (bus t) (AR_DLCL_IFS K q) \<in> {ifs_value w0, ifs_value w1}) \<and>
    (\<forall>r. r \<notin> AR_DLCL_IFS K ` set cw_queues \<longrightarrow> mem (bus t) r = mem b r)"
proof -
  let ?prog = "two_calls K w0 w1"
  have inv: "serial_inv b t" unfolding t_def using assms(1) by (intro serial_inv_run serial_inv_start)
  have prog: "program_of i t = ?prog i" for i by (simp add: t_def program_run)
  have fin: "finished i t" for i
  proof (cases "i = 0 \<or> i = 1")
    case True
    then show ?thesis using assms(5,6) by auto
  next
    case False
    then have "finished i (smp_start b ?prog)" by (simp add: finished_def two_calls_def)
    then show ?thesis unfolding t_def by (rule finished_run)
  qed
  then have ret: "returned_of i t = ?prog i" for i using prog [of i] by (simp add: program_of_def finished_def in_hook_def)
  have "holder t = None"
    using inv fin by (auto simp: serial_inv_def finished_def hook_done_def split: option.splits)
  then have bus: "bus t = one_by_one (returned t) b" using inv by (simp add: serial_inv_def)
  let ?V = "{ifs_value w0, ifs_value w1}"
  have acc: "a \<in> set (?prog i)" if "(i, a, v) \<in> set (returned t)" for i a v
  proof -
    have "a \<in> set (returned_of i t)" using that by (force simp: returned_of_def)
    then show ?thesis by (simp add: ret)
  qed
  have prog_set: "set (?prog i) \<subseteq> {Write32 v (AR_DLCL_IFS K q) | v q. v \<in> ?V \<and> q \<in> set cw_queues}" for i
    using assms(2,3) by (auto simp: two_calls_def window_writes_eq)
  have "\<exists>x r. a = Write32 x r \<and> x \<in> ?V" if "(i, a, v) \<in> set (returned t)" for i a v
    using acc [OF that] prog_set [of i] by auto
  then have w: "mem (bus t) r \<in> ?V \<or>
      mem (bus t) r = mem b r \<and> (\<forall>(i, a, v) \<in> set (returned t). \<forall>x. a \<noteq> Write32 x r)" for r
    unfolding bus using writes_value [of "returned t" ?V b r] by blast
  have "mem (bus t) (AR_DLCL_IFS K q) \<in> ?V" if q: "q \<in> set cw_queues" for q
  proof -
    have "Write32 (ifs_value w0) (AR_DLCL_IFS K q) \<in> set (returned_of 0 t)"
      using q assms(2) by (simp add: ret two_calls_def window_writes_eq)
    then obtain v where "(0, Write32 (ifs_value w0) (AR_DLCL_IFS K q), v) \<in> set (returned t)"
      by (auto simp: returned_of_def)
    then show ?thesis using w [of "AR_DLCL_IFS K q"] by blast
  qed
  moreover have "mem (bus t) r = mem b r" if "r \<notin> AR_DLCL_IFS K ` set cw_queues" for r
  proof -
    have "\<forall>(i, a, v) \<in> set (returned t). \<exists>x r'. a = Write32 x r' \<and> r' \<noteq> r"
      using acc prog_set that by fastforce
    then show ?thesis unfolding bus by (rule writes_elsewhere)
  qed
  ultimately show ?thesis by blast
qed

lemma window_pairs:
  "w < 1024 \<Longrightarrow> window_writes K qs w = map (\<lambda>(v, r). Write32 v r) (map (\<lambda>q. (ifs_value w, AR_DLCL_IFS K q)) qs)"
  by (simp add: window_writes_eq)

lemma write_all_window:
  "write_all (map (\<lambda>q. (x, f q)) qs) m r = (if r \<in> f ` set qs then x else m r)"
  by (induction qs arbitrary: m) auto

theorem windows_race_witness:
  "mem (bus (smp_run (concat (replicate 64 [0..<2])) (smp_start bus0 (two_calls ar9331 7 15)))) (AR_DLCL_IFS ar9331 3)
     \<in> {ifs_value 7, ifs_value 15}"
proof -
  have s: "serialized bus0" by (simp add: serialized_def bus0_def)
  have "finished i (smp_run (concat (replicate 64 [0..<2])) (smp_start bus0 (two_calls ar9331 7 15)))" for i
  proof (rule hooks_progress [OF s])
    have "length (two_calls ar9331 7 15 i) = (if i < 2 then 8 else 0)" for i
      by (simp add: two_calls_def window_writes_eq cw_queues_def)
    then show "(\<Sum>i<2. 4 * length (two_calls ar9331 7 15 i)) \<le> 64" by simp
  qed (simp add: two_calls_def)
  then show ?thesis
    using windows_race [OF s, of 7 15 "concat (replicate 64 [0..<2])" ar9331] by (simp add: cw_queues_def)
qed

text \<open>
  The windows of two calls do mix. When the second call runs to its end before the last write
  of the first, both return, and the last queue keeps the first call's window while the other
  seven have the second's: the invariant of one window in all queues needs the lock that the
  timer handler does not take.
\<close>

theorem windows_mix:
  fixes b :: reg_bus and K :: chip
  assumes "serialized b" "w0 < 1024" "w1 < 1024" "chip_ok K"
  defines "t \<equiv> smp_run (replicate 21 0 @ replicate 24 1 @ replicate 3 0) (smp_start b (two_calls K w0 w1))"
  shows "finished 0 t \<and> finished 1 t \<and> mem (bus t) (AR_DLCL_IFS K 7) = ifs_value w0 \<and>
    (\<forall>q < 7. mem (bus t) (AR_DLCL_IFS K q) = ifs_value w1)"
proof -
  let ?s = "smp_start b (two_calls K w0 w1)"
  let ?ws = "\<lambda>w qs. map (\<lambda>q. (ifs_value w, AR_DLCL_IFS K q)) qs"
  let ?front = "[0, 1, 2, 3, 4, 5, 6] :: u32 list"
  have q: "cw_queues = ?front @ [7]" by (simp add: cw_queues_def)
  define s1 where "s1 = smp_run (replicate 21 0) ?s"
  define s2 where "s2 = smp_run (replicate 24 1) s1"
  have t: "t = smp_run (replicate 3 0) s2" by (simp add: t_def s1_def s2_def)
  have p0: "todo (cpu ?s 0) = map (\<lambda>(v, r). Write32 v r) (?ws w0 ?front) @ map (\<lambda>(v, r). Write32 v r) (?ws w0 [7])"
    using assms(2) by (simp add: two_calls_def window_writes_eq q)
  have 1: "serialized (bus s1)" "holder s1 = None" "at_pc (cpu s1 0) = Outside"
    "todo (cpu s1 0) = map (\<lambda>(v, r). Write32 v r) (?ws w0 [7])" "cpu s1 1 = cpu ?s 1"
    using solo_writes [of ?s 0 "?ws w0 ?front", OF _ _ _ p0] assms(1) by (simp_all add: s1_def)
  have p1: "todo (cpu s1 1) = map (\<lambda>(v, r). Write32 v r) (?ws w1 cw_queues) @ []"
    unfolding 1(5) start_simps append_Nil2 window_pairs [OF assms(3), symmetric] by (simp add: two_calls_def)
  have o1: "at_pc (cpu s1 1) = Outside" unfolding 1(5) by simp
  have l: "3 * length (?ws w1 cw_queues) = 24" by (simp add: cw_queues_def)
  have 2: "serialized (bus s2)" "holder s2 = None" "finished 1 s2" "cpu s2 0 = cpu s1 0"
    "mem (bus s2) = write_all (?ws w1 cw_queues) (mem (bus s1))"
    using solo_writes [OF 1(1,2) o1 p1] unfolding l by (simp_all add: s2_def finished_def)
  have p2: "todo (cpu s2 0) = map (\<lambda>(v, r). Write32 v r) (?ws w0 [7]) @ []" by (simp add: 2(4) 1(4))
  have o2: "at_pc (cpu s2 0) = Outside" by (simp add: 2(4) 1(3))
  have 3: "finished 0 t" "cpu t 1 = cpu s2 1" "mem (bus t) = write_all (?ws w0 [7]) (mem (bus s2))"
    using solo_writes [OF 2(1,2) o2 p2] by (simp_all add: t finished_def)
  have "mem (bus t) (AR_DLCL_IFS K q) = ifs_value w1" if "q < 7" for q
  proof -
    have "unat q < 7" using that by (simp add: word_less_nat_alt)
    then have "unat q \<in> {0, 1, 2, 3, 4, 5, 6}" by auto
    then have "word_of_nat (unat q) \<in> (word_of_nat ` {0, 1, 2, 3, 4, 5, 6} :: u32 set)" by (rule imageI)
    then have qs: "q \<in> set ?front" by auto
    have "distinct (map (AR_DLCL_IFS K) dcu_queues)" using assms(4) by (simp add: chip_ok_def)
    then have "AR_DLCL_IFS K q \<noteq> AR_DLCL_IFS K 7" using qs by (auto simp: dcu_queues_def)
    moreover have "AR_DLCL_IFS K q \<in> AR_DLCL_IFS K ` set cw_queues" using qs by (intro imageI) (auto simp: q)
    ultimately show ?thesis by (simp add: 3(3) 2(5) write_all_window)
  qed
  then show ?thesis using 2(3) 3 by (simp add: finished_def)
qed

theorem windows_mix_witness:
  "mem (bus (smp_run (replicate 21 0 @ replicate 24 1 @ replicate 3 0) (smp_start bus0 (two_calls ar9331 7 15))))
     (AR_DLCL_IFS ar9331 7) = ifs_value 7"
  using windows_mix [of bus0 7 15 ar9331] by (simp add: serialized_def bus0_def chip_ok_ar9331)

end
