(* ===== verification/Node_System.thy ===== *)
theory Node_System
  imports Ath_Ops Unlock_Module Char_Device
begin

text \<open>
  One node of the network: the driver, the unlock module and the character device together. They
  share the chip's registers, the list of transmit buffers that the driver exports through
  \<open>txbuf_fff\<close> (\<open>ath9k_tx\<close>), and the counter \<open>buf_counter\<close> that the module's handlers set and the
  device reads out. Each part keeps its own model; what is shared is copied in before a
  handler of the module runs and copied back after it.
\<close>

section \<open>The parts and what they share\<close>

record node_sys =
  radio :: softc
  signals :: unlock_state
  counts :: chrdev

text \<open>The module sees the driver's registers, and its buffer list once the pointer is exported.\<close>

definition share_in :: "node_sys \<Rightarrow> unlock_state" where
  "share_in n = (signals n)
     \<lparr>mem := mem (radio n), nr_cpus := nr_cpus (radio n), ser_reg_mode_on := ser_reg_mode_on (radio n),
      serial_trace := serial_trace (radio n),
      unlock_state.txbuf_fff := (if softc.txbuf_fff (radio n) then Some (txbuf (radio n)) else None)\<rparr>"

definition share_out :: "unlock_state \<Rightarrow> node_sys \<Rightarrow> node_sys" where
  "share_out u n = n\<lparr>signals := u,
     radio := (radio n)\<lparr>mem := mem u, serial_trace := serial_trace u\<rparr>,
     counts := (counts n)\<lparr>chrdev.buf_counter := unlock_state.buf_counter u\<rparr>\<rparr>"

text \<open>
  What can happen to a node: an event of the driver, a falling edge on the line, the module's
  timer, and user space that opens or reads the device.
\<close>

datatype node_event = Drive event | Signal irq_input | Fire | Open | Read "u8 list" u32 nat

fun node_step :: "device \<Rightarrow> chip \<Rightarrow> node_event \<Rightarrow> node_sys \<Rightarrow> fault + node_sys" where
  "node_step D K (Drive e) n = Inr (n\<lparr>radio := exec (ath9k_event D e) (radio n)\<rparr>)"
| "node_step D K (Signal I) n =
     (case res (unlock_r_irq_handler K I) (share_in n) of
        Inl f \<Rightarrow> Inl f
      | Inr r \<Rightarrow> Inr (share_out (exec (unlock_r_irq_handler K I) (share_in n)) n))"
| "node_step D K Fire n =
     Inr (if unlock_timer (signals n) = None then n else share_out (timer_fires K (share_in n)) n)"
| "node_step D K Open n = Inr (n\<lparr>counts := exec my_open (counts n)\<rparr>)"
| "node_step D K (Read user len missing) n = Inr (n\<lparr>counts := exec (dev_read user len missing) (counts n)\<rparr>)"

fun node_run :: "device \<Rightarrow> chip \<Rightarrow> node_event list \<Rightarrow> node_sys \<Rightarrow> fault + node_sys" where
  "node_run D K [] n = Inr n"
| "node_run D K (e # es) n = (case node_step D K e n of Inl f \<Rightarrow> Inl f | Inr n' \<Rightarrow> node_run D K es n')"

section \<open>Lemmas\<close>

lemma share_in_fields [simp]:
  "unlock_state.txbuf_fff (share_in n) = (if softc.txbuf_fff (radio n) then Some (txbuf (radio n)) else None)"
  "driver_lock (share_in n) = driver_lock (signals n)" "delta_ok (share_in n) = delta_ok (signals n)"
  "par_T (share_in n) = par_T (signals n)" "unlock_timer (share_in n) = unlock_timer (signals n)"
  "last_unlock (share_in n) = last_unlock (signals n)" "mem (share_in n) = mem (radio n)"
  by (simp_all add: share_in_def delta_ok_def)

lemma share_out_fields [simp]:
  "signals (share_out u n) = u" "softc.txbuf_fff (radio (share_out u n)) = softc.txbuf_fff (radio n)"
  "txbuf (radio (share_out u n)) = txbuf (radio n)" "mem (radio (share_out u n)) = mem u"
  "locked (radio (share_out u n)) = locked (radio n)" "ps_usecount (radio (share_out u n)) = ps_usecount (radio n)"
  "chrdev.buf_counter (counts (share_out u n)) = unlock_state.buf_counter u"
  by (simp_all add: share_out_def locked_def)

lemma exported_stays:
  assumes "frames D softc.txbuf_fff" "softc.txbuf_fff s"
  shows "softc.txbuf_fff (exec (ath9k_event D e) s)"
proof (cases "\<exists>f. e = Iface_op (Op_tx f)")
  case True
  then show ?thesis using tx_exports [OF steady_exported [OF assms(1)]] by auto
next
  case False
  then have "keeps softc.txbuf_fff (ath9k_event D e)"
    by (intro keeps_event_steady steady_exported assms(1)) blast
  with assms(2) show ?thesis by (simp add: keepsD)
qed

text \<open>A node that answers signals.\<close>

definition node_ok :: "node_sys \<Rightarrow> bool" where
  "node_ok n \<longleftrightarrow> softc.txbuf_fff (radio n) \<and> \<not> driver_lock (signals n) \<and> delta_ok (signals n) \<and>
     locked (radio n) = Some []"

lemma ready_irq:
  assumes "ready u"
  shows "res (unlock_r_irq_handler K I) u = Inr IRQ_HANDLED"
proof -
  from assms obtain b where b: "unlock_state.txbuf_fff u = Some b" and nl: "\<not> driver_lock u"
    and D: "delta_ok u" by (auto simp: ready_def)
  show ?thesis using D by (simp add: irq_split [OF nl b] res_relay)
qed

lemma ready_share: "node_ok n \<Longrightarrow> ready (share_in n)"
  by (simp add: node_ok_def ready_def)

lemma timer_fields:
  "driver_lock (timer_fires K u) = driver_lock u" "delta_ok (timer_fires K u) = delta_ok u"
  "unlock_state.txbuf_fff (timer_fires K u) = unlock_state.txbuf_fff u"
  by (cases "unlock_state.txbuf_fff u"; simp add: timer_fires_def unlock_timer_handler_def Let_def delta_ok_def)+

lemma node_step_ok:
  assumes "frames D ps_usecount" "frames D softc.txbuf_fff" "node_ok n"
  shows "\<exists>n'. node_step D K e n = Inr n' \<and> node_ok n' \<and> ps_usecount (radio n') = ps_usecount (radio n)"
proof (cases e)
  case (Drive d)
  then show ?thesis
    using assms exported_stays [OF assms(2)] usesD [OF uses_event, of "radio n" "[]"]
      keepsD [OF keeps_event [OF steady_usecount [OF assms(1)]]]
    by (simp add: node_ok_def)
next
  case (Signal I)
  have r: "ready (share_in n)" using assms(3) by (rule ready_share)
  note i = irq_ready [OF r, of K I] and h = ready_irq [OF r, of K I]
  show ?thesis using Signal i(1) h assms(3) by (auto simp: node_ok_def ready_def)
next
  case Fire
  then show ?thesis using assms(3) by (simp add: node_ok_def timer_fields)
qed (use assms(3) in \<open>simp_all add: node_ok_def\<close>)

lemma node_run_ok:
  assumes "frames D ps_usecount" "frames D softc.txbuf_fff" "node_ok n"
  shows "\<exists>n'. node_run D K es n = Inr n' \<and> node_ok n' \<and> ps_usecount (radio n') = ps_usecount (radio n)"
  using assms(3)
proof (induction es arbitrary: n)
  case (Cons e es)
  from node_step_ok [OF assms(1,2) Cons.prems] obtain n1 where
    n1: "node_step D K e n = Inr n1" "node_ok n1" "ps_usecount (radio n1) = ps_usecount (radio n)" by blast
  from Cons.IH [OF n1(2)] n1 show ?case by auto
qed simp

text \<open>A node with a free lock is ready once the driver has sent a frame.\<close>

definition node_idle :: "node_sys \<Rightarrow> bool" where
  "node_idle n \<longleftrightarrow> \<not> driver_lock (signals n) \<and> delta_ok (signals n) \<and> locked (radio n) = Some []"

lemma first_frame:
  assumes "frames D ps_usecount" "frames D softc.txbuf_fff" "node_idle n"
  shows "\<exists>n'. node_step D K (Drive (Iface_op (Op_tx f))) n = Inr n' \<and> node_ok n' \<and>
    ps_usecount (radio n') = ps_usecount (radio n) \<and> signals n' = signals n \<and> counts n' = counts n \<and>
    radio n' = exec (ath9k_tx D f) (radio n)"
proof -
  have "locked (exec (ath9k_event D (Iface_op (Op_tx f))) (radio n)) = Some []"
    by (rule usesD [OF uses_event]) (use assms(3) in \<open>simp_all add: node_idle_def\<close>)
  moreover have "ps_usecount (exec (ath9k_event D (Iface_op (Op_tx f))) (radio n)) = ps_usecount (radio n)"
    by (intro keepsD keeps_event steady_usecount assms(1)) simp
  ultimately show ?thesis
    using assms(3) tx_exports [OF steady_exported [OF assms(2)]] by (simp add: node_ok_def node_idle_def)
qed

lemma signal_windows:
  assumes "node_ok n"
  shows "\<exists>n'. node_step D K (Signal I) n = Inr n' \<and> node_ok n' \<and>
    (chip_ok K \<longrightarrow> (\<forall>q \<in> set cw_queues. mem (radio n') (AR_DLCL_IFS K q) =
      ifs_value (cw_val_of (of_nat (length (txbuf (radio n))))))) \<and>
    chrdev.buf_counter (counts n') = of_nat (length (txbuf (radio n)))"
proof -
  let ?u = "share_in n" and ?b = "txbuf (radio n)"
  have b: "unlock_state.txbuf_fff ?u = Some ?b" and nl: "\<not> driver_lock ?u" and D: "delta_ok (after_cw K ?b ?u)"
    using assms by (simp_all add: node_ok_def)
  let ?u' = "exec (unlock_r_irq_handler K I) ?u"
  have mem: "mem ?u' (AR_DLCL_IFS K q) = ifs_value (cw_val_of (get_buf_size ?b))"
    if "chip_ok K" "q \<in> set cw_queues" for q
    using that chip_pcu_notin(2) [OF that] by (auto simp: irq_split [OF nl b] relay_effect [OF D] mem_after_cw)
  have cnt: "unlock_state.buf_counter ?u' = get_buf_size ?b"
    by (simp add: irq_split [OF nl b] relay_effect [OF D])
  note r = ready_share [OF assms]
  have "node_step D K (Signal I) n = Inr (share_out ?u' n)" by (simp add: ready_irq [OF r])
  moreover have "node_ok (share_out ?u' n)"
    using irq_ready(1) [OF r, of K I] assms by (simp add: node_ok_def ready_def)
  ultimately show ?thesis using mem cnt by (auto simp: get_buf_size_eq)
qed

section \<open>Properties\<close>

text \<open>A node at rest: a chip that answers at once, the module loaded, nothing sent yet.\<close>

definition node_start :: node_sys where
  "node_start = \<lparr>radio = softc0\<lparr>txbuf := replicate 45 0\<rparr>, signals = node0, counts = chrdev0\<rparr>"

lemma node_start_idle:
  "node_idle node_start" "\<not> softc.txbuf_fff (radio node_start)" "\<not> driver_lock (signals node_start)"
  by (simp_all add: node_idle_def node_start_def softc0_def locked_def)

lemma dev0_frames: "frames dev0 ps_usecount" "frames dev0 softc.txbuf_fff" "frames dev0 txbuf"
  by (rule frames_world0, simp)+

text \<open>
  C3: A node that has sent a frame never deadlocks. After the first transmission, over any run of
  driver events, signals, timer interrupts and reads, in any order, no handler faults, the module's
  lock and all locks of the driver are free in the end, the count of users is what it was, and
  the node still answers signals.
\<close>

theorem node_never_deadlocks:
  assumes "frames D ps_usecount" "frames D softc.txbuf_fff" "node_idle n"
  shows "\<exists>n'. node_run D K (Drive (Iface_op (Op_tx f)) # es) n = Inr n' \<and> node_ok n' \<and>
    ps_usecount (radio n') = ps_usecount (radio n)"
proof -
  from first_frame [OF assms] obtain n1 where
    n1: "node_step D K (Drive (Iface_op (Op_tx f))) n = Inr n1" "node_ok n1"
    "ps_usecount (radio n1) = ps_usecount (radio n)" by blast
  from node_run_ok [OF assms(1,2) n1(2), of K es] obtain n' where
    "node_run D K es n1 = Inr n'" "node_ok n'" "ps_usecount (radio n') = ps_usecount (radio n1)" by blast
  with n1 show ?thesis by simp
qed

theorem node_never_deadlocks_witness:
  "\<exists>n'. node_run dev0 ar9331 [Drive (Iface_op (Op_tx frame0)), Signal (signal_at 15000000), Drive Ev_isr, Fire,
     Read [] 0 0, Drive Ev_tasklet, Signal (signal_at 30000000)] node_start = Inr n' \<and> node_ok n'"
  using node_never_deadlocks [OF dev0_frames(1,2) node_start_idle(1), of ar9331 frame0] by blast

text \<open>
  C9: From the driver to the air and to user space. After a transmission the next signal, accepted
  or not, sets all eight window registers of the driver's chip by the number of buffers that the
  driver then has, and a reader of the device is told this number.
\<close>

theorem node_pipeline:
  assumes "frames D ps_usecount" "frames D softc.txbuf_fff" "node_idle n" "chip_ok K"
    and "length (txbuf (exec (ath9k_tx D f) (radio n))) < 2 ^ 31"
  shows "\<exists>n'. node_run D K [Drive (Iface_op (Op_tx f)), Signal I] n = Inr n' \<and>
    (let b = length (txbuf (exec (ath9k_tx D f) (radio n)));
         w = (if b > 70 then 1023 else if b > 60 then 511 else if b > 50 then 255 else if b > 40 then 63
           else if b > 20 then 15 else if b > 10 then 7 else if b > 5 then 3 else 1)
     in (\<forall>q < 8. ifs_cwmin (mem (radio n') (AR_DLCL_IFS K q)) = w \<and> ifs_cwmax (mem (radio n') (AR_DLCL_IFS K q)) = w) \<and>
        (let (r, user) = res (dev_read [0, 0, 0, 0] 4 0) (counts n') in r = 0 \<and> unat (be_word user) = b))"
proof -
  from first_frame [OF assms(1-3)] obtain n1 where
    n1: "node_step D K (Drive (Iface_op (Op_tx f))) n = Inr n1" "node_ok n1"
    "radio n1 = exec (ath9k_tx D f) (radio n)" by blast
  from signal_windows [OF n1(2), of D K I] obtain n' where
    n': "node_step D K (Signal I) n1 = Inr n'"
      "\<forall>q \<in> set cw_queues. mem (radio n') (AR_DLCL_IFS K q) = ifs_value (cw_val_of (of_nat (length (txbuf (radio n1)))))"
      "chrdev.buf_counter (counts n') = of_nat (length (txbuf (radio n1)))" using assms(4) by blast
  define b where "b = length (txbuf (radio n1))"
  have b: "b < 2 ^ 31" using assms(5) n1(3) by (simp add: b_def)
  have s: "sint (of_nat b :: u32) = int b"
    using b by (simp add: signed_of_nat signed_take_bit_int_eq_self)
  have u: "unat (of_nat b :: u32) = b" using b by (simp add: unat_of_nat take_bit_nat_def)
  have cw: "cw_val_of (of_nat b) = (if b > 70 then 1023 else if b > 60 then 511 else if b > 50 then 255
      else if b > 40 then 63 else if b > 20 then 15 else if b > 10 then 7 else if b > 5 then 3 else 1)"
    by (simp add: cw_val_of_def s)
  have q8: "q \<in> set cw_queues" if "q < 8" for q :: u32
  proof -
    have "unat q < 8" using that by (simp add: word_less_nat_alt)
    then have "unat q \<in> {0, 1, 2, 3, 4, 5, 6, 7}" by auto
    then have "word_of_nat (unat q) \<in> (word_of_nat ` {0, 1, 2, 3, 4, 5, 6, 7} :: u32 set)" by (rule imageI)
    then show ?thesis by (auto simp: cw_queues_def)
  qed
  have f: "ifs_cwmin (ifs_value (cw_val_of m)) = cw_val_of m" "ifs_cwmax (ifs_value (cw_val_of m)) = cw_val_of m" for m
    by (simp_all add: ifs_value_fields unlock_cw.cw_fits)
  have "node_run D K [Drive (Iface_op (Op_tx f)), Signal I] n = Inr n'" using n1(1) n'(1) by simp
  moreover have "length (txbuf (exec (ath9k_tx D f) (radio n))) = b" using n1(3) by (simp add: b_def)
  moreover have "ifs_cwmin (mem (radio n') (AR_DLCL_IFS K q)) = cw_val_of (of_nat b)"
    "ifs_cwmax (mem (radio n') (AR_DLCL_IFS K q)) = cw_val_of (of_nat b)" if "q < 8" for q
    using n'(2) q8 [OF that] f by (simp_all add: b_def)
  moreover have "res (dev_read [0, 0, 0, 0] 4 0) (counts n') = (0, be_bytes (of_nat b))"
    using n'(3) by (simp add: dev_read_ok b_def)
  ultimately show ?thesis unfolding Let_def by (auto simp: cw be_word_bytes u)
qed

theorem node_pipeline_witness:
  "\<exists>n'. node_run dev0 ar9331 [Drive (Iface_op (Op_tx frame0)), Signal (signal_at 15000000)] node_start = Inr n' \<and>
     ifs_cwmax (mem (radio n') (AR_DLCL_IFS ar9331 3)) = 63 \<and>
     unat (be_word (snd (res (dev_read [0, 0, 0, 0] 4 0) (counts n')))) = 45"
proof -
  have w: "txbuf (exec (ath9k_tx dev0 frame0) (radio node_start)) = replicate 45 0"
    using dev0_frames(3)
    by (simp add: node_start_def ath9k_tx_def Let_def softc0_def tx_exit_def only_if_def world0_def wake_for_tx_def)
  have l: "length (txbuf (exec (ath9k_tx dev0 frame0) (radio node_start))) < 2 ^ 31" unfolding w by simp
  have "(3 :: u32) < 8" by simp
  with node_pipeline [OF dev0_frames(1,2) node_start_idle(1) chip_ok_ar9331 l, of "signal_at 15000000"]
  show ?thesis unfolding w Let_def by (fastforce split: prod.splits)
qed

text \<open>
  C28: A signal that comes before the first frame is fatal. The handler returns with its lock
  taken because the driver has exported no list yet, and whatever the driver, the timer and user
  space do afterwards, frames sent included, the next signal deadlocks.
\<close>

theorem node_early_signal:
  assumes "\<not> softc.txbuf_fff (radio n)" "\<not> driver_lock (signals n)" "\<forall>e \<in> set es. \<forall>J. e \<noteq> Signal J"
  shows "\<exists>n'. node_run D K (Signal I # es) n = Inr n' \<and> node_step D K (Signal J) n' = Inl Deadlock"
proof -
  let ?n1 = "share_out (exec (unlock_r_irq_handler K I) (share_in n)) n"
  have b: "\<not> driver_lock (share_in n)" "unlock_state.txbuf_fff (share_in n) = None" using assms(1,2) by simp_all
  have n1: "node_step D K (Signal I) n = Inr ?n1" "driver_lock (signals ?n1)"
    using irq_null [OF b, of K I] by simp_all
  have locked: "\<exists>n'. node_run D K es m = Inr n' \<and> driver_lock (signals n')"
    if "driver_lock (signals m)" "\<forall>e \<in> set es. \<forall>J. e \<noteq> Signal J" for m es
    using that
  proof (induction es arbitrary: m)
    case (Cons e es)
    have "\<exists>m'. node_step D K e m = Inr m' \<and> driver_lock (signals m')"
      using Cons.prems by (cases e) (simp_all add: timer_fields)
    then obtain m' where "node_step D K e m = Inr m'" "driver_lock (signals m')" by blast
    with Cons.IH [of m'] Cons.prems(2) show ?case by simp
  qed simp
  from locked [OF n1(2) assms(3)] obtain n' where n': "node_run D K es ?n1 = Inr n'" "driver_lock (signals n')" by blast
  moreover have "node_step D K (Signal J) n' = Inl Deadlock"
    using irq_deadlock(1) [of "share_in n'" K J] n'(2) by simp
  ultimately show ?thesis using n1(1) by simp
qed

theorem node_early_signal_witness:
  "\<exists>n'. node_run dev0 ar9331 (Signal (signal_at 15000000) # [Drive (Iface_op (Op_tx frame0)), Fire]) node_start = Inr n' \<and>
     node_step dev0 ar9331 (Signal (signal_at 30000000)) n' = Inl Deadlock"
  by (rule node_early_signal [OF node_start_idle(2,3)]) simp

end
