(* ===== verification/Node_Protocol.thy ===== *)
theory Node_Protocol
  imports Node_System Unlock_Protocol
begin

text \<open>
  The protocol on whole nodes: a node with its driver and its character device refines the unlock
  protocol, the events of the driver and of user space being invisible to it, and a network of
  such nodes floods a signal.
\<close>

section \<open>Whole nodes refine the protocol\<close>

text \<open>What the protocol sees of an event.\<close>

fun proto_events :: "u32 \<Rightarrow> node_event \<Rightarrow> proto_ev list" where
  "proto_events d (node_event.Signal I) = [abs_ev d (N_irq I)]"
| "proto_events d Fire = [Timeout]"
| "proto_events d e = []"

definition node_serves :: "node_sys \<Rightarrow> bool" where
  "node_serves n \<longleftrightarrow> node_ok n \<and> params_ok (par_T (signals n)) (par_Delta (signals n)) \<and> unlock_timer (signals n) \<noteq> None"

lemma share_in_abs:
  "unlock_abs (share_in n) = unlock_abs (signals n)" "par_Delta (share_in n) = par_Delta (signals n)"
  by (simp_all add: unlock_abs_def share_in_def)

lemma serves_unlock_ok: "node_serves n \<Longrightarrow> unlock_ok m (share_in n)"
  by (simp add: node_serves_def node_ok_def unlock_ok_def share_in_abs)

lemma timer_stays: "unlock_timer s \<noteq> None \<Longrightarrow> p_timer (proto_step T True e (unlock_abs s)) \<noteq> None"
  by (cases e) (auto simp: unlock_abs_def)

lemma armed_abs: "unlock_timer s \<noteq> None \<longleftrightarrow> p_timer (unlock_abs s) \<noteq> None"
  by (simp add: unlock_abs_def)

lemma node_step_refines:
  assumes "frames D ps_usecount" "frames D softc.txbuf_fff" "node_serves n"
  shows "\<exists>n'. node_step D K e n = Inr n' \<and> node_serves n' \<and>
    par_T (signals n') = par_T (signals n) \<and> par_Delta (signals n') = par_Delta (signals n) \<and>
    unlock_abs (signals n') =
      proto_run (uint (par_T (signals n))) True (proto_events (par_Delta (signals n)) e) (unlock_abs (signals n))"
proof -
  have ok: "node_ok n" and armed: "unlock_timer (signals n) \<noteq> None"
    and P: "params_ok (par_T (signals n)) (par_Delta (signals n))" using assms(3) by (simp_all add: node_serves_def)
  from node_step_ok [OF assms(1,2) ok] obtain n' where n': "node_step D K e n = Inr n'" "node_ok n'" by blast
  let ?goal = "\<lambda>u. par_T u = par_T (signals n) \<and> par_Delta u = par_Delta (signals n) \<and>
    unlock_abs u = proto_run (uint (par_T (signals n))) True (proto_events (par_Delta (signals n)) e) (unlock_abs (signals n))"
  have goal: "?goal (signals n')"
  proof (cases e)
    case (Signal I)
    then have s: "signals n' = exec (unlock_r_irq_handler K I) (share_in n)"
      using n'(1) by (auto split: sum.splits)
    show ?thesis
      using unlock_irq_abs [OF serves_unlock_ok [OF assms(3)], where K = K and I = I] unfolding Signal s
      by (simp add: share_in_abs proto_run_def del: proto_step.simps)
  next
    case Fire
    then have s: "signals n' = timer_fires K (share_in n)" using n'(1) armed by auto
    show ?thesis
      using unlock_timer_abs [OF serves_unlock_ok [OF assms(3)], where K = K] unfolding Fire s
      by (simp add: share_in_abs proto_run_def del: proto_step.simps)
  qed (use n'(1) in \<open>auto simp: proto_run_def\<close>)
  have "unlock_timer (signals n') \<noteq> None"
    using goal armed timer_stays [OF armed] unfolding armed_abs
    by (cases e) (simp_all add: proto_run_def del: proto_step.simps)
  then have "node_serves n'" using n'(2) goal P by (simp add: node_serves_def)
  then show ?thesis using n'(1) goal by blast
qed

lemma proto_run_append: "proto_run T r (es @ fs) p = proto_run T r fs (proto_run T r es p)"
  by (simp add: proto_run_def)

lemma node_run_refines:
  assumes "frames D ps_usecount" "frames D softc.txbuf_fff" "node_serves n"
  shows "\<exists>n'. node_run D K es n = Inr n' \<and> node_serves n' \<and>
    unlock_abs (signals n') =
      proto_run (uint (par_T (signals n))) True (concat (map (proto_events (par_Delta (signals n))) es)) (unlock_abs (signals n))"
  using assms(3)
proof (induction es arbitrary: n)
  case (Cons e es)
  from node_step_refines [OF assms(1,2) Cons.prems] obtain n1 where
    n1: "node_step D K e n = Inr n1" "node_serves n1" "par_T (signals n1) = par_T (signals n)"
      "par_Delta (signals n1) = par_Delta (signals n)"
      "unlock_abs (signals n1) = proto_run (uint (par_T (signals n))) True (proto_events (par_Delta (signals n)) e) (unlock_abs (signals n))"
    by blast
  from Cons.IH [OF n1(2)] obtain n' where n': "node_run D K es n1 = Inr n'" "node_serves n'"
    "unlock_abs (signals n') =
      proto_run (uint (par_T (signals n1))) True (concat (map (proto_events (par_Delta (signals n1))) es)) (unlock_abs (signals n1))"
    by blast
  then show ?case using n1 by (simp add: proto_run_append)
qed (simp add: proto_run_def)

section \<open>A network of whole nodes\<close>

text \<open>Each event happens at one node, on its own device.\<close>

fun city_run :: "('i \<Rightarrow> device) \<Rightarrow> chip \<Rightarrow> ('i \<times> node_event) list \<Rightarrow> ('i \<Rightarrow> node_sys) \<Rightarrow> fault + ('i \<Rightarrow> node_sys)" where
  "city_run D K [] N = Inr N"
| "city_run D K ((i, e) # es) N =
     (case node_step (D i) K e (N i) of Inl f \<Rightarrow> Inl f | Inr n' \<Rightarrow> city_run D K es (N(i := n')))"

definition events_at :: "'i \<Rightarrow> ('i \<times> node_event) list \<Rightarrow> node_event list" where
  "events_at i es = map snd (filter (\<lambda>e. fst e = i) es)"

lemma city_local:
  assumes D: "\<And>i. frames (D i) ps_usecount" "\<And>i. frames (D i) softc.txbuf_fff" and N: "\<And>i. node_serves (N i)"
  shows "\<exists>N'. city_run D K es N = Inr N' \<and> (\<forall>i. node_run (D i) K (events_at i es) (N i) = Inr (N' i))"
  using N
proof (induction es arbitrary: N)
  case (Cons e es)
  obtain j x where e: "e = (j, x)" by (cases e)
  from node_step_refines [OF D(1) [of j] D(2) [of j] Cons.prems [of j]] obtain n1 where
    n1: "node_step (D j) K x (N j) = Inr n1" "node_serves n1" by blast
  have "\<And>i. node_serves ((N(j := n1)) i)" using n1(2) Cons.prems by simp
  then obtain N' where N': "city_run D K es (N(j := n1)) = Inr N'"
    "\<forall>i. node_run (D i) K (events_at i es) ((N(j := n1)) i) = Inr (N' i)"
    using Cons.IH [of "N(j := n1)"] by blast
  have "node_run (D i) K (events_at i (e # es)) (N i) = Inr (N' i)" for i
    using N'(2) [rule_format, of i] n1(1) by (cases "i = j") (simp_all add: e events_at_def)
  then show ?case using N'(1) n1(1) e by auto
qed (simp add: events_at_def)

section \<open>Properties\<close>

text \<open>
  C2: A whole node refines the unlock protocol. Once it serves (a frame was sent, the timer runs,
  the parameters are sound), no run of driver events, signals, timer interrupts and reads faults,
  and what it does with the line is what the abstract protocol does with the signals and timeouts
  of the run: the driver and user space never disturb it.
\<close>

theorem node_refines:
  assumes "frames D ps_usecount" "frames D softc.txbuf_fff" "node_serves n"
  shows "\<exists>n'. node_run D K es n = Inr n' \<and> node_serves n' \<and>
    unlock_abs (signals n') = proto_run (uint (par_T (signals n))) True
      (concat (map (proto_events (par_Delta (signals n))) es)) (unlock_abs (signals n))"
  using assms by (rule node_run_refines)

text \<open>A node that has sent a frame and whose timer runs.\<close>

definition node_up :: node_sys where
  "node_up = node_start\<lparr>radio := (radio node_start)\<lparr>softc.txbuf_fff := True\<rparr>,
     signals := node0\<lparr>unlock_timer := Some 20000000\<rparr>\<rparr>"

lemma node_up_serves: "node_serves node_up"
  by (simp add: node_serves_def node_ok_def node_up_def node_start_def softc0_def locked_def node0_def
      params_ok_def delta_ok_def)

theorem node_refines_witness:
  "\<exists>n'. node_run dev0 ar9331 [Drive Ev_isr, node_event.Signal (signal_at 12000000), Open, Drive Ev_tasklet, Fire] node_up = Inr n' \<and>
     node_serves n' \<and> p_pulses (unlock_abs (signals n')) = 2"
proof -
  let ?es = "[Drive Ev_isr, node_event.Signal (signal_at 12000000), Open, Drive Ev_tasklet, Fire]"
  have p: "p_pulses (proto_run (uint (par_T (signals node_up))) True
      (concat (map (proto_events (par_Delta (signals node_up))) ?es)) (unlock_abs (signals node_up))) = 2"
    by (simp add: proto_run_def proto_accepts_def unlock_abs_def node_up_def signal_at_def pulses_def node0_def
        nsec_per_sec_def)
  obtain n' where n': "node_run dev0 ar9331 ?es node_up = Inr n'" "node_serves n'"
    "unlock_abs (signals n') = proto_run (uint (par_T (signals node_up))) True
      (concat (map (proto_events (par_Delta (signals node_up))) ?es)) (unlock_abs (signals node_up))"
    using node_refines [OF dev0_frames(1,2) node_up_serves, of ar9331 ?es] by blast
  show ?thesis by (rule exI [of _ n'], intro conjI) (rule n'(1), rule n'(2), simp only: n'(3) p)
qed

text \<open>
  C14: A network of whole nodes floods a signal once. While the nodes hear signals within half a
  period only and none times out, and their drivers and users do what they like, no node faults
  and each relays at most once.
\<close>

theorem city_relays_once:
  fixes N :: "'i \<Rightarrow> node_sys"
  assumes "\<And>i. frames (D i) ps_usecount" "\<And>i. frames (D i) softc.txbuf_fff" "\<And>i. node_serves (N i)"
    and "\<And>i. (i, Fire) \<notin> set es"
    and "\<And>i I. (i, node_event.Signal I) \<in> set es \<Longrightarrow> t0 \<le> timespec_ns (in_now I) \<and>
      timespec_ns (in_now I) < t0 + uint (par_T (signals (N i))) * 500"
  shows "\<exists>N'. city_run D K es N = Inr N' \<and> (\<forall>i. node_serves (N' i) \<and>
    pulses (utrace (signals (N' i))) \<le> pulses (utrace (signals (N i))) + 1)"
proof -
  obtain N' where N': "city_run D K es N = Inr N'"
    "\<And>i. node_run (D i) K (events_at i es) (N i) = Inr (N' i)"
    using city_local [of D N K es] assms(1-3) by blast
  have "node_serves (N' i) \<and> pulses (utrace (signals (N' i))) \<le> pulses (utrace (signals (N i))) + 1" for i
  proof -
    let ?ps = "concat (map (proto_events (par_Delta (signals (N i)))) (events_at i es))"
    let ?T = "uint (par_T (signals (N i)))"
    have r: "node_serves (N' i)" "unlock_abs (signals (N' i)) = proto_run ?T True ?ps (unlock_abs (signals (N i)))"
      using node_run_refines [OF assms(1) [of i] assms(2) [of i] assms(3) [of i], of K "events_at i es"] N'(2) [of i] by auto
    have "in_burst ?T t0 p" if "(i, e) \<in> set es" "p \<in> set (proto_events (par_Delta (signals (N i))) e)" for e p
      using that assms(4) [of i] assms(5) [of i] by (cases e) (auto simp: in_burst_def)
    then have "p_pulses (proto_run ?T True ?ps (unlock_abs (signals (N i)))) \<le> p_pulses (unlock_abs (signals (N i))) + 1"
      by (intro burst_once [of _ _ t0]) (auto simp: events_at_def)
    then have "p_pulses (unlock_abs (signals (N' i))) \<le> p_pulses (unlock_abs (signals (N i))) + 1" by (simp only: r(2))
    then show ?thesis using r(1) by (simp add: unlock_abs_def)
  qed
  then show ?thesis using N'(1) by blast
qed

theorem city_relays_once_witness:
  "\<exists>N'. city_run (\<lambda>_. dev0) ar9331 [(0 :: nat, node_event.Signal (signal_at 12000000)), (1, Drive Ev_isr), (1, node_event.Signal (signal_at 12001000)),
       (0, node_event.Signal (signal_at 12002000)), (0, Open)] (\<lambda>_. node_up) = Inr N' \<and>
     pulses (utrace (signals (N' 0))) \<le> pulses (utrace (signals node_up)) + 1"
proof -
  have t: "par_T (signals node_up) = 20000" by (simp add: node_up_def)
  let ?es = "[(0 :: nat, node_event.Signal (signal_at 12000000)), (1, Drive Ev_isr), (1, node_event.Signal (signal_at 12001000)),
       (0, node_event.Signal (signal_at 12002000)), (0, Open)]"
  have "\<exists>N'. city_run (\<lambda>_. dev0) ar9331 ?es (\<lambda>_. node_up) = Inr N' \<and> (\<forall>i. node_serves (N' i) \<and>
      pulses (utrace (signals (N' i))) \<le> pulses (utrace (signals node_up)) + 1)"
    by (rule city_relays_once [of _ _ _ 12000000]) (use dev0_frames(1,2) node_up_serves t in \<open>auto simp: signal_at_def\<close>)
  then show ?thesis by blast
qed

end
