(* ===== verification/Node_Traffic.thy ===== *)
theory Node_Traffic
  imports Node_System Packetspammer
begin

text \<open>
  The traffic generator on a node: between two frames \<open>packetspammer\<close> reads the character device,
  whose counter the unlock module's handlers set from the driver's list of buffers, and sleeps
  accordingly.
\<close>

section \<open>One round of the generator on a node\<close>

text \<open>The generator's \<open>read\<close> of the device and the round that follows a successful injection.\<close>

definition paced_round :: "config \<Rightarrow> node_sys \<Rightarrow> spam \<Rightarrow> int \<times> spam + spam" where
  "paced_round c n s =
     (let (r, user) = res (dev_read [0, 0, 0, 0] 4 0) (counts n)
      in spam_round c (send_length c, be_word user) s)"

lemma paced_round_sleeps:
  assumes "sent s + 1 \<noteq> count c"
  shows "\<exists>s'. paced_round c n s = Inr s' \<and> spam.frames s' = spam.frames s + 1 \<and>
    (let w = wait_us (chrdev.buf_counter (counts n)) in sleeps s' = (if w \<noteq> 0 then w # sleeps s else sleeps s))"
  using assms by (auto simp: paced_round_def dev_read_ok be_word_bytes spam_round_def Let_def)

section \<open>Properties\<close>

text \<open>
  C10: What paces the generator. After a transmission and a signal, the generator on the node sends a
  frame and pauses a hundred microseconds for each buffer that the driver's list lacks to eighty, the
  number that bring-up asks for; with more buffers than that the pause would wrap to more than an hour.
\<close>

theorem node_paces_generator:
  assumes "Ath_Locks.frames D ps_usecount" "Ath_Locks.frames D softc.txbuf_fff" "node_idle n"
    and "sent s + 1 \<noteq> count c" "length (txbuf (exec (ath9k_tx D f) (radio n))) \<le> 1000"
  shows "\<exists>n' s'. node_run D K [Drive (Iface_op (Op_tx f)), Signal I] n = Inr n' \<and> paced_round c n' s = Inr s' \<and>
    (let b = length (txbuf (exec (ath9k_tx D f) (radio n)))
     in map unat (sleeps s') = (if b < 80 then [100 * (80 - b)] else if b = 80 then [] else [2 ^ 32 - 100 * (b - 80)]) @
          map unat (sleeps s))"
proof -
  from first_frame [OF assms(1-3)] obtain n1 where
    n1: "node_step D K (Drive (Iface_op (Op_tx f))) n = Inr n1" "node_ok n1"
    "radio n1 = exec (ath9k_tx D f) (radio n)" by blast
  from signal_windows [OF n1(2), of D K I] obtain n' where
    n': "node_step D K (Signal I) n1 = Inr n'"
      "chrdev.buf_counter (counts n') = of_nat (length (txbuf (radio n1)))" by blast
  define b where "b = length (txbuf (radio n1))"
  have le: "b \<le> 1000" using assms(5) n1(3) by (simp add: b_def)
  then have u: "unat (of_nat b :: u32) = b" by (simp add: unat_of_nat take_bit_nat_def)
  have w: "unat (wait_us (of_nat b)) = (if b \<le> 80 then 100 * (80 - b) else 2 ^ 32 - 100 * (b - 80))"
    using pause_length [of "of_nat b"] le unfolding u by simp
  have z: "wait_us (of_nat b) = 0 \<longleftrightarrow> b = 80"
    using w le by (auto simp: unat_eq_zero [symmetric] split: if_splits)
  from paced_round_sleeps [OF assms(4), of n'] obtain s' where
    s': "paced_round c n' s = Inr s'"
      "sleeps s' = (if wait_us (of_nat b) \<noteq> 0 then wait_us (of_nat b) # sleeps s else sleeps s)"
    using n'(2) by (auto simp: Let_def b_def)
  have "node_run D K [Drive (Iface_op (Op_tx f)), Signal I] n = Inr n'" using n1(1) n'(1) by simp
  moreover have "map unat (sleeps s') = (if b < 80 then [100 * (80 - b)] else if b = 80 then [] else [2 ^ 32 - 100 * (b - 80)]) @
      map unat (sleeps s)"
    using s'(2) z w by auto
  ultimately show ?thesis using s'(1) unfolding Let_def n1(3) [symmetric] b_def by blast
qed

theorem node_paces_generator_witness:
  "\<exists>n' s'. node_run dev0 ar9331 [Drive (Iface_op (Op_tx frame0)), Signal (signal_at 15000000)] node_start = Inr n' \<and>
     paced_round config0 n' spam0 = Inr s' \<and> map unat (sleeps s') = [3500]"
proof -
  have w: "txbuf (exec (ath9k_tx dev0 frame0) (radio node_start)) = replicate 45 0"
    using dev0_frames(3)
    by (simp add: node_start_def ath9k_tx_def Let_def softc0_def tx_exit_def only_if_def world0_def wake_for_tx_def)
  have l: "length (txbuf (exec (ath9k_tx dev0 frame0) (radio node_start))) \<le> 1000" unfolding w by simp
  have "sent spam0 + 1 \<noteq> count config0" by (simp add: spam0_def config0_def)
  from node_paces_generator [OF dev0_frames(1,2) node_start_idle(1) this l, of ar9331 "signal_at 15000000"]
  show ?thesis unfolding w by (simp add: spam0_def)
qed

end
