(* ===== verification/Dump.thy ===== *)
theory Dump
  imports Packetspammer Char_Device
begin

text \<open>
  The hexadecimal dump of \<open>packetspammer.c\<close>, with its three buffers on the stack: \<open>sz\<close> for the
  digits of a line, \<open>szChar\<close> for its characters and \<open>szBuf\<close> for what is not printed yet. Strings are
  lists of bytes without the final zero, for which the bounds leave a place. A write past a
  buffer and a read of a buffer never written are faults.
\<close>

section \<open>\<open>Dump\<close>\<close>

datatype dump_fault = Overrun | Uninitialised

record dump =
  sz :: "u8 list option"        \<comment> \<open>\<open>None\<close>: not written yet\<close>
  szChar :: "u8 list"
  szBuf :: "u8 list"            \<comment> \<open>up to \<open>buf\<close>\<close>
  baaLast :: "u32 \<Rightarrow> u32 \<Rightarrow> u8"
  fFirst :: bool
  nPos :: nat
  nStart :: u32
  nLine :: u32
  nSameCount :: u32
  printed :: "u8 list"

definition hex_upper :: "u8 \<Rightarrow> u8" where
  "hex_upper x = (if x < 10 then 48 + x else 55 + x)"

text \<open>
  \<open>%02X\<close> and a blank, \<open>%04x\<close>, and the text of a repetition; no packet repeats \<open>2 ^ 31\<close> lines, so
  \<open>%d\<close> never shows a sign.
\<close>

definition hex_byte :: "u8 \<Rightarrow> u8 list" where
  "hex_byte b = [hex_upper (b div 16), hex_upper (b mod 16), 32]"

fun hex_nat :: "nat \<Rightarrow> u8 list" where
  "hex_nat n = (if n < 16 then [hex_char (of_nat n)] else hex_nat (n div 16) @ [hex_char (of_nat (n mod 16))])"

declare hex_nat.simps [simp del]

definition hex_word :: "u32 \<Rightarrow> u8 list" where
  "hex_word w = (let h = hex_nat (unat w) in replicate (4 - length h) 48 @ h)"

definition repeated :: "u32 \<Rightarrow> u8 list" where
  "repeated n = [40, 114, 101, 112, 101, 97, 116, 101, 100, 32] @ decimal (unat n) @ [32, 116, 105, 109, 101, 115, 41, 10]"

definition printable :: "u8 \<Rightarrow> u8" where
  "printable b = (if b < 32 \<or> b \<ge> 0x7f then 46 else b)"

text \<open>\<open>buf += sprintf(buf, \<dots>)\<close>\<close>

definition to_buf :: "u8 list \<Rightarrow> dump \<Rightarrow> dump_fault + dump" where
  "to_buf txt d = (if length (szBuf d) + length txt + 1 > 512 then Inl Overrun else Inr (d\<lparr>szBuf := szBuf d @ txt\<rparr>))"

definition dump_char :: "u32 \<Rightarrow> u8 \<Rightarrow> dump \<Rightarrow> dump_fault + dump" where
  "dump_char n b d =
     (let d = d\<lparr>baaLast := (baaLast d)((nLine d AND 1) XOR 1 := (baaLast d ((nLine d AND 1) XOR 1))(n AND 0xf := b))\<rparr>;
          k = unat (n AND 0xf)
      in if k + 1 \<ge> 17 then Inl Overrun
         else let d = d\<lparr>szChar := take k (szChar d) @ [printable b]\<rparr>;
                  txt = hex_byte (baaLast d ((nLine d AND 1) XOR 1) (n AND 0xf))
              in if nPos d + length txt + 1 > 256 then Inl Overrun
                 else Inr (d\<lparr>sz := Some ((case sz d of None \<Rightarrow> [] | Some t \<Rightarrow> take (nPos d) t) @ txt),
                   nPos := nPos d + length txt\<rparr>))"

definition flush_same :: "dump \<Rightarrow> dump_fault + dump" where
  "flush_same d = (if nSameCount d \<noteq> 0 then to_buf (repeated (nSameCount d)) d else Inr d)"

definition dump_line :: "u32 \<Rightarrow> dump \<Rightarrow> dump_fault + dump" where
  "dump_line n d =
     (let same = (map (\<lambda>i. baaLast d 0 (of_nat i)) [0..<16] = map (\<lambda>i. baaLast d 1 (of_nat i)) [0..<16]);
          r = (if same \<and> \<not> fFirst d then Inr (d\<lparr>nSameCount := nSameCount d + 1\<rparr>)
               else case flush_same d of
                 Inl e \<Rightarrow> Inl e
               | Inr d \<Rightarrow>
                   (case sz d of
                      None \<Rightarrow> Inl Uninitialised
                    | Some t \<Rightarrow>
                        (case to_buf (hex_word (nStart d) @ [58, 32] @ t @ [32] @ szChar d @ [10]) d of
                           Inl e \<Rightarrow> Inl e
                         | Inr d \<Rightarrow> Inr (d\<lparr>nSameCount := 0, printed := printed d @ szBuf d, szBuf := []\<rparr>))))
      in case r of
           Inl e \<Rightarrow> Inl e
         | Inr d \<Rightarrow> Inr (d\<lparr>nPos := 0, nStart := n + 1, nLine := nLine d + 1, fFirst := False, sz := Some [], szChar := []\<rparr>))"

fun dump_loop :: "u8 list \<Rightarrow> u32 \<Rightarrow> dump \<Rightarrow> dump_fault + dump" where
  "dump_loop [] n d = Inr d"
| "dump_loop (b # bs) n d =
     (case dump_char n b d of
        Inl e \<Rightarrow> Inl e
      | Inr d \<Rightarrow>
          if n AND 15 \<noteq> 15 then dump_loop bs (n + 1) d
          else case dump_line n d of Inl e \<Rightarrow> Inl e | Inr d \<Rightarrow> dump_loop bs (n + 1) d)"

text \<open>Behind the loop; the inner loop writes three blanks for each byte the last line lacks.\<close>

definition dump_end :: "u32 \<Rightarrow> dump \<Rightarrow> dump_fault + dump" where
  "dump_end n d =
     (case flush_same d of
        Inl e \<Rightarrow> Inl e
      | Inr d \<Rightarrow>
          (case sz d of
             None \<Rightarrow> Inl Uninitialised
           | Some t \<Rightarrow>
               (case to_buf (hex_word (nStart d) @ [58, 32] @ t) d of
                  Inl e \<Rightarrow> Inl e
                | Inr d \<Rightarrow>
                    (let k = unat (n AND 0xf);
                         blanks = (if k = 0 then [] else 32 # replicate (3 * (16 - k)) 32)
                     in case to_buf blanks d of
                          Inl e \<Rightarrow> Inl e
                        | Inr d \<Rightarrow>
                            (case to_buf (szChar d @ [10]) d of
                               Inl e \<Rightarrow> Inl e
                             | Inr d \<Rightarrow> Inr (d\<lparr>printed := printed d @ szBuf d\<rparr>))))))"

text \<open>The two rows of \<open>baaLast\<close> hold \<open>junk\<close> at first.\<close>

definition dump_start :: "(u32 \<Rightarrow> u32 \<Rightarrow> u8) \<Rightarrow> dump" where
  "dump_start junk = \<lparr>sz = None, szChar = [], szBuf = [], baaLast = junk, fFirst = True, nPos = 0, nStart = 0,
     nLine = 0, nSameCount = 0, printed = []\<rparr>"

definition Dump :: "(u32 \<Rightarrow> u32 \<Rightarrow> u8) \<Rightarrow> u8 list \<Rightarrow> dump_fault + u8 list" where
  "Dump junk bs =
     (case dump_loop bs 0 (dump_start junk) of
        Inl e \<Rightarrow> Inl e
      | Inr d \<Rightarrow> map_sum id printed (dump_end (of_nat (length bs)) d))"

section \<open>What the buffers hold\<close>

text \<open>Bytes of text: the printable characters of ASCII and the end of a line.\<close>

definition is_text :: "u8 \<Rightarrow> bool" where
  "is_text b \<longleftrightarrow> 32 \<le> b \<and> b < 127 \<or> b = 10"

abbreviation all_text :: "u8 list \<Rightarrow> bool" where
  "all_text bs \<equiv> \<forall>b \<in> set bs. is_text b"

lemma small_byte: "x < 16 \<Longrightarrow> is_text (hex_upper x) \<and> is_text (hex_char x)" for x :: u8
proof -
  assume "x < 16"
  then have "unat x < 16" by (simp add: word_less_nat_alt)
  then have "unat x \<in> set [0..<16]" by simp
  then have "x \<in> word_of_nat ` set [0..<16]" using image_eqI [of x word_of_nat "unat x"] by simp
  then show ?thesis
    by (auto simp: upt_rec is_text_def hex_upper_def hex_char_def)
qed

lemma hex_byte_text: "all_text (hex_byte b) \<and> length (hex_byte b) = 3"
proof -
  have "b div 16 < 16" "b mod 16 < 16"
    using unat_bound [of b] by (simp_all add: word_less_nat_alt unat_div unat_mod less_mult_imp_div_less)
  then show ?thesis using small_byte by (simp add: hex_byte_def is_text_def)
qed

lemma hex_nat_text: "all_text (hex_nat n)"
proof (induction n rule: hex_nat.induct)
  case (1 n)
  have "(of_nat (n mod 16) :: u8) < 16" "n < 16 \<Longrightarrow> (of_nat n :: u8) < 16"
    by (simp_all add: word_less_nat_alt unat_of_nat)
  then show ?case using 1 small_byte by (subst hex_nat.simps) auto
qed

lemma hex_nat_length: "n < 16 ^ k \<Longrightarrow> 0 < k \<Longrightarrow> length (hex_nat n) \<le> k"
proof (induction k arbitrary: n)
  case (Suc k)
  then show ?case by (cases k; subst hex_nat.simps) (auto simp: less_mult_imp_div_less)
qed simp

lemma decimal_length: "n < 10 ^ k \<Longrightarrow> 0 < k \<Longrightarrow> length (decimal n) \<le> k"
proof (induction k arbitrary: n)
  case (Suc k)
  then show ?case by (cases k; subst decimal.simps) (auto simp: less_mult_imp_div_less)
qed simp

lemma decimal_text: "all_text (decimal n)"
proof (induction n rule: decimal.induct)
  case (1 n)
  have d: "is_text (48 + of_nat m)" if "m < 10" for m
  proof -
    have "m \<in> set [0..<10]" using that by simp
    then show ?thesis by (auto simp: upt_rec is_text_def)
  qed
  then show ?case using 1 by (subst decimal.simps) auto
qed

lemma hex_word_text: "all_text (hex_word w) \<and> length (hex_word w) \<le> 8"
proof -
  have "unat w < 16 ^ 8" using unat_bound [of w] by simp
  then show ?thesis using hex_nat_text hex_nat_length [of "unat w" 8]
    by (auto simp: hex_word_def Let_def is_text_def)
qed

lemma repeated_text: "all_text (repeated n) \<and> length (repeated n) \<le> 28"
proof -
  have "unat n < 10 ^ 10" using unat_bound [of n] by simp
  then show ?thesis using decimal_text decimal_length [of "unat n" 10]
    by (auto simp: repeated_def is_text_def)
qed

lemma printable_text: "is_text (printable b)"
  by (auto simp: printable_def is_text_def not_le not_less)

text \<open>
  The type of the state between two bytes, \<open>k\<close> of them in the current line: nothing waits to be
  printed, the line's digits and characters are as long as they should be, and all is text.
\<close>

definition dump_typed :: "nat \<Rightarrow> dump \<Rightarrow> bool" where
  "dump_typed k d \<longleftrightarrow> szBuf d = [] \<and> nPos d = 3 * k \<and> length (szChar d) = k \<and> all_text (szChar d) \<and>
     all_text (printed d) \<and>
     (case sz d of None \<Rightarrow> k = 0 | Some t \<Rightarrow> length t = 3 * k \<and> all_text t)"

lemma low_nibble: "unat (n AND 0xf) = unat n mod 16" for n :: u32
proof -
  have "n AND 0xf = take_bit 4 n" unfolding take_bit_eq_mask by (simp add: mask_eq_exp_minus_1)
  then show ?thesis by (simp only: unsigned_take_bit_eq) (simp add: take_bit_nat_def)
qed

lemma nibble_full: "n AND 15 = 15 \<longleftrightarrow> unat n mod 16 = 15" for n :: u32
  unfolding word_unat_eq_iff low_nibble by simp

lemma dump_char_typed:
  assumes "dump_typed (unat n mod 16) d"
  shows "\<exists>d'. dump_char n b d = Inr d' \<and> dump_typed (unat n mod 16 + 1) d' \<and> sz d' \<noteq> None \<and>
    nSameCount d' = nSameCount d"
proof -
  let ?k = "unat n mod 16"
  have k: "?k \<le> 15" using mod_less_divisor [of 16 "unat n"] by linarith
  show ?thesis
    using assms k hex_byte_text [of b] printable_text [of b]
    by (cases "sz d") (auto simp: dump_char_def Let_def low_nibble dump_typed_def)
qed

lemma to_buf_fits: "length (szBuf d) + length txt < 512 \<Longrightarrow> to_buf txt d = Inr (d\<lparr>szBuf := szBuf d @ txt\<rparr>)"
  by (simp add: to_buf_def)

lemma flush_same_typed:
  assumes "szBuf d = []"
  shows "\<exists>txt. flush_same d = Inr (d\<lparr>szBuf := txt\<rparr>) \<and> all_text txt \<and> length txt \<le> 28"
  using assms repeated_text [of "nSameCount d"]
  by (cases "nSameCount d = 0") (auto simp: flush_same_def to_buf_fits intro: exI [of _ "[]"])

lemma dump_line_typed:
  assumes "dump_typed 16 d" "sz d \<noteq> None"
  shows "\<exists>d'. dump_line n d = Inr d' \<and> dump_typed 0 d' \<and> sz d' \<noteq> None"
proof -
  obtain t where t: "sz d = Some t" using assms(2) by auto
  obtain pre where f: "flush_same d = Inr (d\<lparr>szBuf := pre\<rparr>)" "all_text pre" "length pre \<le> 28"
    using flush_same_typed [of d] assms(1) by (auto simp: dump_typed_def)
  let ?l = "hex_word (nStart d) @ [58, 32] @ t @ [32] @ szChar d @ [10]"
  have l: "all_text ?l" "length ?l \<le> 76"
    using hex_word_text [of "nStart d"] assms(1) t by (auto simp: dump_typed_def is_text_def)
  have b: "to_buf ?l (d\<lparr>szBuf := pre\<rparr>) = Inr (d\<lparr>szBuf := pre @ ?l\<rparr>)"
    using f(3) l(2) by (simp add: to_buf_fits)
  have "all_text (printed d)" "all_text (pre @ ?l)" using assms(1) f(2) l(1) by (auto simp: dump_typed_def)
  then show ?thesis using t f(1) b assms(1) by (auto simp: dump_line_def Let_def dump_typed_def)
qed

lemma dump_step_typed:
  assumes "dump_typed (unat n mod 16) d" "unat n + 1 < 2 ^ 32"
  shows "\<exists>d'. (case dump_char n b d of Inl e \<Rightarrow> Inl e
      | Inr d \<Rightarrow> if n AND 15 \<noteq> 15 then Inr d else dump_line n d) = Inr d' \<and>
    dump_typed (unat (n + 1) mod 16) d' \<and> sz d' \<noteq> None"
proof -
  obtain d1 where d1: "dump_char n b d = Inr d1" "dump_typed (unat n mod 16 + 1) d1" "sz d1 \<noteq> None"
    using dump_char_typed [OF assms(1), of b] by blast
  have n1: "unat (n + 1) = unat n + 1" using assms(2) unat_add_small [of n 1] by simp
  show ?thesis
  proof (cases "unat n mod 16 = 15")
    case True
    have t16: "dump_typed 16 d1" using d1(2) by (simp add: True)
    obtain d2 where d2: "dump_line n d1 = Inr d2" "dump_typed 0 d2" "sz d2 \<noteq> None"
      using dump_line_typed [OF t16 d1(3), of n] by blast
    have "(unat n + 1) mod 16 = 0" using True by (simp add: mod_Suc)
    then show ?thesis using True d1 d2 nibble_full [of n] n1 by simp
  next
    case False
    have "(unat n + 1) mod 16 = unat n mod 16 + 1" using False by (simp add: mod_Suc)
    then show ?thesis using False d1 nibble_full [of n] n1 by simp
  qed
qed

lemma dump_loop_step:
  "dump_loop (b # bs) n d =
     (case (case dump_char n b d of Inl e \<Rightarrow> Inl e | Inr d \<Rightarrow> if n AND 15 \<noteq> 15 then Inr d else dump_line n d) of
        Inl e \<Rightarrow> Inl e | Inr d \<Rightarrow> dump_loop bs (n + 1) d)"
  by (simp split: sum.split)

lemma dump_loop_typed:
  assumes "dump_typed (unat n mod 16) d" "unat n + length bs < 2 ^ 32" "bs \<noteq> [] \<or> sz d \<noteq> None"
  shows "\<exists>d'. dump_loop bs n d = Inr d' \<and> dump_typed ((unat n + length bs) mod 16) d' \<and> sz d' \<noteq> None"
  using assms
proof (induction bs arbitrary: n d)
  case (Cons b bs)
  have n: "unat n + 1 < 2 ^ 32" using Cons.prems(2) by simp
  obtain d1 where d1: "(case dump_char n b d of Inl e \<Rightarrow> Inl e
      | Inr d \<Rightarrow> if n AND 15 \<noteq> 15 then Inr d else dump_line n d) = Inr d1"
    "dump_typed (unat (n + 1) mod 16) d1" "sz d1 \<noteq> None"
    using dump_step_typed [OF Cons.prems(1) n, of b] by blast
  have n1: "unat (n + 1) = unat n + 1" using n unat_add_small [of n 1] by simp
  have "unat (n + 1) + length bs < 2 ^ 32" using Cons.prems(2) n1 by simp
  from Cons.IH [OF d1(2) this] d1(3) show ?case by (simp add: dump_loop_step d1(1) n1 del: dump_loop.simps)
qed auto

lemma dump_end_typed:
  assumes "dump_typed (unat n mod 16) d" "sz d \<noteq> None"
  shows "\<exists>d'. dump_end n d = Inr d' \<and> all_text (printed d')"
proof -
  obtain t where t: "sz d = Some t" using assms(2) by auto
  obtain pre where f: "flush_same d = Inr (d\<lparr>szBuf := pre\<rparr>)" "all_text pre" "length pre \<le> 28"
    using flush_same_typed [of d] assms(1) by (auto simp: dump_typed_def)
  let ?k = "unat n mod 16"
  have k: "?k \<le> 15" using mod_less_divisor [of 16 "unat n"] by linarith
  define l where "l = hex_word (nStart d) @ [58, 32] @ t"
  define blanks :: "u8 list" where "blanks = (if ?k = 0 then [] else 32 # replicate (3 * (16 - ?k)) 32)"
  have l: "all_text l" "length l \<le> 55"
    using hex_word_text [of "nStart d"] assms(1) t k by (auto simp: dump_typed_def is_text_def l_def)
  have b: "all_text blanks" "length blanks \<le> 49" by (auto simp: blanks_def is_text_def)
  have c: "length (szChar d) \<le> 15" "all_text (szChar d)" using assms(1) k by (auto simp: dump_typed_def)
  have w: "to_buf l (d\<lparr>szBuf := pre\<rparr>) = Inr (d\<lparr>szBuf := pre @ l\<rparr>)"
    "to_buf blanks (d\<lparr>szBuf := pre @ l\<rparr>) = Inr (d\<lparr>szBuf := pre @ l @ blanks\<rparr>)"
    "to_buf (szChar d @ [10]) (d\<lparr>szBuf := pre @ l @ blanks\<rparr>) = Inr (d\<lparr>szBuf := pre @ l @ blanks @ szChar d @ [10]\<rparr>)"
    using f(3) l(2) b(2) c(1) by (simp_all add: to_buf_fits)
  have sz': "sz (d\<lparr>szBuf := pre\<rparr>) = Some t" using t by simp
  have l': "hex_word (nStart (d\<lparr>szBuf := pre\<rparr>)) @ [58, 32] @ t = l" by (simp add: l_def)
  have "dump_end n d = Inr (d\<lparr>szBuf := pre @ l @ blanks @ szChar d @ [10],
      printed := printed d @ pre @ l @ blanks @ szChar d @ [10]\<rparr>)"
    unfolding dump_end_def Let_def low_nibble
    by (simp only: f(1) sum.case sz' l' option.case blanks_def [symmetric]) (simp add: w)
  moreover have "all_text (printed d)" using assms(1) by (simp add: dump_typed_def)
  ultimately show ?thesis using f(2) l(1) b(1) c(2) by (auto simp: is_text_def)
qed

section \<open>Properties\<close>

text \<open>
  C26: The dump is well typed. For every packet with at least one byte it stays inside its three
  buffers, reads none of them before it is written, and prints nothing but printable characters
  and ends of lines. For an empty packet it prints a buffer it has never written.
\<close>

theorem dump_prints_text:
  assumes "length bs < 2 ^ 31"
  shows "if bs = [] then Dump junk bs = Inl Uninitialised
    else \<exists>out. Dump junk bs = Inr out \<and> (\<forall>b \<in> set out. 32 \<le> b \<and> b < 127 \<or> b = 10)"
proof (cases "bs = []")
  case True
  then show ?thesis by (simp add: Dump_def dump_start_def dump_end_def flush_same_def)
next
  case False
  have s: "dump_typed (unat (0 :: u32) mod 16) (dump_start junk)" by (simp add: dump_typed_def dump_start_def)
  have u: "unat (of_nat (length bs) :: u32) = length bs" using assms by (simp add: unat_of_nat take_bit_nat_def)
  obtain d where d: "dump_loop bs 0 (dump_start junk) = Inr d" "dump_typed (length bs mod 16) d" "sz d \<noteq> None"
    using dump_loop_typed [OF s, of bs] False assms by auto
  have "dump_typed (unat (of_nat (length bs) :: u32) mod 16) d" using d(2) by (simp add: u)
  from dump_end_typed [OF this d(3)] obtain d' where
    "dump_end (of_nat (length bs)) d = Inr d'" "all_text (printed d')" by blast
  then show ?thesis using False d(1) by (auto simp: Dump_def is_text_def)
qed

theorem dump_prints_text_witness:
  "\<exists>out. Dump (\<lambda>_ _. 0) (replicate 40 65) = Inr out \<and> list_all is_text out"
  using dump_prints_text [of "replicate 40 65" "\<lambda>_ _. 0"] by (auto simp: list_all_iff is_text_def)

end
