(* ===== verification/Ath_Intr.thy ===== *)
theory Ath_Intr
  imports Ath_Ops
begin

text \<open>
  The interrupt protocol of \<open>ath9k/main.c\<close>: the handler turns the chip's interrupts off and
  schedules the tasklet, the tasklet turns them on again or leaves that to a reset, and a
  reference count tells whether they may be on. The functions that count and that switch the chip
  are in another file; what they promise is \<open>counts_interrupts\<close>. Handler, tasklet, reset work,
  channel change, start and stop are abstracted to what they do to a few fields; the protocol over
  these effects is \<open>Ath_Irq_Protocol\<close>.
\<close>

section \<open>What the protocol is about\<close>

text \<open>
  The count, the global bit of the mask, whether the chip's interrupts are on, the two operation
  flags that matter, and how often the reset work was queued and cancelled and the tasklet scheduled and killed.
\<close>

record irq_view =
  v_count :: int
  v_global :: u32
  v_on :: bool
  v_flags :: "op_flag set"
  v_queued :: nat
  v_cancelled :: nat
  v_scheduled :: nat
  v_killed :: nat

definition irq_view :: "device \<Rightarrow> (softc \<Rightarrow> bool) \<Rightarrow> softc \<Rightarrow> irq_view" where
  "irq_view D on s = \<lparr>v_count = intr_ref_cnt s, v_global = imask s AND INT_GLOBAL D, v_on = on s,
     v_flags = op_flags s \<inter> {OP_HW_RESET, OP_INVALID}, v_queued = calls (Work Queue_hw_reset_work) s,
     v_cancelled = calls (Work Cancel_hw_reset_work) s,
     v_scheduled = calls (Work Intr_tasklet_schedule) s, v_killed = calls (Work Intr_tasklet_kill) s\<rparr>"

text \<open>
  \<open>ath9k_hw_disable_interrupts\<close> counts down and turns off, or sets the count to \<open>-1\<close> when the
  global bit is clear; \<open>ath9k_hw_enable_interrupts\<close> does nothing when it is clear, else it
  counts up and turns on when the count reaches zero.
\<close>

definition view_disable :: "irq_view \<Rightarrow> irq_view" where
  "view_disable v = v\<lparr>v_count := (if v_global v = 0 then - 1 else v_count v - 1), v_on := False\<rparr>"

definition view_enable :: "irq_view \<Rightarrow> irq_view" where
  "view_enable v = (if v_global v = 0 then v
     else v\<lparr>v_count := v_count v + 1, v_on := (v_on v \<or> v_count v = - 1)\<rparr>)"

text \<open>\<open>ath9k_hw_set_interrupts\<close> disables them when the global bit is clear.\<close>

definition view_park :: "irq_view \<Rightarrow> irq_view" where
  "view_park v = (if v_global v = 0 then view_disable v else v)"

definition view_queue :: "irq_view \<Rightarrow> irq_view" where
  "view_queue v = v\<lparr>v_flags := insert OP_HW_RESET (v_flags v), v_queued := v_queued v + 1\<rparr>"

text \<open>
  \<open>on\<close> reads registers of the chip that no other function of another file writes; EIFS, which the
  driver itself writes, is none of them. The global bit shares no bit with the others that the
  driver masks.
\<close>

definition switching :: "call set" where
  "switching = {Irq Hw_disable_interrupts, Irq Hw_enable_interrupts, Irq Hw_set_interrupts, Irq Hw_kill_interrupts}"

definition counts_interrupts :: "device \<Rightarrow> (softc \<Rightarrow> bool) \<Rightarrow> bool" where
  "counts_interrupts D on \<longleftrightarrow>
     INT_GLOBAL D \<noteq> 0 \<and> INT_GLOBAL D AND (INT_RXEOL D OR INT_RXORN D) = 0 \<and>
     INT_GLOBAL D AND INT_TIM_TIMER D = 0 \<and> INT_GLOBAL D AND INT_TSFOOR D = 0 \<and>
     (\<forall>s t. (\<forall>r. r \<noteq> AR_D_GBL_IFS_EIFS (chip_regs D) \<longrightarrow> mem s r = mem t r) \<longrightarrow> on s = on t) \<and>
     (\<forall>c s. let s' = snd (world D c s); v = irq_view D on s; v' = irq_view D on (s'\<lparr>trace := trace s\<rparr>)
       in (c \<notin> switching \<longrightarrow> v' = v) \<and> (c = Irq Hw_disable_interrupts \<longrightarrow> v' = view_disable v) \<and>
          (c = Irq Hw_enable_interrupts \<longrightarrow> v' = view_enable v) \<and> (c = Irq Hw_set_interrupts \<longrightarrow> v' = view_park v) \<and>
          (c = Irq Hw_kill_interrupts \<longrightarrow> v' = v\<lparr>v_on := False\<rparr>))"

text \<open>Calls that change the view: those four, and the four that are counted.\<close>

definition counted :: "call set" where
  "counted = {Work Queue_hw_reset_work, Work Cancel_hw_reset_work, Work Intr_tasklet_schedule, Work Intr_tasklet_kill}"

lemma counts_facts:
  assumes "counts_interrupts D on"
  shows "INT_GLOBAL D \<noteq> 0" "INT_GLOBAL D AND (INT_RXEOL D OR INT_RXORN D) = 0" "INT_GLOBAL D AND INT_TIM_TIMER D = 0"
    "mem s = mem t \<Longrightarrow> on s = on t" "INT_GLOBAL D AND INT_TSFOOR D = 0"
    "(\<And>r. r \<noteq> AR_D_GBL_IFS_EIFS (chip_regs D) \<Longrightarrow> mem s r = mem t r) \<Longrightarrow> on s = on t"
  using assms unfolding counts_interrupts_def by (blast, blast, blast, metis, blast, blast)

lemma view_trace:
  assumes "counts_interrupts D on"
  shows "irq_view D on (s\<lparr>trace := Lock e # trace s\<rparr>) = irq_view D on s"
  using counts_facts(4) [OF assms, of "s\<lparr>trace := Lock e # trace s\<rparr>" s] by (simp add: irq_view_def calls_def)

lemma view_call:
  assumes "counts_interrupts D on"
  shows "c \<notin> switching \<union> counted \<Longrightarrow> irq_view D on (exec (call D c) s) = irq_view D on s"
    "irq_view D on (exec (call D (Irq Hw_disable_interrupts)) s) = view_disable (irq_view D on s)"
    "irq_view D on (exec (call D (Irq Hw_enable_interrupts)) s) = view_enable (irq_view D on s)"
    "irq_view D on (exec (call D (Irq Hw_kill_interrupts)) s) = (irq_view D on s)\<lparr>v_on := False\<rparr>"
    "irq_view D on (exec (call D (Irq Hw_set_interrupts)) s) = view_park (irq_view D on s)"
    "irq_view D on (exec (call D (Work Queue_hw_reset_work)) s) = (irq_view D on s)\<lparr>v_queued := v_queued (irq_view D on s) + 1\<rparr>"
    "irq_view D on (exec (call D (Work Cancel_hw_reset_work)) s) = (irq_view D on s)\<lparr>v_cancelled := v_cancelled (irq_view D on s) + 1\<rparr>"
    "irq_view D on (exec (call D (Work Intr_tasklet_schedule)) s) = (irq_view D on s)\<lparr>v_scheduled := v_scheduled (irq_view D on s) + 1\<rparr>"
    "irq_view D on (exec (call D (Work Intr_tasklet_kill)) s) = (irq_view D on s)\<lparr>v_killed := v_killed (irq_view D on s) + 1\<rparr>"
proof -
  have m: "on (s'\<lparr>trace := t\<rparr>) = on s'" for s' t using counts_facts(4) [OF assms, of "s'\<lparr>trace := t\<rparr>" s'] by simp
  have w: "let s' = snd (world D c s); v = irq_view D on s; v' = irq_view D on (s'\<lparr>trace := trace s\<rparr>)
       in (c \<notin> switching \<longrightarrow> v' = v) \<and> (c = Irq Hw_disable_interrupts \<longrightarrow> v' = view_disable v) \<and>
          (c = Irq Hw_enable_interrupts \<longrightarrow> v' = view_enable v) \<and> (c = Irq Hw_set_interrupts \<longrightarrow> v' = view_park v) \<and>
          (c = Irq Hw_kill_interrupts \<longrightarrow> v' = v\<lparr>v_on := False\<rparr>)" for c
    using assms unfolding counts_interrupts_def by blast
  let ?add = "\<lambda>n c c'. if c = c' then n + 1 else n :: nat"
  have e: "irq_view D on (exec (call D c) s) =
      (let v = irq_view D on ((snd (world D c s))\<lparr>trace := trace s\<rparr>)
       in v\<lparr>v_queued := ?add (v_queued v) c (Work Queue_hw_reset_work), v_cancelled := ?add (v_cancelled v) c (Work Cancel_hw_reset_work),
         v_scheduled := ?add (v_scheduled v) c (Work Intr_tasklet_schedule), v_killed := ?add (v_killed v) c (Work Intr_tasklet_kill)\<rparr>)" for c
    by (simp add: irq_view_def calls_def Let_def m)
  show "c \<notin> switching \<union> counted \<Longrightarrow> irq_view D on (exec (call D c) s) = irq_view D on s"
    using w [of c] by (simp only: e Let_def counted_def) simp
  show "irq_view D on (exec (call D (Irq Hw_disable_interrupts)) s) = view_disable (irq_view D on s)"
    "irq_view D on (exec (call D (Irq Hw_enable_interrupts)) s) = view_enable (irq_view D on s)"
    "irq_view D on (exec (call D (Irq Hw_kill_interrupts)) s) = (irq_view D on s)\<lparr>v_on := False\<rparr>"
    "irq_view D on (exec (call D (Irq Hw_set_interrupts)) s) = view_park (irq_view D on s)"
    "irq_view D on (exec (call D (Work Queue_hw_reset_work)) s) = (irq_view D on s)\<lparr>v_queued := v_queued (irq_view D on s) + 1\<rparr>"
    "irq_view D on (exec (call D (Work Cancel_hw_reset_work)) s) = (irq_view D on s)\<lparr>v_cancelled := v_cancelled (irq_view D on s) + 1\<rparr>"
    "irq_view D on (exec (call D (Work Intr_tasklet_schedule)) s) = (irq_view D on s)\<lparr>v_scheduled := v_scheduled (irq_view D on s) + 1\<rparr>"
    "irq_view D on (exec (call D (Work Intr_tasklet_kill)) s) = (irq_view D on s)\<lparr>v_killed := v_killed (irq_view D on s) + 1\<rparr>"
    using w unfolding e by (simp_all add: Let_def switching_def)
qed

section \<open>Parts that leave the view alone\<close>

lemma view_other:
  assumes "counts_interrupts D on" "mem s = mem t" "intr_ref_cnt s = intr_ref_cnt t" "imask s = imask t"
    "op_flags s = op_flags t" "trace s = trace t"
  shows "irq_view D on s = irq_view D on t"
  using counts_facts(4) [OF assms(1,2)] assms(3-6) by (simp add: irq_view_def calls_def)

text \<open>A handler that is still keeps the view, whatever the lamp \<open>on\<close> is.\<close>

definition still_for :: "device \<Rightarrow> (softc, 'a) state \<Rightarrow> bool" where
  "still_for D m \<longleftrightarrow> (\<forall>on. counts_interrupts D on \<longrightarrow> keeps (irq_view D on) m)"

named_theorems still_intros \<open>handlers that change nothing of the interrupt protocol\<close>

lemma stillD: "still_for D m \<Longrightarrow> counts_interrupts D on \<Longrightarrow> irq_view D on (exec m s) = irq_view D on s"
  by (simp add: still_for_def keeps_def)

lemma still_rules [still_intros]:
  "still_for D (State_Monad.return x)"
  "still_for D (gets g)"
  "still_for D m \<Longrightarrow> (\<And>x. still_for D (f x)) \<Longrightarrow> still_for D (State_Monad.bind m f)"
  "(b \<Longrightarrow> still_for D m) \<Longrightarrow> (\<not> b \<Longrightarrow> still_for D n) \<Longrightarrow> still_for D (if b then m else n)"
  "(b \<Longrightarrow> still_for D u) \<Longrightarrow> still_for D (only_if b u)"
  "(v = None \<Longrightarrow> still_for D m) \<Longrightarrow> (\<And>x. v = Some x \<Longrightarrow> still_for D (h x)) \<Longrightarrow>
   still_for D (case v of None \<Rightarrow> m | Some x \<Rightarrow> h x)"
  by (auto simp: still_for_def keeps_def split: option.split)

lemma still_call [still_intros]:
  "c \<notin> switching \<union> counted \<Longrightarrow> still_for D (call D c)"
  "c \<notin> switching \<union> counted \<Longrightarrow> still_for D (do_call D c)"
proof -
  assume c: "c \<notin> switching \<union> counted"
  then show "still_for D (call D c)" unfolding still_for_def keeps_def using view_call(1) by blast
  then show "still_for D (do_call D c)" unfolding do_call_def by (intro still_intros)
qed

lemma still_modify [still_intros]:
  "(\<And>s. mem (h s) = mem s) \<Longrightarrow> (\<And>s. intr_ref_cnt (h s) = intr_ref_cnt s) \<Longrightarrow> (\<And>s. imask (h s) = imask s) \<Longrightarrow>
   (\<And>s. op_flags (h s) = op_flags s) \<Longrightarrow> (\<And>s. trace (h s) = trace s) \<Longrightarrow> still_for D (modify h)"
  unfolding still_for_def keeps_def exec_simps by (intro allI impI view_other)

lemma view_with_lock:
  assumes "counts_interrupts D on"
  shows "irq_view D on (exec (with_lock l m) s) = irq_view D on (exec m (s\<lparr>trace := Lock (Acquire l) # trace s\<rparr>))"
  using view_trace [OF assms] by (simp add: with_lock_def)

lemma still_with_lock [still_intros]: "still_for D m \<Longrightarrow> still_for D (with_lock l m)"
  by (simp add: still_for_def keeps_def view_with_lock view_trace)

lemma still_for_each [still_intros]: "(\<And>x. still_for D (f x)) \<Longrightarrow> still_for D (for_each f xs)"
  by (induction xs) (auto intro: still_intros)

lemma still_spectral_case [still_intros]:
  "still_for D a \<Longrightarrow> still_for D b \<Longrightarrow> still_for D c \<Longrightarrow> still_for D d \<Longrightarrow> still_for D e \<Longrightarrow>
   still_for D (case m of SPECTRAL_DISABLED \<Rightarrow> a | SPECTRAL_BACKGROUND \<Rightarrow> b | SPECTRAL_CHANSCAN \<Rightarrow> c
     | SPECTRAL_MANUAL \<Rightarrow> d | SPECTRAL_other \<Rightarrow> e)"
  by (cases m) auto

lemma still_power [still_intros]:
  "still_for D (ath9k_ps_wakeup D)" "still_for D (ath9k_ps_restore D)" "still_for D (ath9k_setpower D mode)"
  unfolding ath9k_ps_wakeup_def ath9k_ps_restore_def ath9k_setpower_def
  by (intro still_intros; simp add: switching_def counted_def)+

lemma still_awake [still_intros]: "still_for D m \<Longrightarrow> still_for D (awake D m)"
  unfolding awake_def by (intro still_intros)

lemma still_work [still_intros]:
  "still_for D (ath_cancel_work_inner D)" "still_for D (ath_restart_work D)" "still_for D (set_sleeping n b)"
  "still_for D (ath9k_update_p2p_ps_timer D avp)" "still_for D (schedule_queue D i)" "still_for D (switch_survey pos)"
  "still_for D (ath9k_spectral_scan_config D mode)" "still_for D (check_tsfoor D status)"
  unfolding ath_cancel_work_inner_def ath_restart_work_def set_sleeping_def ath9k_update_p2p_ps_timer_def
    schedule_queue_def switch_survey_def ath9k_spectral_scan_config_def check_tsfoor_def Let_def
  by (intro still_intros; simp add: switching_def counted_def)+

lemma still_timer [still_intros]: "still_for D (ath9k_p2p_ps_timer D)" "still_for D (ath9k_spectral_scan_trigger D)"
  unfolding ath9k_p2p_ps_timer_def ath9k_spectral_scan_trigger_def Let_def
  by (intro still_intros; simp add: switching_def counted_def)+

lemma view_awake:
  assumes "counts_interrupts D on"
  shows "irq_view D on (exec (awake D m) s) = irq_view D on (exec m (exec (ath9k_ps_wakeup D) s))"
  using stillD [OF still_power(2) assms] by (simp add: awake_def)

section \<open>What the handlers do to the view\<close>

text \<open>The results of a reset: done, refused by the chip, or receiving not started again.\<close>

definition reset_done :: "irq_view \<Rightarrow> irq_view" where
  "reset_done v = view_enable ((view_disable v)\<lparr>v_flags := v_flags v - {OP_HW_RESET}\<rparr>)"

definition reset_refused :: "irq_view \<Rightarrow> irq_view" where
  "reset_refused v = view_queue (view_enable (view_disable v))"

definition receives :: "device \<Rightarrow> bool" where
  "receives D \<longleftrightarrow> (\<forall>s. fst (world D (Reset Startrecv) s) = 0)"

text \<open>A chip that takes a reset but whose receive logic does not start.\<close>

definition deaf :: "device \<Rightarrow> bool" where
  "deaf D \<longleftrightarrow> (\<forall>s. fst (world D (Reset Startrecv) s) \<noteq> 0) \<and>
     (\<forall>chan cal fast s. fst (world D (Reset (Hw_reset chan cal fast)) s) = 0)"

lemma deaf_receives: "deaf D \<Longrightarrow> \<not> receives D"
  by (auto simp: deaf_def receives_def)

lemma view_op:
  assumes "counts_interrupts D on" "f \<in> {OP_HW_RESET, OP_INVALID}"
  shows "irq_view D on (exec (set_op f) s) = (irq_view D on s)\<lparr>v_flags := insert f (v_flags (irq_view D on s))\<rparr>"
    "irq_view D on (exec (clear_op f) s) = (irq_view D on s)\<lparr>v_flags := v_flags (irq_view D on s) - {f}\<rparr>"
  using counts_facts(4) [OF assms(1), of "s\<lparr>op_flags := x\<rparr>" s for x] assms(2) by (auto simp: irq_view_def calls_def)

lemma still_op [still_intros]:
  assumes "f \<notin> {OP_HW_RESET, OP_INVALID}"
  shows "still_for D (set_op f)" "still_for D (clear_op f)"
proof -
  have "on (s\<lparr>op_flags := x\<rparr>) = on s" if "counts_interrupts D on" for on s x
    using counts_facts(4) [OF that, of "s\<lparr>op_flags := x\<rparr>" s] by simp
  then show "still_for D (set_op f)" "still_for D (clear_op f)"
    using assms by (auto simp: still_for_def keeps_def irq_view_def calls_def)
qed

lemma do_call_call: "exec (do_call D c) s = exec (call D c) s"
  by (simp add: do_call_def)

lemma view_queue_reset:
  assumes "counts_interrupts D on"
  shows "irq_view D on (exec (ath9k_queue_reset D type) s) = view_queue (irq_view D on s)"
  by (simp add: ath9k_queue_reset_def do_call_call view_call [OF assms] view_op [OF assms] view_queue_def del: exec_call exec_op)

lemma view_prepare:
  assumes "counts_interrupts D on"
  shows "irq_view D on (exec (ath_prepare_reset D) s) = view_disable (irq_view D on s)"
  using stillD [OF still_call(1) assms]
  by (simp add: ath_prepare_reset_def do_call_call view_call [OF assms] switching_def counted_def del: exec_call)

lemma view_complete:
  assumes "counts_interrupts D on"
  shows "irq_view D on (exec (ath_complete_reset D start) s) =
    (if fst (world D (Reset Startrecv) s) \<noteq> 0 then irq_view D on s
     else view_enable (view_park ((irq_view D on s)\<lparr>v_flags := v_flags (irq_view D on s) - {OP_HW_RESET}\<rparr>)))"
proof -
  have r: "still_for D (do {
         onchan \<leftarrow> gets (\<lambda>s. CONF_OFFCHANNEL \<notin> conf_flags s);
         only_if (onchan \<and> start) (do {
           beacons \<leftarrow> gets (\<lambda>s. OP_BEACONS \<in> op_flags s);
           only_if beacons (do {
             sta \<leftarrow> gets (\<lambda>s. opmode s = IF_STATION \<and> OP_PRIM_STA_VIF \<in> op_flags s);
             if sta then with_lock Sc_pm_lock
               (modify (\<lambda>s. s\<lparr>ps_flags := ps_flags s OR (PS_BEACON_SYNC OR PS_WAIT_FOR_BEACON)\<rparr>))
             else do_call D (Reset Set_beacon)
           });
           ath_restart_work D;
           for_each (schedule_queue D) [0..<num_tx_queues D]
         });
         modify (\<lambda>s. s\<lparr>gtt_cnt := 0\<rparr>);
         do_call D (Work Wake_queues);
         ath9k_p2p_ps_timer D;
         ret True
       })"
    by (intro still_intros; simp add: switching_def counted_def)
  note c = stillD [OF still_call(1) assms]
  show ?thesis
    unfolding ath_complete_reset_def
    using stillD [OF r assms]
    by (simp only: exec_simps res_simps res_call do_call_call view_call [OF assms] view_op [OF assms] if_distrib [of "irq_view D on"]) 
      (simp add: c switching_def counted_def view_op [OF assms] del: exec_call exec_op)
qed

text \<open>The reset under the lock, for any request to the chip.\<close>

definition reset_core :: "device \<Rightarrow> (bool \<Rightarrow> reset_call) \<Rightarrow> (softc, int) state" where
  "reset_core D request = do {
     prepared \<leftarrow> ath_prepare_reset D;
     r \<leftarrow> call D (Reset (request prepared));
     if r \<noteq> 0 then do {
       do_call D (Irq Hw_enable_interrupts);
       ath9k_queue_reset D RESET_BB_HANG;
       ret (sint r)
     } else do {
       mci \<leftarrow> call D (Reset Mci_is_enabled);
       offchannel \<leftarrow> gets (\<lambda>s. CONF_OFFCHANNEL \<in> conf_flags s);
       only_if (mci \<noteq> 0 \<and> offchannel) (do_call D (Reset Mci_set_txpower));
       ok \<leftarrow> ath_complete_reset D True;
       if \<not> ok then ret (- EIO)
       else do {
         modify (\<lambda>s. s\<lparr>cur_power_level := curtxpow s div 2\<rparr>);
         ret 0
       }
     }
   }"

lemma reset_internal_core:
  "ath_reset_internal D h = do {
     ath_cancel_work_inner D;
     do_call D (Work Intr_tasklet_disable);
     r \<leftarrow> with_lock Sc_pcu_lock (do {
       offchannel \<leftarrow> gets (\<lambda>s. CONF_OFFCHANNEL \<in> conf_flags s);
       cur \<leftarrow> gets curchan;
       reset_core D (\<lambda>prepared. Hw_reset (case h of None \<Rightarrow> cur | Some c \<Rightarrow> Some c) (\<not> offchannel)
         ((offchannel \<and> h \<noteq> None) \<and> prepared))
     });
     do_call D (Work Intr_tasklet_enable);
     ret r
   }"
  by (simp only: ath_reset_internal_def reset_core_def Let_def)

lemma view_park_disabled: "view_park ((view_disable v)\<lparr>v_flags := f\<rparr>) = (view_disable v)\<lparr>v_flags := f\<rparr>"
  by (cases v) (simp add: view_park_def view_disable_def)

lemma view_core:
  assumes "counts_interrupts D on" "\<And>p. \<exists>chan cal fast. request p = Hw_reset chan cal fast"
  shows "let v = irq_view D on s; v' = irq_view D on (exec (reset_core D request) s)
    in if deaf D then v' = view_disable v
       else v' = reset_done v \<or> v' = reset_refused v \<or> v' = view_disable v \<and> \<not> receives D"
proof -
  define tail where "tail = do {
       mci \<leftarrow> call D (Reset Mci_is_enabled);
       offchannel \<leftarrow> gets (\<lambda>s. CONF_OFFCHANNEL \<in> conf_flags s);
       only_if (mci \<noteq> 0 \<and> offchannel) (do_call D (Reset Mci_set_txpower))
     }"
  have t: "still_for D tail" unfolding tail_def by (intro still_intros; simp add: switching_def counted_def)
  have p: "irq_view D on (t\<lparr>cur_power_level := x\<rparr>) = irq_view D on t" for t x
    by (rule view_other [OF assms(1)]) simp_all
  let ?v = "irq_view D on s"
  let ?u = "exec (ath_prepare_reset D) s"
  let ?c = "Reset (request (res (ath_prepare_reset D) s))"
  let ?w = "exec (call D ?c) ?u"
  let ?x = "exec tail ?w"
  have w: "irq_view D on ?w = view_disable ?v"
    using stillD [OF still_call(1) assms(1), of ?c ?u] view_prepare [OF assms(1)] by (simp add: switching_def counted_def del: exec_call)
  have split: "irq_view D on (exec (reset_core D request) s) =
      (if fst (world D ?c ?u) \<noteq> 0 then irq_view D on (exec (ath9k_queue_reset D RESET_BB_HANG) (exec (call D (Irq Hw_enable_interrupts)) ?w))
       else irq_view D on (exec (ath_complete_reset D True) ?x))"
    by (simp add: reset_core_def tail_def do_call_call p del: exec_call)
  have x: "irq_view D on ?x = view_disable ?v" by (simp only: stillD [OF t assms(1)] w)
  have r: "receives D \<Longrightarrow> fst (world D (Reset Startrecv) ?x) = 0" by (simp add: receives_def)
  obtain chan cal fast where q: "?c = Reset (Hw_reset chan cal fast)" using assms(2) by metis
  have d: "deaf D \<Longrightarrow> fst (world D ?c ?u) = 0" "deaf D \<Longrightarrow> fst (world D (Reset Startrecv) ?x) \<noteq> 0"
    unfolding q deaf_def by blast+
  show ?thesis
    unfolding Let_def split view_queue_reset [OF assms(1)] view_call(3) [OF assms(1)] w view_complete [OF assms(1)] x
      view_park_disabled
    using r d by (auto simp: reset_done_def reset_refused_def view_disable_def)
qed

lemma view_reset:
  assumes "counts_interrupts D on"
  shows "let v = irq_view D on s; v' = irq_view D on (exec (ath_reset_internal D h) s)
    in if deaf D then v' = view_disable v
       else v' = reset_done v \<or> v' = reset_refused v \<or> v' = view_disable v \<and> \<not> receives D"
proof -
  let ?a = "exec (do_call D (Work Intr_tasklet_disable)) (exec (ath_cancel_work_inner D) s)"
  let ?b = "?a\<lparr>trace := Lock (Acquire Sc_pcu_lock) # trace ?a\<rparr>"
  obtain request where request: "request = (\<lambda>prepared. Hw_reset (case h of None \<Rightarrow> curchan ?a | Some c \<Rightarrow> Some c)
    (CONF_OFFCHANNEL \<notin> conf_flags ?a) ((CONF_OFFCHANNEL \<in> conf_flags ?a \<and> h \<noteq> None) \<and> prepared))" by blast
  have e: "irq_view D on (exec (ath_reset_internal D h) s) = irq_view D on (exec (reset_core D request) ?b)"
    using stillD [OF still_call(2) assms, of "Work Intr_tasklet_enable"]
    unfolding reset_internal_core request
    by (simp add: switching_def counted_def view_with_lock [OF assms] cong: option.case_cong del: exec_call trace_call)
  have "irq_view D on ?b = irq_view D on s"
    using stillD [OF still_call(2) assms, of "Work Intr_tasklet_disable"] stillD [OF still_work(1) assms] view_trace [OF assms]
    by (simp add: switching_def counted_def del: exec_call trace_call)
  moreover have "\<exists>chan cal fast. request p = Hw_reset chan cal fast" for p by (simp add: request)
  ultimately show ?thesis using view_core [OF assms, of request ?b] unfolding e by simp
qed

lemma view_reset_work:
  assumes "counts_interrupts D on"
  shows "let v = irq_view D on s; v' = irq_view D on (exec (ath_reset_work D) s)
    in if deaf D then v' = view_disable v
       else v' = reset_done v \<or> v' = reset_refused v \<or> v' = view_disable v \<and> \<not> receives D"
  using view_reset [OF assms, of "exec (ath9k_ps_wakeup D) s" None] stillD [OF still_power(1) assms]
  by (simp add: ath_reset_work_def ath_reset_def view_awake [OF assms])

lemma view_set_channel:
  assumes "counts_interrupts D on"
  shows "let v = irq_view D on s; v' = irq_view D on (exec (ath_set_channel D pos) s)
    in v' = v \<or> v' = reset_done v \<or> v' = reset_refused v \<or> v' = view_disable v \<and> \<not> receives D"
proof (cases "OP_INVALID \<in> op_flags s")
  case True
  then show ?thesis by (simp add: ath_set_channel_def Let_def)
next
  case False
  define pre where "pre = do {
       with_lock Cc_lock (do_call D (Reset Update_survey_stats));
       do_call D (Reset (Get_channel pos));
       switch_survey pos
     }"
  define post where "post old r = (if r \<noteq> 0 then ret r
      else do {
        (case old of None \<Rightarrow> ret () | Some p \<Rightarrow> do_call D (Reset (Update_survey_nf p)));
        radar \<leftarrow> gets radar_enabled;
        (if radar then do {
           do_call D (Hw Hw_set_radar_params);
           f \<leftarrow> call D (Hw Hw_getrxfilter);
           do_call D (Hw (Hw_setrxfilter (f OR phyradar_phyerr D)))
         } else do {
           scan \<leftarrow> gets (\<lambda>s. OP_SCANNING \<in> op_flags s \<and> spectral s = SPECTRAL_CHANSCAN);
           only_if scan (ath9k_spectral_scan_trigger D)
         });
        ret 0
      })" for old :: "nat option" and r :: int
  have c: "still_for D pre" "still_for D (post old r)" for old r
    unfolding pre_def post_def by (intro still_intros; simp add: switching_def counted_def)+
  let ?r = "ath_reset_internal D (Some pos)"
  have "exec (ath_set_channel D pos) s =
      exec (post (curchan s) (res ?r (exec pre s))) (exec ?r (exec pre s))"
    using False unfolding ath_set_channel_def post_def [symmetric] by (simp add: pre_def del: exec_call trace_call)
  then show ?thesis
    using view_reset [OF assms, of "exec pre s" "Some pos"] by (simp add: stillD [OF c(1) assms] stillD [OF c(2) assms] Let_def deaf_receives split: if_splits)
qed

text \<open>The tasklet: interrupts enabled again, or a reset queued and counted.\<close>

definition tasklet_skips :: "irq_view \<Rightarrow> irq_view" where
  "tasklet_skips v = (view_queue v)\<lparr>v_count := v_count v + 1\<rparr>"

lemma view_tasklet_reset:
  assumes "counts_interrupts D on"
  shows "irq_view D on (exec (tasklet_reset D type) s) = tasklet_skips (irq_view D on s)"
proof -
  have "irq_view D on (t\<lparr>intr_ref_cnt := intr_ref_cnt t + 1\<rparr>) =
      (irq_view D on t)\<lparr>v_count := v_count (irq_view D on t) + 1\<rparr>" for t
    using counts_facts(4) [OF assms, of "t\<lparr>intr_ref_cnt := intr_ref_cnt t + 1\<rparr>" t] by (simp add: irq_view_def calls_def)
  then show ?thesis
    by (simp add: tasklet_reset_def view_queue_reset [OF assms] tasklet_skips_def view_queue_def)
qed

lemma view_checks:
  assumes "counts_interrupts D on"
  shows "irq_view D on (exec (check_fatal D st) s) = (if res (check_fatal D st) s then tasklet_skips (irq_view D on s) else irq_view D on s)"
    "irq_view D on (exec (check_watchdog D st) s) = (if res (check_watchdog D st) s then tasklet_skips (irq_view D on s) else irq_view D on s)"
    "irq_view D on (exec (check_gtt D st) s) = (if res (check_gtt D st) s then tasklet_skips (irq_view D on s) else irq_view D on s)"
    "irq_view D on (exec (tasklet_work D st) s) = view_enable (irq_view D on s)"
proof -
  note c = stillD [OF still_call(1) assms] stillD [OF still_call(2) assms]
  show "irq_view D on (exec (check_fatal D st) s) = (if res (check_fatal D st) s then tasklet_skips (irq_view D on s) else irq_view D on s)"
    by (simp add: check_fatal_def view_tasklet_reset [OF assms])
  define pre where "pre = with_lock Cc_lock (do {
          do_call D (Power Cycle_counters_update);
          do_call D (Irq Bb_watchdog_dbg_info)
        })"
  have p: "still_for D pre" unfolding pre_def by (intro still_intros; simp add: switching_def counted_def)
  show "irq_view D on (exec (check_watchdog D st) s) = (if res (check_watchdog D st) s then tasklet_skips (irq_view D on s) else irq_view D on s)"
    unfolding check_watchdog_def pre_def [symmetric]
    by (simp add: view_tasklet_reset [OF assms] c stillD [OF p assms] switching_def counted_def del: exec_call)
  have g: "irq_view D on (t\<lparr>gtt_cnt := n\<rparr>) = irq_view D on t" for t n by (rule view_other [OF assms]) simp_all
  show "irq_view D on (exec (check_gtt D st) s) = (if res (check_gtt D st) s then tasklet_skips (irq_view D on s) else irq_view D on s)"
    unfolding check_gtt_def
    by (simp add: view_tasklet_reset [OF assms] c g switching_def counted_def del: exec_call)
  define work where "work = do {
     check_tsfoor D st;
     only_if (st AND rxmask D \<noteq> 0) (do {
       only_if (cap_edma D \<and> st AND INT_RXHP D \<noteq> 0) (do_call D (Irq (Rx_tasklet True)));
       do_call D (Irq (Rx_tasklet False))
     });
     only_if (st AND INT_TX D \<noteq> 0) (do {
       (if cap_edma D then do {
          modify (\<lambda>s. s\<lparr>gtt_cnt := 0\<rparr>);
          do_call D (Irq Tx_edma_tasklet)
        } else do_call D (Irq Tx_tasklet));
       do_call D (Work Wake_up_tx_wait)
     });
     only_if (st AND INT_GENTIMER D \<noteq> 0) (do_call D (Irq Gen_timer_isr));
     do_call D (Irq (Btcoex_handle_interrupt st))
   }"
  have w: "still_for D work" unfolding work_def by (intro still_intros; simp add: switching_def counted_def)
  have "exec (tasklet_work D st) s = exec (call D (Irq Hw_enable_interrupts)) (exec work s)"
    by (simp add: tasklet_work_def work_def do_call_call del: exec_call trace_call split del: if_split)
  then show "irq_view D on (exec (tasklet_work D st) s) = view_enable (irq_view D on s)"
    by (simp only: view_call(3) [OF assms] stillD [OF w assms])
qed

lemma view_tasklet:
  assumes "counts_interrupts D on"
  shows "let v = irq_view D on s; v' = irq_view D on (exec (ath9k_tasklet D) s)
    in v' = view_enable v \<or> v' = tasklet_skips v"
proof -
  note c = view_checks [OF assms]
  show ?thesis
    using stillD [OF still_power(1) assms] view_trace [OF assms]
    by (simp add: ath9k_tasklet_def view_awake [OF assms] view_with_lock [OF assms] Let_def c)
qed

text \<open>The handler: nothing, the interrupts killed before a reset, or the tasklet scheduled.\<close>

lemma view_mask:
  assumes "counts_interrupts D on"
  shows "irq_view D on (s\<lparr>imask := imask s AND NOT (INT_RXEOL D OR INT_RXORN D)\<rparr>) = irq_view D on s"
proof -
  have "(x AND NOT m) AND g = x AND g" if "g AND m = 0" for x m g :: u32
  proof (rule bit_word_eqI)
    fix n assume "n < LENGTH(32)"
    moreover have "bit (g AND m) n = bit (0 :: u32) n" using that by simp
    ultimately show "bit ((x AND NOT m) AND g) n = bit (x AND g) n" by (auto simp: bit_simps)
  qed
  from this [OF counts_facts(2) [OF assms]] show ?thesis
    using counts_facts(4) [OF assms, of "s\<lparr>imask := imask s AND NOT (INT_RXEOL D OR INT_RXORN D)\<rparr>" s]
    by (simp add: irq_view_def calls_def)
qed

lemma view_isr_handle:
  assumes "counts_interrupts D on" "v_global (irq_view D on s) \<noteq> 0"
  shows "irq_view D on (exec (isr_handle D st) s) = irq_view D on s"
proof -
  define before where "before = do {
     only_if (st AND INT_SWBA D \<noteq> 0) (do_call D (Work Bcon_tasklet_schedule));
     only_if (st AND INT_TXURN D \<noteq> 0) (do_call D (Irq Hw_updatetxtriglevel))
   }"
  define mask where "mask = only_if (st AND INT_RXEOL D \<noteq> 0) (do {
       modify (\<lambda>s. s\<lparr>imask := imask s AND NOT (INT_RXEOL D OR INT_RXORN D)\<rparr>);
       do_call D (Irq Hw_set_interrupts)
     })"
  define after where "after = only_if (\<not> cap_autosleep D \<and> st AND INT_TIM_TIMER D \<noteq> 0) (do {
       idle \<leftarrow> gets ps_idle;
       if idle then ret ()
       else do {
         _ \<leftarrow> ath9k_setpower D PM_AWAKE;
         with_lock Sc_pm_lock (do {
           do_call D (Power (Hw_setrxabort False));
           modify (\<lambda>s. s\<lparr>ps_flags := ps_flags s OR PS_WAIT_FOR_BEACON\<rparr>)
         })
       }
     })"
  have t: "still_for D before" "still_for D after"
    unfolding before_def after_def by (intro still_intros; simp add: switching_def counted_def)+
  have m: "irq_view D on (exec mask t) = irq_view D on t" if "v_global (irq_view D on t) \<noteq> 0" for t
    using that view_mask [OF assms(1), of t] unfolding mask_def
    by (simp add: do_call_call view_call [OF assms(1)] view_park_def del: exec_call)
  have "exec (isr_handle D st) s = exec after (exec mask (exec before s))"
    by (simp add: isr_handle_def before_def mask_def after_def del: exec_call exec_only_if)
  then show ?thesis
    using assms(2) m [of "exec before s"] by (simp add: stillD [OF t(1) assms(1)] stillD [OF t(2) assms(1)])
qed

lemma view_chip_reset:
  assumes "counts_interrupts D on"
  shows "irq_view D on (exec (chip_reset D st sched) s) = (let v = irq_view D on s
    in if sched then (view_disable v)\<lparr>v_scheduled := v_scheduled v + 1\<rparr> else v)"
  using stillD [OF still_call(1) assms]
  by (simp add: chip_reset_def do_call_call view_call [OF assms] switching_def counted_def Let_def view_disable_def del: exec_call)

lemma view_isr:
  assumes "counts_interrupts D on" "v_global (irq_view D on s) \<noteq> 0"
  shows "let v = irq_view D on s; v' = irq_view D on (exec (ath_isr D) s)
    in v' = v \<or> OP_HW_RESET \<in> v_flags v \<and> v' = v\<lparr>v_on := False\<rparr> \<or>
       OP_HW_RESET \<notin> v_flags v \<and> v' = (view_disable v)\<lparr>v_scheduled := v_scheduled v + 1\<rparr>"
proof -
  note c = stillD [OF still_call(1) assms(1)]
  have o: "irq_view D on (t\<lparr>diag_trigger_error := False\<rparr>) = irq_view D on t"
    "irq_view D on (t\<lparr>intrstatus := x\<rparr>) = irq_view D on t"
    "irq_view D on (t\<lparr>diag_trigger_error := False, intrstatus := x\<rparr>) = irq_view D on t" for t x
    by (rule view_other [OF assms(1)]; simp)+
  have f: "OP_HW_RESET \<in> op_flags t \<longleftrightarrow> OP_HW_RESET \<in> v_flags (irq_view D on t)" for t by (simp add: irq_view_def)
  show ?thesis
    unfolding ath_isr_def Let_def
    by (simp add: do_call_call c o view_chip_reset [OF assms(1)] view_isr_handle [OF assms(1)] assms(2) view_call(4) [OF assms(1)]
        f switching_def counted_def Let_def del: exec_call)
qed

text \<open>Start and stop.\<close>

definition view_start :: "device \<Rightarrow> irq_view \<Rightarrow> irq_view" where
  "view_start D v = v\<lparr>v_count := - 1, v_global := INT_GLOBAL D, v_flags := v_flags v - {OP_INVALID}\<rparr>"

definition view_stop :: "irq_view \<Rightarrow> irq_view" where
  "view_stop v = v\<lparr>v_count := - 1, v_global := 0, v_on := False, v_flags := insert OP_INVALID (v_flags v),
     v_killed := v_killed v + 1\<rparr>"

lemma start_imask_global: "start_imask D AND INT_GLOBAL D = INT_GLOBAL D"
proof (rule bit_word_eqI)
  fix n
  show "bit (start_imask D AND INT_GLOBAL D) n = bit (INT_GLOBAL D) n"
    by (auto simp: start_imask_def Let_def bit_simps)
qed

lemma view_started:
  assumes "counts_interrupts D on"
  shows "let v = view_start D (irq_view D on s); v' = irq_view D on (exec (ath9k_start D) s)
    in v' = view_enable (v\<lparr>v_flags := v_flags v - {OP_HW_RESET}\<rparr>) \<or> v' = v \<and> \<not> receives D"
proof -
  note c = stillD [OF still_call(1) assms] view_trace [OF assms]
  have o: "irq_view D on (t\<lparr>reset_power_on := b\<rparr>) = irq_view D on t"
    "irq_view D on (t\<lparr>is_monitoring := b\<rparr>) = irq_view D on t" for t b
    by (rule view_other [OF assms]; simp)+
  have i: "irq_view D on (t\<lparr>imask := start_imask D\<rparr>) = (irq_view D on t)\<lparr>v_global := INT_GLOBAL D\<rparr>"
    "irq_view D on (t\<lparr>intr_ref_cnt := - 1\<rparr>) = (irq_view D on t)\<lparr>v_count := - 1\<rparr>" for t
    using counts_facts(4) [OF assms, of "t\<lparr>imask := start_imask D\<rparr>" t]
      counts_facts(4) [OF assms, of "t\<lparr>intr_ref_cnt := - 1\<rparr>" t]
    by (simp_all add: irq_view_def calls_def start_imask_global)
  have r: "receives D \<Longrightarrow> fst (world D (Reset Startrecv) t) = 0" for t by (simp add: receives_def)
  show ?thesis
    unfolding ath9k_start_def view_awake [OF assms] view_with_lock [OF assms] Let_def
    by (cases "receives D"; simp add: r do_call_call c o i view_with_lock [OF assms] view_complete [OF assms] view_op [OF assms] stillD [OF still_power(1) assms]
        switching_def counted_def view_start_def view_park_def counts_facts(1) [OF assms] del: exec_call exec_op trace_call)
qed

lemma view_stopped:
  assumes "counts_interrupts D on"
  shows "irq_view D on (exec (ath9k_stop D) s) = (let v = (irq_view D on s)\<lparr>v_cancelled := v_cancelled (irq_view D on s) + 1\<rparr>
    in if OP_INVALID \<in> v_flags v then v else view_stop v)"
proof -
  note c = stillD [OF still_call(1) assms] view_trace [OF assms]
  have o: "irq_view D on (t\<lparr>ps_idle := b\<rparr>) = irq_view D on t" "irq_view D on (t\<lparr>rx_frag := b\<rparr>) = irq_view D on t"
    "irq_view D on (t\<lparr>curchan := x\<rparr>) = irq_view D on t" for t b x
    by (rule view_other [OF assms]; simp)+
  have l: "irq_view D on (t\<lparr>ps_idle := b, trace := Lock e # trace t\<rparr>) = irq_view D on t" for t b e
    using view_trace [OF assms, where s = "t\<lparr>ps_idle := b\<rparr>" and e = e] by (simp add: o)
  have i: "irq_view D on (t\<lparr>imask := imask t AND NOT (INT_GLOBAL D)\<rparr>) = (irq_view D on t)\<lparr>v_global := 0\<rparr>" for t
  proof -
    have "(x AND NOT g) AND g = 0" for x g :: u32 by (rule bit_word_eqI) (auto simp: bit_simps)
    then show ?thesis using counts_facts(4) [OF assms, of "t\<lparr>imask := imask t AND NOT (INT_GLOBAL D)\<rparr>" t]
      by (simp add: irq_view_def calls_def)
  qed
  have li: "irq_view D on (t\<lparr>trace := Lock e # trace t, imask := imask t AND NOT (INT_GLOBAL D)\<rparr>) =
      (irq_view D on t)\<lparr>v_global := 0\<rparr>" for t e
    using i [of "t\<lparr>trace := Lock e # trace t\<rparr>"] by (simp add: c(2))
  have h: "irq_view D on (exec (stop_hardware D) t) = (irq_view D on t)\<lparr>v_count := - 1, v_global := 0, v_on := False,
     v_killed := v_killed (irq_view D on t) + 1\<rparr>" for t
    unfolding stop_hardware_def
    by (simp add: do_call_call c o l i li view_with_lock [OF assms] view_call [OF assms] view_prepare [OF assms]
        switching_def counted_def view_disable_def del: exec_call trace_call)
  define body where "body = do {
       invalid \<leftarrow> gets (\<lambda>s. OP_INVALID \<in> op_flags s);
       if invalid then ret ()
       else do {
         prev_idle \<leftarrow> awake D (stop_hardware D);
         set_op OP_INVALID;
         modify (\<lambda>s. s\<lparr>ps_idle := prev_idle\<rparr>)
       }
     }"
  have b: "irq_view D on (exec body t) = (if OP_INVALID \<in> v_flags (irq_view D on t) then irq_view D on t
      else view_stop (irq_view D on t))" for t
  proof -
    have f: "OP_INVALID \<in> op_flags t \<longleftrightarrow> OP_INVALID \<in> v_flags (irq_view D on t)" by (simp add: irq_view_def)
    show ?thesis unfolding body_def
      by (simp add: o view_op [OF assms] view_awake [OF assms] h stillD [OF still_power(1) assms] f view_stop_def del: exec_op)
  qed
  have "exec (ath9k_stop D) s = exec (with_lock Sc_mutex (do { ath_cancel_work D; body })) s"
    by (simp add: ath9k_stop_def body_def)
  then show ?thesis
    by (simp add: view_with_lock [OF assms] ath_cancel_work_def b do_call_call view_call [OF assms] stillD [OF still_work(1) assms] c
        Let_def del: exec_call trace_call)
qed

end
