(* ===== verification/Ath_Irq_Protocol.thy ===== *)
theory Ath_Irq_Protocol
  imports Ath_Intr
begin

text \<open>
  The interrupt protocol as a step relation: handler, tasklet, reset work, start and stop, and every
  other callback, timer and notifier of the driver between them. What a callback may do to the
  interrupts is the relation \<open>view_moves\<close>.
\<close>

section \<open>What the other callbacks do to the view\<close>

text \<open>
  Any number of resets, with their results, and of calls of \<open>ath9k_hw_set_interrupts\<close>; \<open>k\<close> tells
  whether the reset work may be cancelled, as it is when the device becomes idle.
\<close>

inductive view_moves :: "device \<Rightarrow> bool \<Rightarrow> irq_view \<Rightarrow> irq_view \<Rightarrow> bool" for D k u where
  stays: "view_moves D k u u"
| parked: "view_moves D k u v \<Longrightarrow> view_moves D k u (view_park v)"
| reset: "view_moves D k u v \<Longrightarrow> view_moves D k u (reset_done v)"
| refused: "view_moves D k u v \<Longrightarrow> view_moves D k u (reset_refused v)"
| cancelled: "view_moves D k u v \<Longrightarrow> k \<Longrightarrow> view_moves D k u (v\<lparr>v_cancelled := v_cancelled v + 1\<rparr>)"
| silenced: "view_moves D k u v \<Longrightarrow> \<not> receives D \<Longrightarrow> view_moves D k u (view_disable v)"

lemma view_moves_trans: "view_moves D k v w \<Longrightarrow> view_moves D k u v \<Longrightarrow> view_moves D k u w"
  by (induction rule: view_moves.induct) (blast intro: view_moves.intros)+

definition moves_for :: "device \<Rightarrow> bool \<Rightarrow> (softc, 'a) state \<Rightarrow> bool" where
  "moves_for D k m \<longleftrightarrow> (\<forall>on s. counts_interrupts D on \<longrightarrow> view_moves D k (irq_view D on s) (irq_view D on (exec m s)))"

named_theorems moves_intros \<open>handlers that do to the interrupts what callbacks may do\<close>

lemma moves_still: "still_for D m \<Longrightarrow> moves_for D k m"
  using stillD view_moves.stays unfolding moves_for_def by metis

lemma moves_bind [moves_intros]:
  "moves_for D k m \<Longrightarrow> (\<And>x. moves_for D k (f x)) \<Longrightarrow> moves_for D k (State_Monad.bind m f)"
  unfolding moves_for_def by (simp, blast intro: view_moves_trans)

lemma moves_rules [moves_intros]:
  "moves_for D k (State_Monad.return x)"
  "moves_for D k (gets g)"
  "(b \<Longrightarrow> moves_for D k m) \<Longrightarrow> (\<not> b \<Longrightarrow> moves_for D k n) \<Longrightarrow> moves_for D k (if b then m else n)"
  "(b \<Longrightarrow> moves_for D k u) \<Longrightarrow> moves_for D k (only_if b u)"
  "(v = None \<Longrightarrow> moves_for D k m) \<Longrightarrow> (\<And>x. v = Some x \<Longrightarrow> moves_for D k (h x)) \<Longrightarrow>
   moves_for D k (case v of None \<Rightarrow> m | Some x \<Rightarrow> h x)"
  by (auto simp: moves_for_def view_moves.stays split: option.split)

lemma moves_for_each [moves_intros]: "(\<And>x. moves_for D k (f x)) \<Longrightarrow> moves_for D k (for_each f xs)"
  by (induction xs) (auto intro: moves_intros)

lemma moves_call [moves_intros]:
  "c \<notin> switching \<union> counted \<Longrightarrow> moves_for D k (call D c)"
  "c \<notin> switching \<union> counted \<Longrightarrow> moves_for D k (do_call D c)"
  by (intro moves_still still_intros; assumption)+

lemma moves_set_interrupts [moves_intros]: "moves_for D k (do_call D (Irq Hw_set_interrupts))"
  unfolding moves_for_def do_call_call
  by (intro allI impI) (simp only: view_call view_moves.intros)

lemma moves_modify [moves_intros]:
  "(\<And>s. mem (h s) = mem s) \<Longrightarrow> (\<And>s. intr_ref_cnt (h s) = intr_ref_cnt s) \<Longrightarrow> (\<And>s. imask (h s) = imask s) \<Longrightarrow>
   (\<And>s. op_flags (h s) = op_flags s) \<Longrightarrow> (\<And>s. trace (h s) = trace s) \<Longrightarrow> moves_for D k (modify h)"
  by (intro moves_still still_modify)

lemma moves_with_lock [moves_intros]: "moves_for D k m \<Longrightarrow> moves_for D k (with_lock l m)"
  unfolding moves_for_def by (metis view_with_lock view_trace)

lemma mask_keeps:
  fixes x m g :: u32
  assumes "g AND m = 0"
  shows "(x OR m) AND g = x AND g" "(x AND NOT m) AND g = x AND g"
proof -
  have "bit (g AND m) n = bit (0 :: u32) n" for n using assms by simp
  then have b: "\<not> (bit g n \<and> bit m n)" for n by (simp add: bit_simps)
  show "(x OR m) AND g = x AND g" "(x AND NOT m) AND g = x AND g"
    by (rule bit_word_eqI; use b in \<open>auto simp: bit_simps\<close>)+
qed

lemma moves_mask [moves_intros]:
  "moves_for D k (modify (\<lambda>s. s\<lparr>imask := imask s OR INT_TIM_TIMER D\<rparr>))"
  "moves_for D k (modify (\<lambda>s. s\<lparr>imask := imask s AND NOT (INT_TIM_TIMER D)\<rparr>))"
  "moves_for D k (modify (\<lambda>s. s\<lparr>imask := imask s OR INT_TSFOOR D\<rparr>))"
  "moves_for D k (modify (\<lambda>s. s\<lparr>imask := imask s AND NOT (INT_TSFOOR D)\<rparr>))"
proof -
  have k: "irq_view D on (s\<lparr>imask := f (imask s)\<rparr>) = irq_view D on s"
    if "counts_interrupts D on" "\<And>x. f x AND INT_GLOBAL D = x AND INT_GLOBAL D" for on s f
    using counts_facts(4) [OF that(1), of "s\<lparr>imask := f (imask s)\<rparr>" s] that(2) by (simp add: irq_view_def calls_def)
  have "moves_for D k (modify (\<lambda>s. s\<lparr>imask := f (imask s)\<rparr>))"
    if "\<And>on x. counts_interrupts D on \<Longrightarrow> f x AND INT_GLOBAL D = x AND INT_GLOBAL D" for f
    unfolding moves_for_def exec_simps using k that view_moves.stays by metis
  note m = this
  show "moves_for D k (modify (\<lambda>s. s\<lparr>imask := imask s OR INT_TIM_TIMER D\<rparr>))"
    "moves_for D k (modify (\<lambda>s. s\<lparr>imask := imask s AND NOT (INT_TIM_TIMER D)\<rparr>))"
    "moves_for D k (modify (\<lambda>s. s\<lparr>imask := imask s OR INT_TSFOOR D\<rparr>))"
    "moves_for D k (modify (\<lambda>s. s\<lparr>imask := imask s AND NOT (INT_TSFOOR D)\<rparr>))"
    by (rule m, rule mask_keeps, erule counts_facts)+
qed

lemma moves_op [moves_intros]:
  "f \<notin> {OP_HW_RESET, OP_INVALID} \<Longrightarrow> moves_for D k (set_op f)"
  "f \<notin> {OP_HW_RESET, OP_INVALID} \<Longrightarrow> moves_for D k (clear_op f)"
  by (intro moves_still still_op; assumption)+

lemma moves_resets [moves_intros]:
  "moves_for D k (ath_reset_internal D h)" "moves_for D k (ath_set_channel D pos)"
proof -
  have r: "view_moves D k v v'"
    if "v' = v \<or> v' = reset_done v \<or> v' = reset_refused v \<or> v' = view_disable v \<and> \<not> receives D" for v v'
    using that view_moves.stays [of D k v] by (auto intro: view_moves.intros)
  have "view_moves D k (irq_view D on s) (irq_view D on (exec (ath_reset_internal D h) s))"
    if "counts_interrupts D on" for on s
    using view_reset [OF that, of s h] deaf_receives [of D] by (intro r) (auto simp: Let_def split: if_splits)
  then show "moves_for D k (ath_reset_internal D h)" by (simp add: moves_for_def)
  have "view_moves D k (irq_view D on s) (irq_view D on (exec (ath_set_channel D pos) s))"
    if "counts_interrupts D on" for on s
    using view_set_channel [OF that, of s pos] by (intro r) (simp add: Let_def)
  then show "moves_for D k (ath_set_channel D pos)" by (simp add: moves_for_def)
qed

lemma moves_power [moves_intros]:
  "moves_for D k (ath9k_ps_wakeup D)" "moves_for D k (ath9k_ps_restore D)" "moves_for D k (ath9k_setpower D mode)"
  "moves_for D k (ath_ps_full_sleep D)" "moves_for D k (ath9k_enable_ps D)" "moves_for D k (ath9k_disable_ps D)"
  unfolding ath9k_ps_wakeup_def ath9k_ps_restore_def ath9k_setpower_def ath_ps_full_sleep_def
    ath9k_enable_ps_def ath9k_disable_ps_def
  by (intro moves_intros; simp add: switching_def counted_def)+

lemma moves_awake [moves_intros]: "moves_for D k m \<Longrightarrow> moves_for D k (awake D m)"
  unfolding awake_def by (intro moves_intros)

lemma moves_reset [moves_intros]:
  "moves_for D k (ath_reset D)" "moves_for D k (ath_cancel_work_inner D)" "moves_for D k (ath_restart_work D)"
  "moves_for D k (ath9k_p2p_ps_timer D)" "moves_for D k (ath9k_update_p2p_ps_timer D avp)"
  "moves_for D k (ath9k_spectral_scan_trigger D)" "moves_for D k (ath9k_spectral_scan_config D mode)"
  unfolding ath_reset_def by (intro moves_intros | (rule moves_still, intro still_intros))+

lemma moves_pending_loops [moves_intros]:
  "moves_for D k (ath9k_has_pending_frames i)" "moves_for D k (has_tx_pending_loop is)" "moves_for D k (tx_frames_pending_loop is)"
proof -
  show p: "moves_for D k (ath9k_has_pending_frames i)" for i
    unfolding ath9k_has_pending_frames_def by (intro moves_intros)
  show "moves_for D k (has_tx_pending_loop is)" "moves_for D k (tx_frames_pending_loop is)"
    by (induction "is") (simp_all only: has_tx_pending_loop.simps tx_frames_pending_loop.simps, (intro moves_intros p; assumption?)+)
qed

lemma moves_tx [moves_intros]:
  "moves_for D k ath_tx_get_buf_size" "moves_for D k (ath_cw_update D qnum n)" "moves_for D k (tx_exit D sk)"
  "moves_for D k (wake_for_tx D b)" "moves_for D k (ath9k_tx D f)" "moves_for D k (ath9k_has_tx_pending D)"
  "moves_for D k (ath9k_tx_frames_pending D)" "moves_for D k (ath9k_tx_last_beacon D)" "moves_for D k (ath9k_flush D dr)"
  unfolding ath_tx_get_buf_size_def ath_cw_update_def tx_exit_def wake_for_tx_def ath9k_tx_def
    ath9k_has_tx_pending_def ath9k_tx_frames_pending_def ath9k_tx_last_beacon_def ath9k_flush_def flush_drop_def Let_def
  by (intro moves_intros; simp add: switching_def counted_def)+

lemma moves_primary [moves_intros]:
  "moves_for D k (ath9k_calculate_iter_data w)" "moves_for D k (set_primary v b)" "moves_for D k (ath9k_set_assoc_state D v)"
  "moves_for D k (drop_primary v)" "moves_for D k (clear_associd D)" "moves_for D k (bss_slot_changed D v)"
  unfolding ath9k_calculate_iter_data_def set_primary_def ath9k_set_assoc_state_def drop_primary_def
    clear_associd_def bss_slot_changed_def Let_def
  by (intro moves_intros; simp add: switching_def counted_def)+

lemma moves_p2p [moves_intros]: "moves_for D k (ath9k_update_p2p_ps D v)"
  unfolding ath9k_update_p2p_ps_def Let_def
  by (intro moves_intros; simp add: switching_def counted_def)

lemma moves_iters [moves_intros]:
  "moves_for D k (ath9k_sta_vif_iter D v)" "moves_for D k (ath9k_bss_assoc_iter D v)"
  unfolding ath9k_sta_vif_iter_def ath9k_bss_assoc_iter_def
  by (intro moves_intros; simp add: switching_def counted_def)+

lemma moves_summary [moves_intros]: "moves_for D k (ath9k_calculate_summary_state D w)"
  unfolding ath9k_calculate_summary_state_def
  by (intro moves_mask moves_intros; simp add: switching_def counted_def)

lemma moves_bss [moves_intros]:
  "moves_for D k (bss_assoc_changed D v)" "moves_for D k (bss_other_changes D v ch)"
  unfolding bss_assoc_changed_def bss_other_changes_def
  by (intro moves_intros; simp add: switching_def counted_def)+

lemma moves_iface [moves_intros]:
  "moves_for D k (ath9k_add_interface D v)" "moves_for D k (ath9k_change_interface D v t p)"
  "moves_for D k (ath9k_remove_interface D v)" "moves_for D k (ath9k_bss_info_changed D v ch)"
  unfolding ath9k_add_interface_def ath9k_change_interface_def ath9k_remove_interface_def ath9k_bss_info_changed_def
  by (intro moves_intros; simp add: switching_def counted_def)+

lemma moves_cases [moves_intros]:
  "moves_for D k a \<Longrightarrow> moves_for D k b \<Longrightarrow> moves_for D k c \<Longrightarrow>
   moves_for D k (case cmd of SET_KEY \<Rightarrow> a | DISABLE_KEY \<Rightarrow> b | KEY_CMD_other \<Rightarrow> c)"
  "moves_for D k (set_node n f)"
  unfolding set_node_def by (cases cmd; simp) (intro moves_intros; simp)

lemma moves_cancel [moves_intros]:
  assumes k
  shows "moves_for D k (ath_cancel_work D)"
proof -
  have "moves_for D k (do_call D (Work Cancel_hw_reset_work))"
    unfolding moves_for_def do_call_call
    by (intro allI impI) (simp only: view_call view_moves.cancelled [OF view_moves.stays assms])
  then show ?thesis unfolding ath_cancel_work_def by (intro moves_bind moves_reset(2))
qed

lemma moves_config [moves_intros]:
  "k \<Longrightarrow> moves_for D k (config_idle D)" "moves_for D k (config_power D)"
  "(CH_IDLE \<in> ch \<Longrightarrow> k) \<Longrightarrow> moves_for D k (ath9k_config D ch)"
  "moves_for D k (ath9k_configure_filter D kept)" "moves_for D k (ath9k_set_coverage_class D c)"
  "moves_for D k (ath9k_get_survey D idx)" "moves_for D k (ath9k_set_antenna D tx rx)" "moves_for D k ath9k_get_antenna"
  "moves_for D k ath9k_sw_scan_start" "moves_for D k ath9k_sw_scan_complete"
  unfolding config_idle_def config_power_def ath9k_config_def ath9k_configure_filter_def
    ath9k_set_coverage_class_def ath9k_get_survey_def ath9k_set_antenna_def ath9k_get_antenna_def
    ath9k_sw_scan_start_def ath9k_sw_scan_complete_def Let_def
  by (intro moves_intros; simp add: switching_def counted_def)+

lemma moves_keys [moves_intros]:
  "moves_for D k (ath_node_attach D n v)" "moves_for D k (ath_node_detach D n)" "moves_for D k (ath9k_sta_add D v n)"
  "moves_for D k (ath9k_del_ps_key D n)" "moves_for D k (ath9k_sta_remove D n)" "moves_for D k (ath9k_sta_set_tx_filter D n b)"
  "moves_for D k (install_key D v sta key)" "moves_for D k (disable_key D sta key)" "moves_for D k (ath9k_set_key D cmd v sta key)"
  unfolding ath_node_attach_def ath_node_detach_def ath9k_sta_add_def ath9k_del_ps_key_def
    ath9k_sta_remove_def ath9k_sta_set_tx_filter_def install_key_def disable_key_def ath9k_set_key_def Let_def
  by (intro moves_intros; simp add: switching_def counted_def)+

lemma moves_sta_notify [moves_intros]: "moves_for D k (ath9k_sta_notify D n cmd)"
  unfolding ath9k_sta_notify.simps by (cases cmd) (simp_all, (intro moves_intros moves_still [OF still_work(3)]; simp add: switching_def counted_def)+)

lemma moves_eifs [moves_intros]: "moves_for D k (update_eifs D aifs)"
proof -
  have more: "irq_view D on s = irq_view D on t"
    if c: "counts_interrupts D on" and m: "reg_bus.more s = reg_bus.more t"
      and r: "\<And>r. r \<noteq> AR_D_GBL_IFS_EIFS (chip_regs D) \<Longrightarrow> mem s r = mem t r" for on s t
  proof -
    have "on s = on t" by (rule counts_facts(6) [OF c r])
    then show ?thesis using m by (cases s, cases t) (simp add: irq_view_def calls_def)
  qed
  have rd: "reg_bus.more (exec (ath9k_ioread32 r) s) = reg_bus.more s" "mem (exec (ath9k_ioread32 r) s) = mem s" for r and s :: softc
    by (simp_all add: reg_access_defs)
  have "irq_view D on (exec (update_eifs D aifs) s) = irq_view D on s" if c: "counts_interrupts D on" for on s
    by (rule more [OF c]) (simp_all add: update_eifs_def rd)
  then show ?thesis by (simp add: moves_for_def view_moves.stays)
qed

lemma moves_conf_tx [moves_intros]:
  "moves_for D k (ath9k_conf_tx D queue params)" "moves_for D k (ath9k_get_tsf D)" "moves_for D k (ath9k_set_tsf D t)"
  "moves_for D k (ath9k_reset_tsf D)" "moves_for D k (ampdu_tx_stop D n tid f)"
  unfolding ath9k_conf_tx_def ath9k_get_tsf_def ath9k_set_tsf_def ath9k_reset_tsf_def ampdu_tx_stop_def Let_def
  by (intro moves_intros; simp add: switching_def counted_def)+

lemma moves_ampdu [moves_intros]: "moves_for D k (ath9k_ampdu_action D action n tid)"
  unfolding ath9k_ampdu_action_def
  by (cases action; simp; intro moves_intros; simp add: switching_def counted_def)

lemma moves_regd [moves_intros]: "moves_for D k (ath9k_reg_notifier D r)"
  unfolding ath9k_reg_notifier_def by (intro moves_intros; simp add: switching_def counted_def)

lemma moves_discard [moves_intros]: "moves_for D k m \<Longrightarrow> moves_for D k (discard m)"
  unfolding discard_def by (intro moves_intros)

text \<open>The events that have no part of their own in the protocol; one of them may cancel a reset.\<close>

definition callback :: "event \<Rightarrow> bool" where
  "callback e \<longleftrightarrow> e \<notin> {Iface_op Op_start, Iface_op Op_stop, Ev_isr, Ev_tasklet, Ev_reset_work}"

fun idles :: "event \<Rightarrow> bool" where
  "idles (Conf_op (Op_config ch)) = (CH_IDLE \<in> ch)"
| "idles _ = False"

lemma moves_event:
  assumes "callback e" "idles e \<Longrightarrow> k"
  shows "moves_for D k (ath9k_event D e)"
proof -
  have "moves_for D k (ath9k_iface_ops D c)" if "e = Iface_op c" for c
    using assms(1) that by (cases c) (simp_all add: callback_def, (intro moves_intros)+)
  moreover have "moves_for D k (ath9k_conf_ops D c)" if "e = Conf_op c" for c
    using assms(2) that by (cases c) (simp_all, (intro moves_intros; simp)+)
  moreover have "moves_for D k (ath9k_sta_ops D c)" for c
    by (cases c) (simp_all, (intro moves_intros)+)
  ultimately show ?thesis
    using assms(1) by (cases e) (simp_all add: callback_def, (intro moves_intros)+)
qed

section \<open>The protocol\<close>

text \<open>
  The driver, whether its tasklet is scheduled and whether the reset work is due. An interrupt
  arrives only while the chip's interrupts are on; a hang is found by code of other files,
  which queues a reset through \<open>ath9k_queue_reset\<close>; mac80211 starts a device that is stopped. A
  callback that makes the device idle cancels the reset work before it does anything that may queue
  it; where a reset is due, this is the event \<open>Cut_short\<close>.
\<close>

record irq_sys =
  drv :: softc
  tasklet :: bool
  reset_due :: bool

definition asked :: "work_call \<Rightarrow> softc \<Rightarrow> softc \<Rightarrow> bool" where
  "asked c s s' \<longleftrightarrow> calls (Work c) s < calls (Work c) s'"

datatype irq_event = Arrives | Tasklet_runs | Reset_runs | Hang_found reset_type | Channel_set nat | Callback event | Cut_short event
  | Started | Stopped

inductive irq_step :: "device \<Rightarrow> (softc \<Rightarrow> bool) \<Rightarrow> irq_event \<Rightarrow> irq_sys \<Rightarrow> irq_sys \<Rightarrow> bool" for D on where
  arrives: "on (drv x) \<Longrightarrow> s' = exec (ath_isr D) (drv x) \<Longrightarrow>
    irq_step D on Arrives x (x\<lparr>drv := s', tasklet := tasklet x \<or> asked Intr_tasklet_schedule (drv x) s'\<rparr>)"
| tasklet_runs: "tasklet x \<Longrightarrow> s' = exec (ath9k_tasklet D) (drv x) \<Longrightarrow>
    irq_step D on Tasklet_runs x (x\<lparr>drv := s', tasklet := False, reset_due := reset_due x \<or> asked Queue_hw_reset_work (drv x) s'\<rparr>)"
| reset_runs: "reset_due x \<Longrightarrow> s' = exec (ath_reset_work D) (drv x) \<Longrightarrow>
    irq_step D on Reset_runs x (x\<lparr>drv := s', reset_due := asked Queue_hw_reset_work (drv x) s'\<rparr>)"
| hang_found: "s' = exec (ath9k_queue_reset D type) (drv x) \<Longrightarrow>
    irq_step D on (Hang_found type) x (x\<lparr>drv := s', reset_due := reset_due x \<or> asked Queue_hw_reset_work (drv x) s'\<rparr>)"
| channel_set: "s' = exec (ath_set_channel D pos) (drv x) \<Longrightarrow>
    irq_step D on (Channel_set pos) x (x\<lparr>drv := s', reset_due := reset_due x \<or> asked Queue_hw_reset_work (drv x) s'\<rparr>)"
| callback: "callback e \<Longrightarrow> \<not> (idles e \<and> reset_due x) \<Longrightarrow> s' = exec (ath9k_event D e) (drv x) \<Longrightarrow>
    irq_step D on (Callback e) x (x\<lparr>drv := s', reset_due := reset_due x \<or> asked Queue_hw_reset_work (drv x) s'\<rparr>)"
| cut_short: "idles e \<Longrightarrow> reset_due x \<Longrightarrow> s' = exec (ath9k_event D e) (drv x) \<Longrightarrow>
    irq_step D on (Cut_short e) x (x\<lparr>drv := s',
      reset_due := \<not> asked Cancel_hw_reset_work (drv x) s' \<or> asked Queue_hw_reset_work (drv x) s'\<rparr>)"
| started: "imask (drv x) AND INT_GLOBAL D = 0 \<Longrightarrow> s' = exec (ath9k_start D) (drv x) \<Longrightarrow>
    irq_step D on Started x (x\<lparr>drv := s'\<rparr>)"
| stopped: "s' = exec (ath9k_stop D) (drv x) \<Longrightarrow>
    irq_step D on Stopped x (x\<lparr>drv := s', tasklet := tasklet x \<and> \<not> asked Intr_tasklet_kill (drv x) s',
      reset_due := reset_due x \<and> \<not> asked Cancel_hw_reset_work (drv x) s'\<rparr>)"

text \<open>
  Steps on a device that may answer differently from step to step: \<open>P\<close> is what is known of it,
  \<open>E\<close> the events that occur.
\<close>

inductive irq_reach :: "(device \<Rightarrow> bool) \<Rightarrow> (softc \<Rightarrow> bool) \<Rightarrow> irq_event set \<Rightarrow> irq_sys \<Rightarrow> irq_sys \<Rightarrow> bool"
  for P on E x where
  here: "irq_reach P on E x x"
| there: "irq_reach P on E x y \<Longrightarrow> P D \<Longrightarrow> e \<in> E \<Longrightarrow> irq_step D on e y z \<Longrightarrow> irq_reach P on E x z"

text \<open>What holds in every state when the receive logic always starts, and what never heals.\<close>

definition irq_inv :: "irq_view \<Rightarrow> bool \<Rightarrow> bool \<Rightarrow> bool" where
  "irq_inv v tk rd \<longleftrightarrow>
     (if v_global v = 0 then \<not> tk \<and> \<not> v_on v
      else OP_INVALID \<notin> v_flags v \<and> v_count v = (if tk then - 1 else 0) \<and> (v_on v \<or> tk \<or> rd) \<and>
        \<not> (v_on v \<and> tk) \<and> (OP_HW_RESET \<in> v_flags v \<longrightarrow> rd))"

definition irq_dead :: "irq_view \<Rightarrow> bool \<Rightarrow> bool" where
  "irq_dead v tk \<longleftrightarrow> v_global v \<noteq> 0 \<and> \<not> v_on v \<and> v_count v + (if tk then 1 else 0) < 0"

lemma asked_view:
  "asked Queue_hw_reset_work s s' \<longleftrightarrow> v_queued (irq_view D on s) < v_queued (irq_view D on s')"
  "asked Cancel_hw_reset_work s s' \<longleftrightarrow> v_cancelled (irq_view D on s) < v_cancelled (irq_view D on s')"
  "asked Intr_tasklet_schedule s s' \<longleftrightarrow> v_scheduled (irq_view D on s) < v_scheduled (irq_view D on s')"
  "asked Intr_tasklet_kill s s' \<longleftrightarrow> v_killed (irq_view D on s) < v_killed (irq_view D on s')"
  by (simp_all add: asked_def irq_view_def)

lemma view_cong: "INT_GLOBAL D = INT_GLOBAL D' \<Longrightarrow> irq_view D on s = irq_view D' on s"
  by (simp add: irq_view_def)

lemmas view_defs = view_disable_def view_enable_def view_queue_def reset_done_def reset_refused_def
  tasklet_skips_def view_start_def view_stop_def

lemma on_view: "on s = v_on (irq_view D on s)" "imask s AND INT_GLOBAL D = v_global (irq_view D on s)"
  "intr_ref_cnt s = v_count (irq_view D on s)"
  by (simp_all add: irq_view_def)

lemma moves_inv:
  assumes "view_moves D k u v" "receives D" "irq_inv u tk rd"
  shows "v_queued u \<le> v_queued v \<and> irq_inv v tk (rd \<or> v_queued u < v_queued v)"
  using assms(1)
proof induction
  case (parked v)
  then show ?case by (auto simp: irq_inv_def view_park_def view_disable_def split: if_splits)
next
  case (reset v)
  then show ?case by (auto simp: irq_inv_def view_defs split: if_splits)
next
  case (refused v)
  then show ?case by (auto simp: irq_inv_def view_defs split: if_splits)
next
  case (cancelled v)
  then show ?case by (simp add: irq_inv_def)
qed (use assms(2,3) in simp_all)

lemma moves_dead: "view_moves D k u v \<Longrightarrow> irq_dead u tk \<Longrightarrow> irq_dead v tk"
  by (induction rule: view_moves.induct) (auto simp: irq_dead_def view_park_def view_defs split: if_splits)

lemma moves_eventD:
  assumes "counts_interrupts D on" "callback e"
  shows "view_moves D (idles e) (irq_view D on s) (irq_view D on (exec (ath9k_event D e) s))"
  using moves_event [OF assms(2), of "idles e" D] assms(1) by (simp add: moves_for_def)

lemma idles_callback: "idles e \<Longrightarrow> callback e"
  by (cases e rule: idles.cases) (simp_all add: callback_def)

lemma irq_step_inv:
  assumes "irq_step D on e x y" "counts_interrupts D on" "receives D" "\<And>c. e \<noteq> Cut_short c"
    and "irq_inv (irq_view D on (drv x)) (tasklet x) (reset_due x)"
  shows "irq_inv (irq_view D on (drv y)) (tasklet y) (reset_due y)"
  using assms(1)
proof cases
  case (arrives s')
  have "v_global (irq_view D on (drv x)) \<noteq> 0"
    using arrives assms(5) by (auto simp: irq_inv_def on_view(1) [of on _ D] split: if_splits)
  then show ?thesis using arrives view_isr [OF assms(2), of "drv x"] assms(5)
    by (auto simp: Let_def asked_view [of _ _ D on] irq_inv_def view_defs on_view(1) [of on _ D] split: if_splits)
next
  case (tasklet_runs s')
  then show ?thesis using view_tasklet [OF assms(2), of "drv x"] assms(5)
    by (auto simp: Let_def asked_view [of _ _ D on] irq_inv_def view_defs split: if_splits)
next
  case (reset_runs s')
  then show ?thesis using view_reset_work [OF assms(2), of "drv x"] assms(3,5) deaf_receives [of D]
    by (auto simp: Let_def asked_view [of _ _ D on] irq_inv_def view_defs split: if_splits)
next
  case (hang_found s' type)
  then show ?thesis using view_queue_reset [OF assms(2), of type "drv x"] assms(5)
    by (auto simp: Let_def asked_view [of _ _ D on] irq_inv_def view_defs split: if_splits)
next
  case (channel_set s' pos)
  then show ?thesis using view_set_channel [OF assms(2), of "drv x" pos] assms(3,5)
    by (auto simp: Let_def asked_view [of _ _ D on] irq_inv_def view_defs split: if_splits)
next
  case (callback c s')
  then show ?thesis using moves_inv [OF moves_eventD [OF assms(2) callback(3)] assms(3,5)]
    by (simp add: asked_view [of _ _ D on])
next
  case (cut_short c s')
  then show ?thesis using assms(4) by blast
next
  case (started s')
  then show ?thesis using view_started [OF assms(2), of "drv x"] assms(3,5) counts_facts(1) [OF assms(2)]
    by (auto simp: Let_def asked_view [of _ _ D on] irq_inv_def view_defs on_view(2) [of _ D on] split: if_splits)
next
  case (stopped s')
  then show ?thesis using view_stopped [OF assms(2), of "drv x"] assms(5)
    by (auto simp: Let_def asked_view [of _ _ D on] irq_inv_def view_defs split: if_splits)
qed

lemma irq_reach_inv:
  assumes "irq_reach (\<lambda>D. counts_interrupts D on \<and> receives D \<and> INT_GLOBAL D = INT_GLOBAL D0) on E x y"
    and "\<And>c. Cut_short c \<notin> E"
    and "irq_inv (irq_view D0 on (drv x)) (tasklet x) (reset_due x)"
  shows "irq_inv (irq_view D0 on (drv y)) (tasklet y) (reset_due y)"
  using assms
proof (induction rule: irq_reach.induct)
  case (there y D e z)
  then have D: "counts_interrupts D on" "receives D" "\<And>c. e \<noteq> Cut_short c" and v: "irq_view D on = irq_view D0 on"
    using view_cong [of D D0 on] by auto
  show ?case using irq_step_inv [OF there.hyps(4) D] there.IH there.prems by (simp add: v)
qed simp

lemma irq_step_dead:
  assumes "irq_step D on e x y" "counts_interrupts D on" "e \<noteq> Stopped"
    and "irq_dead (irq_view D on (drv x)) (tasklet x)"
  shows "irq_dead (irq_view D on (drv y)) (tasklet y)"
  using assms(1)
proof cases
  case (arrives s')
  then show ?thesis using assms(4) by (simp add: irq_dead_def on_view(1) [of on _ D])
next
  case (tasklet_runs s')
  then show ?thesis using view_tasklet [OF assms(2), of "drv x"] assms(4)
    by (auto simp: Let_def irq_dead_def view_defs split: if_splits)
next
  case (reset_runs s')
  then show ?thesis using view_reset_work [OF assms(2), of "drv x"] assms(4)
    by (auto simp: Let_def irq_dead_def view_defs split: if_splits)
next
  case (hang_found s' type)
  then show ?thesis using view_queue_reset [OF assms(2), of type "drv x"] assms(4)
    by (auto simp: Let_def irq_dead_def view_defs split: if_splits)
next
  case (channel_set s' pos)
  then show ?thesis using view_set_channel [OF assms(2), of "drv x" pos] assms(4)
    by (auto simp: Let_def irq_dead_def view_defs split: if_splits)
next
  case (callback c s')
  then show ?thesis using moves_dead [OF moves_eventD [OF assms(2) callback(3)] assms(4)] by simp
next
  case (cut_short c s')
  then show ?thesis using moves_dead [OF moves_eventD [OF assms(2) idles_callback [OF cut_short(3)]] assms(4)] by simp
next
  case (started s')
  then show ?thesis using assms(4) by (simp add: irq_dead_def on_view(2) [of _ D on])
qed (use assms(3) in simp)

lemma irq_reach_dead:
  assumes "irq_reach (\<lambda>D. counts_interrupts D on \<and> INT_GLOBAL D = INT_GLOBAL D0) on (- {Stopped}) x y"
    and "irq_dead (irq_view D0 on (drv x)) (tasklet x)"
  shows "irq_dead (irq_view D0 on (drv y)) (tasklet y)"
  using assms
proof (induction rule: irq_reach.induct)
  case (there y D e z)
  then have D: "counts_interrupts D on" "e \<noteq> Stopped" and v: "irq_view D on = irq_view D0 on"
    using view_cong [of D D0 on] by auto
  show ?case using irq_step_dead [OF there.hyps(4) D] there.IH there.prems by (simp add: v)
qed simp

text \<open>The two steps that turn the interrupts on again.\<close>

lemma tasklet_turns_on:
  assumes "counts_interrupts D on" "irq_inv (irq_view D on (drv x)) (tasklet x) (reset_due x)"
    and "v_global (irq_view D on (drv x)) \<noteq> 0" "tasklet x"
  shows "\<exists>y. irq_step D on Tasklet_runs x y \<and> \<not> tasklet y \<and> v_global (irq_view D on (drv y)) \<noteq> 0 \<and>
    (on (drv y) \<or> reset_due y \<and> intr_ref_cnt (drv y) = 0)"
proof -
  note step = irq_step.tasklet_runs [OF assms(4) refl, of D on]
  show ?thesis
    by (rule exI, rule conjI [OF step])
      (use view_tasklet [OF assms(1), of "drv x"] assms(2-4) in
        \<open>auto simp: Let_def asked_view [of _ _ D on] irq_inv_def view_defs on_view(1) [of on _ D] on_view(3) [of _ D on] split: if_splits\<close>)
qed

lemma reset_turns_on:
  assumes "counts_interrupts D on" "receives D" "reset_due x" "intr_ref_cnt (drv x) = 0"
    and "v_global (irq_view D on (drv x)) \<noteq> 0"
  shows "\<exists>y. irq_step D on Reset_runs x y \<and> on (drv y)"
proof -
  have "on (exec (ath_reset_work D) (drv x))"
    using view_reset_work [OF assms(1), of "drv x"] assms(2,4,5)
    by (auto simp: Let_def view_defs on_view(1) [of on _ D] on_view(3) [of _ D on] deaf_receives split: if_splits)
  then show ?thesis using irq_step.reset_runs [OF assms(3) refl, of D on] by fastforce
qed

section \<open>Properties\<close>

text \<open>
  C4: The interrupts always come back. From a device at rest, over any sequence of interrupts,
  tasklets, resets, hangs, starts and stops, and of any callbacks, timers and notifiers that do not
  make the device idle while a reset is due, on a chip that may refuse resets
  but whose receive logic starts when asked to: while the device runs, the
  reference count is \<open>-1\<close> exactly as long as the tasklet is scheduled and zero otherwise, the
  interrupts are off only if the tasklet or a reset is to come, and running these, in at
  most two steps, turns them on again.
\<close>

theorem interrupts_come_back:
  assumes "counts_interrupts D on" "receives D"
    and "\<not> on (drv x)" "\<not> tasklet x" "imask (drv x) AND INT_GLOBAL D = 0"
    and "irq_reach (\<lambda>D'. counts_interrupts D' on \<and> receives D' \<and> INT_GLOBAL D' = INT_GLOBAL D) on
      {e. \<forall>c. e \<noteq> Cut_short c} x y"
    and "imask (drv y) AND INT_GLOBAL D \<noteq> 0"
  shows "intr_ref_cnt (drv y) = (if tasklet y then - 1 else 0) \<and> (on (drv y) \<longrightarrow> \<not> tasklet y) \<and>
    (on (drv y) \<or>
     (\<exists>z. irq_step D on Tasklet_runs y z \<and> (on (drv z) \<or> (\<exists>w. irq_step D on Reset_runs z w \<and> on (drv w)))) \<or>
     (\<exists>z. irq_step D on Reset_runs y z \<and> on (drv z)))"
proof -
  let ?v = "irq_view D on (drv y)"
  have "irq_inv (irq_view D on (drv x)) (tasklet x) (reset_due x)"
    using assms(3-5) by (simp add: irq_inv_def irq_view_def)
  then have inv: "irq_inv ?v (tasklet y) (reset_due y)" by (rule irq_reach_inv [OF assms(6), rotated]) simp
  have g: "v_global ?v \<noteq> 0" using assms(7) by (simp add: irq_view_def)
  have c: "intr_ref_cnt (drv y) = (if tasklet y then - 1 else 0)" "on (drv y) \<longrightarrow> \<not> tasklet y"
    "on (drv y) \<or> tasklet y \<or> reset_due y"
    using inv g by (auto simp: irq_inv_def on_view(1) [of on _ D] on_view(3) [of _ D on])
  moreover have "\<exists>z. irq_step D on Tasklet_runs y z \<and> (on (drv z) \<or> (\<exists>w. irq_step D on Reset_runs z w \<and> on (drv w)))"
    if "tasklet y"
    using tasklet_turns_on [OF assms(1) inv g that] reset_turns_on [OF assms(1,2)] by blast
  moreover have "\<exists>z. irq_step D on Reset_runs y z \<and> on (drv z)" if "\<not> tasklet y" "reset_due y"
    using reset_turns_on [OF assms(1,2) that(2) _ g] c(1) that(1) by simp
  ultimately show ?thesis by blast
qed

text \<open>
  C21: A receive logic that once does not start after a reset silences the device: the reset
  leaves the reference count one too low, and whatever happens afterwards, resets that
  succeed included, the interrupts stay off and none is handled, until the device is stopped.
\<close>

theorem failed_restart_silences:
  assumes "counts_interrupts D on" "deaf D" "irq_step D on Reset_runs x y"
    and "intr_ref_cnt (drv x) = (if tasklet x then - 1 else 0)" "imask (drv x) AND INT_GLOBAL D \<noteq> 0"
    and "irq_reach (\<lambda>D'. counts_interrupts D' on \<and> INT_GLOBAL D' = INT_GLOBAL D) on (- {Stopped}) y z"
  shows "\<not> on (drv z) \<and> intr_ref_cnt (drv z) < 0 \<and> \<not> irq_step D' on Arrives z w"
proof -
  from assms(3) have y: "drv y = exec (ath_reset_work D) (drv x)" "tasklet y = tasklet x" by (cases; simp)+
  have "irq_dead (irq_view D on (drv y)) (tasklet y)"
    using view_reset_work [OF assms(1), of "drv x"] assms(2,4,5)
    by (simp add: y irq_dead_def view_disable_def Let_def on_view(2) [of _ D on] on_view(3) [of _ D on])
  then have dead: "irq_dead (irq_view D on (drv z)) (tasklet z)" by (rule irq_reach_dead [OF assms(6)])
  then have off: "\<not> on (drv z)" "intr_ref_cnt (drv z) < 0"
    by (auto simp: irq_dead_def on_view(1) [of on _ D] on_view(3) [of _ D on] split: if_splits)
  moreover have "\<not> irq_step D' on Arrives z w"
  proof
    assume "irq_step D' on Arrives z w"
    then show False using off(1) by cases simp_all
  qed
  ultimately show ?thesis by simp
qed

text \<open>A chip that counts, its receive logic answering \<open>k\<close>; the interrupts are on when register \<open>0x24\<close> is one.\<close>

definition ier_on :: "softc \<Rightarrow> bool" where
  "ier_on s \<longleftrightarrow> mem s 0x24 = 1"

definition counting_world :: "u32 \<Rightarrow> call \<Rightarrow> softc \<Rightarrow> u32 \<times> softc" where
  "counting_world k c s =
     (let g = imask s AND 0x20000000
      in if c = Irq Hw_disable_interrupts then
           (0, s\<lparr>intr_ref_cnt := (if g = 0 then - 1 else intr_ref_cnt s - 1), mem := (mem s)(0x24 := 0)\<rparr>)
         else if c = Irq Hw_enable_interrupts then
           (0, if g = 0 then s
               else s\<lparr>intr_ref_cnt := intr_ref_cnt s + 1, mem := (if intr_ref_cnt s = - 1 then (mem s)(0x24 := 1) else mem s)\<rparr>)
         else if c = Irq Hw_set_interrupts then
           (0, if g = 0 then s\<lparr>intr_ref_cnt := - 1, mem := (mem s)(0x24 := 0)\<rparr> else s)
         else if c = Irq Hw_kill_interrupts then (0, s\<lparr>mem := (mem s)(0x24 := 0)\<rparr>)
         else if c = Reset Startrecv then (k, s)
         else world0 c s)"

definition dev_counting :: "u32 \<Rightarrow> device" where
  "dev_counting k = dev0\<lparr>world := counting_world k\<rparr>"

lemma dev_counting_simps [simp]:
  "INT_GLOBAL (dev_counting k) = 0x20000000" "INT_RXEOL (dev_counting k) = 0x10" "INT_RXORN (dev_counting k) = 0x20"
  "INT_TIM_TIMER (dev_counting k) = 0x80000000" "INT_TSFOOR (dev_counting k) = 0x2000000"
  "world (dev_counting k) = counting_world k"
  by (simp_all add: dev_counting_def dev0_def)

lemma counting_dev: "counts_interrupts (dev_counting k) ier_on"
proof -
  have w: "irq_view D ier_on ((snd (world0 c s))\<lparr>trace := trace s\<rparr>) = irq_view D ier_on s" for D c s
    by (simp add: world0_def irq_view_def calls_def ier_on_def split: option.split)
  have "let s' = snd (counting_world k c s); v = irq_view (dev_counting k) ier_on s;
      v' = irq_view (dev_counting k) ier_on (s'\<lparr>trace := trace s\<rparr>)
    in (c \<notin> switching \<longrightarrow> v' = v) \<and> (c = Irq Hw_disable_interrupts \<longrightarrow> v' = view_disable v) \<and>
       (c = Irq Hw_enable_interrupts \<longrightarrow> v' = view_enable v) \<and> (c = Irq Hw_set_interrupts \<longrightarrow> v' = view_park v) \<and>
       (c = Irq Hw_kill_interrupts \<longrightarrow> v' = v\<lparr>v_on := False\<rparr>)" for c s
    unfolding counting_world_def Let_def switching_def
    by (simp add: w) (simp add: irq_view_def calls_def ier_on_def view_disable_def view_enable_def view_park_def)
  moreover have "ier_on s = ier_on t" if "\<forall>r. r \<noteq> AR_D_GBL_IFS_EIFS (chip_regs (dev_counting k)) \<longrightarrow> mem s r = mem t r" for s t
  proof -
    have "0x24 \<noteq> AR_D_GBL_IFS_EIFS (chip_regs (dev_counting k))" by (simp add: dev_counting_def dev0_def ar9331_def)
    then show ?thesis using that by (simp add: ier_on_def)
  qed
  ultimately show ?thesis unfolding counts_interrupts_def by simp
qed

lemma counting_receives: "receives (dev_counting 0)" "deaf (dev_counting 1)"
  by (simp_all add: receives_def deaf_def counting_world_def Let_def world0_def)

theorem interrupts_come_back_witness:
  "intr_ref_cnt (exec (ath9k_start (dev_counting 0)) softc0) = 0"
proof -
  let ?D = "dev_counting 0"
  let ?x = "\<lparr>drv = softc0, tasklet = False, reset_due = False\<rparr>"
  let ?y = "?x\<lparr>drv := exec (ath9k_start ?D) softc0\<rparr>"
  have x: "\<not> ier_on (drv ?x)" "\<not> tasklet ?x" "imask (drv ?x) AND INT_GLOBAL ?D = 0"
    by (simp_all add: softc0_def ier_on_def)
  have step: "irq_step ?D ier_on Started ?x ?y"
    using irq_step.started [of ?x ?D] x(3) by simp
  have reach: "irq_reach (\<lambda>D'. counts_interrupts D' ier_on \<and> receives D' \<and> INT_GLOBAL D' = INT_GLOBAL ?D) ier_on {e. \<forall>c. e \<noteq> Cut_short c} ?x ?y"
    by (rule irq_reach.there [OF irq_reach.here _ _ step]) (simp_all add: counting_dev counting_receives)
  have "imask (drv ?y) AND INT_GLOBAL ?D \<noteq> 0"
    using view_started [OF counting_dev, of 0 softc0] counting_receives(1)
    by (simp add: Let_def on_view(2) [of _ ?D ier_on] view_enable_def view_start_def del: dev_counting_simps(1)) simp
  from interrupts_come_back [OF counting_dev counting_receives(1) x reach this] show ?thesis by simp
qed

theorem failed_restart_silences_witness:
  "\<not> ier_on (exec (ath_set_channel (dev_counting 0) 6) (exec (ath_reset_work (dev_counting 1))
     (softc0\<lparr>imask := 0x20000000, intr_ref_cnt := 0, op_flags := {}\<rparr>)))"
proof -
  let ?x = "\<lparr>drv = softc0\<lparr>imask := 0x20000000, intr_ref_cnt := 0, op_flags := {}\<rparr>, tasklet = False, reset_due = True\<rparr>"
  obtain y where y: "irq_step (dev_counting 1) ier_on Reset_runs ?x y" "drv y = exec (ath_reset_work (dev_counting 1)) (drv ?x)"
    using irq_step.reset_runs [of ?x _ "dev_counting 1" ier_on] by fastforce
  obtain z where z: "irq_step (dev_counting 0) ier_on (Channel_set 6) y z" "drv z = exec (ath_set_channel (dev_counting 0) 6) (drv y)"
    using irq_step.channel_set [OF refl, of "dev_counting 0" ier_on 6 y] by fastforce
  have reach: "irq_reach (\<lambda>D'. counts_interrupts D' ier_on \<and> INT_GLOBAL D' = INT_GLOBAL (dev_counting 1)) ier_on (- {Stopped}) y z"
    by (rule irq_reach.there [OF irq_reach.here _ _ z(1)]) (simp_all add: counting_dev)
  have "imask (drv ?x) AND INT_GLOBAL (dev_counting 1) \<noteq> 0" by simp
  from failed_restart_silences [OF counting_dev counting_receives(2) y(1) _ this reach] y(2) z(2) show ?thesis by simp
qed

text \<open>
  The work queued by a hang is lost when the device becomes idle: the callback cancels it and
  leaves the flag \<open>OP_HW_RESET\<close>, on which the handler turns every interrupt away.
\<close>

lemma view_config_idle:
  assumes "counts_interrupts D on" "frames D conf_flags" "CONF_IDLE \<in> conf_flags s"
  shows "irq_view D on (exec (ath9k_config D {CH_IDLE}) s) =
    (irq_view D on s)\<lparr>v_cancelled := v_cancelled (irq_view D on s) + 1\<rparr>"
proof -
  note c = stillD [OF still_call(1) assms(1)] view_trace [OF assms(1)]
  have o: "irq_view D on (t\<lparr>ps_idle := b\<rparr>) = irq_view D on t" for t b by (rule view_other [OF assms(1)]) simp_all
  have l: "irq_view D on (t\<lparr>trace := Lock e # trace t, ps_idle := b\<rparr>) = irq_view D on t" for t b e
    using o [where t = "t\<lparr>trace := Lock e # trace t\<rparr>" and b = b] by (simp add: c(2))
  have w: "conf_flags (exec (ath9k_ps_wakeup D) s) = conf_flags s"
    by (rule keepsD [OF keeps_ps(1) [OF assms(2)]]) (simp_all add: untraced_def)
  show ?thesis
    by (simp add: ath9k_config_def config_idle_def ath_cancel_work_def view_awake [OF assms(1)] view_with_lock [OF assms(1)]
        w assms(3) do_call_call c o l view_call [OF assms(1)] stillD [OF still_work(1) assms(1)] stillD [OF still_power(1) assms(1)]
        switching_def counted_def del: exec_call trace_call)
qed

text \<open>
  C22: Becoming idle loses a reset. When a hang has queued a reset and mac80211 then sets the device
  idle, the reset work is cancelled but its flag stays: from then on every interrupt is turned away,
  the tasklet is never scheduled and no reset is due, until something else resets the chip.
\<close>

theorem idle_loses_reset:
  assumes "counts_interrupts D on" "frames D conf_flags"
    and "OP_HW_RESET \<in> op_flags (drv x)" "CONF_IDLE \<in> conf_flags (drv x)" "\<not> tasklet x" "imask (drv x) AND INT_GLOBAL D \<noteq> 0"
    and "irq_step D on (Cut_short (Conf_op (Op_config {CH_IDLE}))) x y"
    and "irq_reach (\<lambda>D'. counts_interrupts D' on \<and> INT_GLOBAL D' = INT_GLOBAL D) on {Arrives, Tasklet_runs, Reset_runs} y z"
  shows "OP_HW_RESET \<in> op_flags (drv z) \<and> \<not> tasklet z \<and> \<not> reset_due z"
proof -
  let ?lost = "\<lambda>x. OP_HW_RESET \<in> v_flags (irq_view D on (drv x)) \<and> v_global (irq_view D on (drv x)) \<noteq> 0 \<and>
    \<not> tasklet x \<and> \<not> reset_due x"
  from assms(7) have y: "?lost y"
  proof cases
    case (cut_short s')
    then show ?thesis
      using view_config_idle [OF assms(1,2,4)] assms(3,5,6) asked_view(1,2) [of "drv x" s' D on]
      by (simp add: discard_def irq_view_def) 
  qed
  from assms(8) y have "?lost z"
  proof (induction rule: irq_reach.induct)
    case (there u D' e w)
    then have c: "counts_interrupts D' on" and v: "irq_view D' on = irq_view D on" using view_cong [of D' D on] by auto
    from there have u: "?lost u" by blast
    from there(4) show ?case
    proof cases
      case (arrives s')
      then show ?thesis using view_isr [OF c, of "drv u"] u
        by (auto simp: v Let_def asked_view [of _ _ D on])
    qed (use there(3) u in auto)
  qed
  then show ?thesis by (simp add: irq_view_def)
qed

text \<open>A running device on which a hang was found; it becomes idle, then an interrupt arrives.\<close>

theorem idle_loses_reset_witness:
  "let D = dev_counting 0;
       s = softc0\<lparr>mem := (\<lambda>_. 0)(0x24 := 1), imask := 0x20000000, intr_ref_cnt := 0, op_flags := {OP_HW_RESET}, conf_flags := {CONF_IDLE}\<rparr>;
       s' = exec (ath9k_event D (Conf_op (Op_config {CH_IDLE}))) s
   in \<not> asked Intr_tasklet_schedule s' (exec (ath_isr D) s') \<and> OP_HW_RESET \<in> op_flags (exec (ath_isr D) s')"
proof -
  let ?D = "dev_counting 0" and ?e = "Conf_op (Op_config {CH_IDLE})"
  let ?x = "\<lparr>drv = softc0\<lparr>mem := (\<lambda>_. 0)(0x24 := 1), imask := 0x20000000, intr_ref_cnt := 0, op_flags := {OP_HW_RESET},
    conf_flags := {CONF_IDLE}\<rparr>, tasklet = False, reset_due = True\<rparr>"
  let ?s = "exec (ath9k_event ?D ?e) (drv ?x)"
  have f: "frames ?D conf_flags"
    by (simp add: frames_def counting_world_def Let_def world0_def split: option.split)
  have v: "irq_view ?D ier_on ?s = (irq_view ?D ier_on (drv ?x))\<lparr>v_cancelled := v_cancelled (irq_view ?D ier_on (drv ?x)) + 1\<rparr>"
    using view_config_idle [OF counting_dev f, of "drv ?x"] by (simp add: discard_def)
  obtain y where y: "irq_step ?D ier_on (Cut_short ?e) ?x y" "drv y = ?s" "tasklet y = False"
    using irq_step.cut_short [of ?e ?x ?s ?D ier_on] by fastforce
  have "ier_on (drv y)" using arg_cong [OF v, of v_on] unfolding y(2) by (simp add: irq_view_def ier_on_def)
  then obtain z where z: "irq_step ?D ier_on Arrives y z" "drv z = exec (ath_isr ?D) ?s"
    "tasklet z = asked Intr_tasklet_schedule ?s (exec (ath_isr ?D) ?s)"
    using irq_step.arrives [of ier_on y _ ?D] y(2,3) by fastforce
  have reach: "irq_reach (\<lambda>D'. counts_interrupts D' ier_on \<and> INT_GLOBAL D' = INT_GLOBAL ?D) ier_on {Arrives, Tasklet_runs, Reset_runs} y z"
    by (rule irq_reach.there [OF irq_reach.here _ _ z(1)]) (simp_all add: counting_dev)
  have "OP_HW_RESET \<in> op_flags (drv z) \<and> \<not> tasklet z \<and> \<not> reset_due z"
    by (rule idle_loses_reset [OF counting_dev f _ _ _ _ y(1) reach]) simp_all
  then show ?thesis using z by (simp add: Let_def)
qed

end
