(* ===== verification/Speed_Stats.thy ===== *)
theory Speed_Stats
  imports Packetspammer Complex_Main
begin

text \<open>
  \<open>print_speed\<close> of \<open>packetspammer/packetspammer.c\<close>: the second thread that samples the counters of
  the sending loop and prints rates. \<open>float\<close> is IEEE single precision, rounded to nearest even;
  \<open>%.2f\<close> prints the exact value rounded to nearest even. The counters are read one at a time, so
  the loop may run between any two statements. How a NaN prints is the platform's and an argument.
\<close>

section \<open>Single precision\<close>

text \<open>A fraction rounded to an integer, ties to even.\<close>

definition rne_div :: "nat \<Rightarrow> nat \<Rightarrow> nat" where
  "rne_div n d =
     (let q = n div d; r = n mod d in if 2 * r < d \<or> 2 * r = d \<and> even q then q else q + 1)"

text \<open>A finite value is sign, significand and exponent; its significand has at most 24 bits.\<close>

datatype f32 = Fin bool nat int | Inf bool | NaN

fun f_val :: "f32 \<Rightarrow> rat" where
  "f_val (Fin s m e) = (if s then - 1 else 1) * (of_nat m * 2 powi e)"
| "f_val _ = 0"

fun bits :: "nat \<Rightarrow> nat" where
  "bits n = (if n = 0 then 0 else Suc (bits (n div 2)))"

declare bits.simps [simp del]

definition scale_num :: "nat \<Rightarrow> int \<Rightarrow> nat" where "scale_num n e = n * 2 ^ nat (- e)"
definition scale_den :: "nat \<Rightarrow> int \<Rightarrow> nat" where "scale_den d e = d * 2 ^ nat e"

text \<open>The exponent that leaves 24 bits before the point.\<close>

definition exponent :: "nat \<Rightarrow> nat \<Rightarrow> int" where
  "exponent n d =
     (let e = int (bits n) - int (bits d) - 24
      in if scale_den d e * 2 ^ 24 \<le> scale_num n e then e + 1 else e)"

definition round_frac :: "bool \<Rightarrow> nat \<Rightarrow> nat \<Rightarrow> f32" where
  "round_frac s n d =
     (if n = 0 then Fin s 0 0
      else let e = exponent n d in Fin s (rne_div (scale_num n e) (scale_den d e)) e)"

definition float_of_int :: "int \<Rightarrow> f32" where
  "float_of_int i = round_frac (i < 0) (nat \<bar>i\<bar>) 1"

fun float_div :: "f32 \<Rightarrow> f32 \<Rightarrow> f32" where
  "float_div (Fin s m e) (Fin s' m' e') =
     (if m' = 0 then if m = 0 then NaN else Inf (s \<noteq> s')
      else round_frac (s \<noteq> s') (m * 2 ^ nat (e - e')) (m' * 2 ^ nat (e' - e)))"
| "float_div (Inf s) (Fin s' _ _) = Inf (s \<noteq> s')"
| "float_div (Fin s _ _) (Inf s') = Fin (s \<noteq> s') 0 0"
| "float_div _ _ = NaN"

section \<open>Printing\<close>

definition digit :: "nat \<Rightarrow> char" where "digit n = char_of (48 + n)"

fun decimal_text :: "nat \<Rightarrow> string" where
  "decimal_text n = (if n < 10 then [digit n] else decimal_text (n div 10) @ [digit (n mod 10)])"

declare decimal_text.simps [simp del]

definition hundredths :: "nat \<Rightarrow> int \<Rightarrow> nat" where
  "hundredths m e = rne_div (scale_num (100 * m) (- e)) (2 ^ nat (- e))"

fun print_2f :: "string \<Rightarrow> f32 \<Rightarrow> string" where
  "print_2f N (Fin s m e) =
     (let h = hundredths m e
      in (if s then ''-'' else []) @ decimal_text (h div 100) @ ''.'' @ [digit (h mod 100 div 10), digit (h mod 10)])"
| "print_2f N (Inf s) = (if s then ''-inf'' else ''inf'')"
| "print_2f N NaN = N"

text \<open>The line for an interval and the two differences.\<close>

definition speed_of :: "u32 \<Rightarrow> u32 \<Rightarrow> f32" where
  "speed_of iv db = float_div (float_of_int (sint db)) (float_of_int (sint (iv * 1024)))"

definition pps_of :: "u32 \<Rightarrow> u32 \<Rightarrow> f32" where
  "pps_of iv dp = float_div (float_of_int (sint dp)) (float_of_int (sint iv))"

definition speed_line :: "string \<Rightarrow> u32 \<Rightarrow> u32 \<Rightarrow> u32 \<Rightarrow> string" where
  "speed_line N iv db dp =
     ''sending rate: '' @ print_2f N (speed_of iv db) @ ''KB/s '' @ print_2f N (pps_of iv dp) @ ''pps'' @ [CHR 0x0A]"

section \<open>The thread beside the sending loop\<close>

datatype speed_pc = Read_s_byte | Read_s_packet | Sleep | Read_e_byte | Read_e_packet | Print

record speed =
  pc :: speed_pc
  s_byte :: u32
  s_packet :: u32
  e_byte :: u32
  e_packet :: u32
  naps :: "u32 list"
  lines :: "string list"

definition speed0 :: speed where
  "speed0 = \<lparr>pc = Read_s_byte, s_byte = 0, s_packet = 0, e_byte = 0, e_packet = 0, naps = [],
     lines = [''sub-thread initialized'' @ [CHR 0x0A]]\<rparr>"

text \<open>One statement of the thread, on the counters as they are at that moment.\<close>

definition print_speed :: "string \<Rightarrow> u32 \<Rightarrow> spam \<Rightarrow> speed \<Rightarrow> speed" where
  "print_speed N iv st t =
     (case pc t of
        Read_s_byte \<Rightarrow> t\<lparr>s_byte := sent_byte st, pc := Read_s_packet\<rparr>
      | Read_s_packet \<Rightarrow> t\<lparr>s_packet := sent_packet st, pc := Sleep\<rparr>
      | Sleep \<Rightarrow> t\<lparr>naps := iv * 1000000 # naps t, pc := Read_e_byte\<rparr>
      | Read_e_byte \<Rightarrow> t\<lparr>e_byte := sent_byte st, pc := Read_e_packet\<rparr>
      | Read_e_packet \<Rightarrow> t\<lparr>e_packet := sent_packet st, pc := Print\<rparr>
      | Print \<Rightarrow> t\<lparr>lines := speed_line N iv (e_byte t - s_byte t) (e_packet t - s_packet t) # lines t,
                 pc := Read_s_byte\<rparr>)"

text \<open>
  The round of the loop in the same grain: the two counters are raised one after the other, with
  the rest of the round behind them.
\<close>

datatype send_pc = At_bytes | At_packets | At_rest

definition send_step :: "config \<Rightarrow> u32 \<times> u32 \<Rightarrow> spam \<times> send_pc \<Rightarrow> int \<times> spam + spam \<times> send_pc" where
  "send_step c i sp =
     (case sp of (s, p) \<Rightarrow>
      case p of
        At_bytes \<Rightarrow> Inr (s\<lparr>frames := frames s + 1, sent_byte := sent_byte s + frame_len c\<rparr>, At_packets)
      | At_packets \<Rightarrow> Inr (s\<lparr>sent_packet := sent_packet s + 1\<rparr>, At_rest)
      | At_rest \<Rightarrow>
          (if fst i \<noteq> send_length c then Inl (1, s)
           else let w = wait_us (snd i);
                    s = (if w \<noteq> 0 then s\<lparr>sleeps := w # sleeps s\<rparr> else s);
                    s = s\<lparr>sent := sent s + 1\<rparr>
                in if sent s = count c then Inl (0, s) else Inr (s, At_bytes)))"

text \<open>Both threads in any order; the end of the loop ends both.\<close>

datatype turn = Send "u32 \<times> u32" | Stat

fun threads :: "string \<Rightarrow> config \<Rightarrow> turn list \<Rightarrow> (spam \<times> send_pc) \<times> speed \<Rightarrow>
    int \<times> speed + (spam \<times> send_pc) \<times> speed" where
  "threads N c [] (s, t) = Inr (s, t)"
| "threads N c (Send i # es) (s, t) =
     (case send_step c i s of Inl (r, _) \<Rightarrow> Inl (r, t) | Inr s' \<Rightarrow> threads N c es (s', t))"
| "threads N c (Stat # es) (s, t) =
     threads N c es (s, print_speed N (word_of_int (rate_stat_interval c)) (fst s) t)"

section \<open>Lemmas\<close>

lemma bits_bounds: "0 < n \<Longrightarrow> 2 ^ (bits n - 1) \<le> n \<and> n < 2 ^ bits n \<and> 0 < bits n"
proof (induction n rule: bits.induct)
  case (1 n)
  show ?case
  proof (cases "n div 2 = 0")
    case True
    then have "n = 1" using 1(2) by simp
    then show ?thesis by (simp add: bits.simps)
  next
    case False
    then have IH: "2 ^ (bits (n div 2) - 1) \<le> n div 2 \<and> n div 2 < 2 ^ bits (n div 2) \<and> 0 < bits (n div 2)"
      using 1 by simp
    then obtain k where k: "bits (n div 2) = Suc k" by (cases "bits (n div 2)") auto
    have b: "bits n = Suc (Suc k)" using 1(2) k by (subst bits.simps) simp
    show ?thesis using IH unfolding k b by (simp; linarith)
  qed
qed

lemma rne_div_error:
  assumes "0 < d"
  shows "\<bar>of_nat (rne_div n d) - of_nat n / (of_nat d :: rat)\<bar> \<le> 1 / 2"
proof -
  let ?q = "n div d" and ?r = "n mod d"
  have n: "of_nat n = of_nat ?q * of_nat d + (of_nat ?r :: rat)"
    by (metis div_mult_mod_eq of_nat_add of_nat_mult)
  have d: "0 < (of_nat d :: rat)" using assms by simp
  have x: "of_nat n / of_nat d = of_nat ?q + of_nat ?r / (of_nat d :: rat)"
    unfolding n using d by (simp add: field_simps)
  have r: "of_nat ?r < (of_nat d :: rat)" using assms by simp
  have c: "2 * of_nat ?r \<le> (of_nat d :: rat) \<longleftrightarrow> 2 * ?r \<le> d" "(of_nat d :: rat) \<le> 2 * of_nat ?r \<longleftrightarrow> d \<le> 2 * ?r"
    by (metis of_nat_le_iff of_nat_mult of_nat_numeral)+
  show ?thesis
  proof (cases "2 * ?r < d \<or> 2 * ?r = d \<and> even ?q")
    case True
    then have "2 * of_nat ?r \<le> (of_nat d :: rat)" using c by auto
    then have "of_nat ?r / of_nat d \<le> (1 / 2 :: rat)" using d by (simp add: field_simps)
    moreover have "rne_div n d = ?q" using True by (simp add: rne_div_def)
    moreover have "0 \<le> of_nat ?r / (of_nat d :: rat)" by simp
    ultimately show ?thesis unfolding x by simp
  next
    case False
    then have "(of_nat d :: rat) \<le> 2 * of_nat ?r" using c by auto
    then have "1 / 2 \<le> of_nat ?r / (of_nat d :: rat)" using d by (simp add: field_simps)
    moreover have "of_nat ?r / (of_nat d :: rat) < 1" using r d by simp
    moreover have "rne_div n d = ?q + 1" using False by (auto simp: rne_div_def Let_def)
    ultimately show ?thesis unfolding x by simp
  qed
qed

lemma two_powi: "2 powi e = (2 ^ nat e :: rat) / 2 ^ nat (- e)"
proof (cases "0 \<le> e")
  case True
  then show ?thesis by (simp add: power_int_def)
next
  case False
  then have "2 powi e = inverse (2 :: rat) ^ nat (- e)" by (simp add: power_int_def)
  also have "\<dots> = 1 / 2 ^ nat (- e)" by (simp add: inverse_eq_divide power_divide)
  finally show ?thesis using False by simp
qed

lemma powi_mult: "(2 :: rat) powi a * 2 powi b = 2 powi (a + b)"
  by (simp add: power_int_add)

lemma powi_shift: "(2 :: rat) powi a * 2 ^ k = 2 powi (a + int k)"
  by (simp add: power_int_add)

lemma scale_ratio:
  "0 < d \<Longrightarrow> of_nat (scale_num n e) / of_nat (scale_den d e) = of_nat n / (of_nat d :: rat) / 2 powi e"
  by (simp add: scale_num_def scale_den_def two_powi)

lemma bits_powi:
  assumes "0 < n"
  shows "(2 :: rat) powi (int (bits n) - 1) \<le> of_nat n \<and> of_nat n < (2 :: rat) powi int (bits n)"
proof -
  note b = bits_bounds [OF assms]
  have "of_nat (2 ^ (bits n - 1)) \<le> (of_nat n :: rat)" "of_nat n < (of_nat (2 ^ bits n) :: rat)"
    using b by (simp_all only: of_nat_le_iff of_nat_less_iff)
  moreover have e: "int (bits n) - 1 = int (bits n - 1)" using b by simp
  ultimately show ?thesis unfolding e power_int_of_nat by simp
qed

lemma bits_ratio:
  assumes "0 < n" "0 < d"
  shows "2 powi (int (bits n) - 1 - int (bits d)) < of_nat n / (of_nat d :: rat)"
    and "of_nat n / (of_nat d :: rat) < 2 powi (int (bits n) - int (bits d) + 1)"
proof -
  note pn = bits_powi [OF assms(1)] and pd = bits_powi [OF assms(2)]
  have d0: "0 < (of_nat d :: rat)" using assms(2) by simp
  have "2 powi (int (bits n) - 1 - int (bits d)) * of_nat d < 2 powi (int (bits n) - 1 - int (bits d)) * (2 :: rat) powi int (bits d)"
    using pd by (intro mult_strict_left_mono) simp_all
  also have "\<dots> = 2 powi (int (bits n) - 1)" unfolding powi_mult by simp
  also note conjunct1 [OF pn]
  finally show "2 powi (int (bits n) - 1 - int (bits d)) < of_nat n / (of_nat d :: rat)"
    using d0 by (simp only: pos_less_divide_eq)
  have "(of_nat n :: rat) < 2 powi (int (bits n) - int (bits d) + 1) * 2 powi (int (bits d) - 1)"
    unfolding powi_mult using pn by simp
  also have "\<dots> \<le> 2 powi (int (bits n) - int (bits d) + 1) * of_nat d" using pd by (intro mult_left_mono) simp_all
  finally show "of_nat n / (of_nat d :: rat) < 2 powi (int (bits n) - int (bits d) + 1)"
    using d0 by (simp only: pos_divide_less_eq)
qed

lemma exponent_bounds:
  assumes "0 < n" "0 < d"
  defines "e \<equiv> exponent n d"
  shows "2 ^ 23 \<le> of_nat n / (of_nat d :: rat) / 2 powi e" and "of_nat n / (of_nat d :: rat) / 2 powi e < 2 ^ 24"
proof -
  let ?x = "of_nat n / (of_nat d :: rat)" and ?e = "int (bits n) - int (bits d) - 24"
  note lo = bits_ratio(1) [OF assms(1,2)] and hi = bits_ratio(2) [OF assms(1,2)]
  have test: "scale_den d ?e * 2 ^ 24 \<le> scale_num n ?e \<longleftrightarrow> 2 ^ 24 \<le> ?x / 2 powi ?e"
  proof -
    have p: "0 < (of_nat (scale_den d ?e) :: rat)" using assms(2) by (simp add: scale_den_def)
    have "scale_den d ?e * 2 ^ 24 \<le> scale_num n ?e \<longleftrightarrow>
      of_nat (scale_den d ?e) * 2 ^ 24 \<le> (of_nat (scale_num n ?e) :: rat)"
      using of_nat_le_iff [of "scale_den d ?e * 2 ^ 24" "scale_num n ?e", where ?'a = rat] by simp
    also have "\<dots> \<longleftrightarrow> 2 ^ 24 \<le> of_nat (scale_num n ?e) / (of_nat (scale_den d ?e) :: rat)"
      using p by (simp add: pos_le_divide_eq mult.commute)
    finally show ?thesis unfolding scale_ratio [OF assms(2)] .
  qed
  define P where "P = (2 :: rat) powi ?e"
  have P: "0 < P" by (simp add: P_def)
  have lo': "2 ^ 23 < ?x / P"
  proof -
    have "P * 2 ^ 23 = 2 powi (int (bits n) - int (bits d) - 1)" unfolding P_def powi_shift by (simp add: add.commute)
    moreover have "int (bits n) - int (bits d) - 1 = int (bits n) - 1 - int (bits d)" by simp
    ultimately show ?thesis using lo P by (simp only: pos_less_divide_eq mult.commute)
  qed
  have hi': "?x / P < 2 ^ 25"
  proof -
    have "P * 2 ^ 25 = 2 powi (int (bits n) - int (bits d) + 1)" unfolding P_def powi_shift by (simp add: add.commute)
    then show ?thesis using hi P by (simp only: pos_divide_less_eq mult.commute)
  qed
  have e: "e = (if 2 ^ 24 \<le> ?x / P then ?e + 1 else ?e)"
    using test by (simp only: e_def exponent_def Let_def P_def split: if_splits)
  have "P * 2 ^ 1 = 2 powi (?e + 1)" unfolding P_def powi_shift by simp
  then have half: "?x / 2 powi (?e + 1) = ?x / P / 2" by (simp only: power_one_right divide_divide_eq_left [symmetric] flip: \<open>P * 2 ^ 1 = _\<close>)
  have b: "2 ^ 23 \<le> y / 2" if "2 ^ 24 \<le> y" for y :: rat using that by simp
  have b': "y / 2 < 2 ^ 24" if "y < 2 ^ 25" for y :: rat using that by simp
  show "2 ^ 23 \<le> ?x / 2 powi e" and "?x / 2 powi e < 2 ^ 24"
    using lo' hi' b [of "?x / P"] b' [of "?x / P"] unfolding e
    by (simp_all only: half P_def [symmetric] less_imp_le not_le split: if_splits) simp_all
qed

lemma round_frac_error:
  assumes "0 < d"
  shows "\<bar>f_val (round_frac s n d) - (if s then - 1 else 1) * (of_nat n / of_nat d)\<bar> \<le> of_nat n / of_nat d / 2 ^ 24"
proof (cases "n = 0")
  case False
  let ?x = "of_nat n / (of_nat d :: rat)" and ?e = "exponent n d"
  let ?m = "rne_div (scale_num n ?e) (scale_den d ?e)" and ?p = "2 powi ?e :: rat"
  have p: "0 < ?p" by simp
  have "\<bar>of_nat ?m - ?x / ?p\<bar> \<le> 1 / 2"
    using rne_div_error [of "scale_den d ?e" "scale_num n ?e"] assms unfolding scale_ratio [OF assms]
    by (simp add: scale_den_def)
  moreover have "2 ^ 23 \<le> ?x / ?p" using exponent_bounds(1) [of n d] False assms by simp
  moreover have "a \<le> y / 2 ^ 24" if "a \<le> 1 / 2" "2 ^ 23 \<le> y" for a y :: rat using that by simp
  ultimately have "\<bar>of_nat ?m - ?x / ?p\<bar> \<le> ?x / ?p / 2 ^ 24" by blast
  then have "\<bar>of_nat ?m - ?x / ?p\<bar> * ?p \<le> ?x / ?p / 2 ^ 24 * ?p" using p by (intro mult_right_mono) simp_all
  then have "\<bar>of_nat ?m - ?x / ?p\<bar> * ?p \<le> ?x / 2 ^ 24" using p by simp
  moreover have "\<bar>of_nat ?m - ?x / ?p\<bar> * ?p = \<bar>of_nat ?m * ?p - ?x\<bar>"
    using p by (simp add: abs_mult_pos left_diff_distrib)
  ultimately have "\<bar>of_nat ?m * ?p - ?x\<bar> \<le> ?x / 2 ^ 24" by (simp only:)
  moreover have "\<bar>(if s then - 1 else 1) * a - (if s then - 1 else 1) * b\<bar> = \<bar>a - b\<bar>" for a b :: rat
    by (cases s) (simp_all add: abs_minus_commute)
  moreover have "f_val (round_frac s n d) = (if s then - 1 else 1) * (of_nat ?m * ?p)"
    using False by (simp add: round_frac_def Let_def)
  ultimately show ?thesis by (simp only:)
qed (simp add: round_frac_def)

text \<open>The error of one division of integers, each rounded to single precision before.\<close>

lemma float_of_int_error: "\<bar>f_val (float_of_int i) - of_int i\<bar> \<le> \<bar>of_int i\<bar> / 2 ^ 24"
  using round_frac_error [of 1 "i < 0" "nat \<bar>i\<bar>"] by (cases "i < 0") (simp_all add: float_of_int_def)

lemma float_of_int_Fin: "\<exists>m e. float_of_int i = Fin (i < 0) m e \<and> (m = 0 \<longleftrightarrow> i = 0)"
proof (cases "i = 0")
  case False
  have "\<bar>of_int i\<bar> / 2 ^ 24 < \<bar>(of_int i :: rat)\<bar>" using False by simp
  then have "f_val (float_of_int i) \<noteq> 0" using float_of_int_error [of i] by auto
  then show ?thesis using False by (auto simp: float_of_int_def round_frac_def Let_def)
qed (simp add: float_of_int_def round_frac_def)

lemma float_div_error:
  fixes s s' :: bool and m m' :: nat and e e' :: int
  assumes "m' \<noteq> 0"
  defines "x \<equiv> f_val (Fin s m e) / f_val (Fin s' m' e')"
  shows "\<bar>f_val (float_div (Fin s m e) (Fin s' m' e')) - x\<bar> \<le> \<bar>x\<bar> / 2 ^ 24"
proof -
  let ?n = "m * 2 ^ nat (e - e')" and ?d = "m' * 2 ^ nat (e' - e)"
  have r: "of_nat ?n / (of_nat ?d :: rat) = of_nat m * 2 powi e / (of_nat m' * 2 powi e')"
  proof -
    have "of_nat ?n / (of_nat ?d :: rat) = of_nat m / of_nat m' * 2 powi (e - e')" by (simp add: two_powi)
    then show ?thesis by (simp add: power_int_diff)
  qed
  have x: "x = (if s \<noteq> s' then - 1 else 1) * (of_nat ?n / of_nat ?d)" unfolding r x_def by simp
  have "\<bar>x\<bar> = of_nat ?n / of_nat ?d" unfolding x by simp
  then show ?thesis
    using round_frac_error [of ?d "s \<noteq> s'" ?n] assms(1) unfolding x by simp
qed

lemma near_one: "\<bar>r - 1\<bar> \<le> k \<longleftrightarrow> 1 - k \<le> r \<and> r \<le> 1 + (k :: rat)"
  by (auto simp: abs_le_iff)

lemma relative:
  fixes a y :: rat
  assumes "\<bar>y - a\<bar> \<le> \<bar>a\<bar> / 2 ^ 24"
  shows "\<exists>r. y = a * r \<and> 1 - 1 / 2 ^ 24 \<le> r \<and> r \<le> 1 + 1 / 2 ^ 24"
proof (cases "a = 0")
  case False
  have "\<bar>(y - a) / a\<bar> \<le> 1 / 2 ^ 24" using assms False by (simp add: abs_divide pos_divide_le_eq)
  then have "\<bar>(1 + (y - a) / a) - 1\<bar> \<le> 1 / 2 ^ 24" by (simp only: add_diff_cancel_left')
  moreover have "y = a * (1 + (y - a) / a)" using False by (simp add: field_simps)
  ultimately show ?thesis unfolding near_one by blast
qed (use assms in \<open>auto intro: exI [of _ 1]\<close>)

lemma three_roundings:
  fixes r r' r'' :: rat
  assumes "1 - 1 / 2 ^ 24 \<le> r" "r \<le> 1 + 1 / 2 ^ 24" "1 - 1 / 2 ^ 24 \<le> r'" "r' \<le> 1 + 1 / 2 ^ 24"
    "1 - 1 / 2 ^ 24 \<le> r''" "r'' \<le> 1 + 1 / 2 ^ 24"
  shows "\<bar>r * r'' / r' - 1\<bar> \<le> 1 / 2 ^ 22"
proof -
  have "r * r'' \<le> (1 + 1 / 2 ^ 24) * (1 + 1 / 2 ^ 24)" using assms by (intro mult_mono) simp_all
  moreover have "(1 - 1 / 2 ^ 24) * (1 - 1 / 2 ^ 24) \<le> r * r''" using assms by (intro mult_mono) simp_all
  ultimately have "r * r'' \<le> (1 + 1 / 2 ^ 22) * r'" "(1 - 1 / 2 ^ 22) * r' \<le> r * r''"
    using assms by simp_all
  moreover have "0 < r'" using assms(3) by simp
  ultimately have "r * r'' / r' \<le> 1 + 1 / 2 ^ 22" "1 - 1 / 2 ^ 22 \<le> r * r'' / r'"
    by (simp_all only: pos_divide_le_eq pos_le_divide_eq)
  then show ?thesis by (simp only: near_one)
qed

lemma quotient_error:
  fixes a b :: int
  assumes "b \<noteq> 0"
  defines "x \<equiv> of_int a / (of_int b :: rat)"
  shows "\<bar>f_val (float_div (float_of_int a) (float_of_int b)) - x\<bar> \<le> \<bar>x\<bar> / 2 ^ 22"
proof -
  obtain m e where A: "float_of_int a = Fin (a < 0) m e" using float_of_int_Fin [of a] by blast
  obtain m' e' where B: "float_of_int b = Fin (b < 0) m' e'" "m' \<noteq> 0" using float_of_int_Fin [of b] assms(1) by blast
  let ?y = "f_val (float_of_int a) / f_val (float_of_int b)"
  obtain r where r: "f_val (float_of_int a) = of_int a * r" "1 - 1 / 2 ^ 24 \<le> r" "r \<le> 1 + 1 / 2 ^ 24"
    using relative [OF float_of_int_error] by blast
  obtain r' where r': "f_val (float_of_int b) = of_int b * r'" "1 - 1 / 2 ^ 24 \<le> r'" "r' \<le> 1 + 1 / 2 ^ 24"
    using relative [OF float_of_int_error] by blast
  obtain r'' where r'': "f_val (float_div (float_of_int a) (float_of_int b)) = ?y * r''"
      "1 - 1 / 2 ^ 24 \<le> r''" "r'' \<le> 1 + 1 / 2 ^ 24"
    using relative [OF float_div_error [OF B(2), of "a < 0" m e "b < 0" e']] unfolding A B(1) by blast
  have "?y * r'' - x = x * (r * r'' / r' - 1)"
    unfolding r(1) r'(1) x_def by (simp add: right_diff_distrib)
  moreover have "\<bar>x\<bar> * \<bar>r * r'' / r' - 1\<bar> \<le> \<bar>x\<bar> * (1 / 2 ^ 22)"
    using three_roundings [OF r(2,3) r'(2,3) r''(2,3)] by (intro mult_left_mono) simp_all
  ultimately show ?thesis unfolding r''(1) by (simp add: abs_mult)
qed

text \<open>A printed number read back, its sign and its decimal point taken into account.\<close>

definition read_digits :: "string \<Rightarrow> nat" where
  "read_digits t = foldl (\<lambda>a c. 10 * a + (of_char c - 48)) 0 t"

definition read_2f :: "string \<Rightarrow> rat" where
  "read_2f t = (if take 1 t = ''-'' then - 1 else 1) *
     of_nat (read_digits (filter (\<lambda>c. c \<noteq> CHR ''.'' \<and> c \<noteq> CHR ''-'') t)) / 100"

lemma digit_char: "n < 10 \<Longrightarrow> of_char (digit n) = 48 + n"
  by (simp add: digit_def)

lemma digit_plain: "n < 10 \<Longrightarrow> digit n \<noteq> CHR ''.'' \<and> digit n \<noteq> CHR ''-''"
proof -
  assume "n < 10"
  then have "n \<in> {0, 1, 2, 3, 4, 5, 6, 7, 8, 9}" by auto
  then show ?thesis by (auto simp: digit_def char_of_def)
qed

lemma decimal_plain: "\<forall>c \<in> set (decimal_text n). c \<noteq> CHR ''.'' \<and> c \<noteq> CHR ''-''"
  by (induction n rule: decimal_text.induct) (subst decimal_text.simps, auto simp: digit_plain)

lemma read_snoc: "read_digits (t @ [c]) = 10 * read_digits t + (of_char c - 48)"
  by (simp add: read_digits_def)

lemma read_decimal: "read_digits (decimal_text n) = n"
proof (induction n rule: decimal_text.induct)
  case (1 n)
  show ?case
  proof (cases "n < 10")
    case True
    then show ?thesis by (subst decimal_text.simps) (simp add: read_digits_def digit_char)
  next
    case False
    then show ?thesis using 1 by (subst decimal_text.simps) (simp add: read_snoc digit_char)
  qed
qed

lemma digits_join:
  "c = c' \<Longrightarrow> a * 100 + m = (h :: nat) \<Longrightarrow> b * 10 + c' = m \<Longrightarrow> 10 * (10 * a + b) + c = h"
  by simp

lemma read_print_2f: "read_2f (print_2f N (Fin s m e)) = (if s then - 1 else 1) * of_nat (hundredths m e) / 100"
proof -
  let ?h = "hundredths m e" and ?P = "\<lambda>c. c \<noteq> CHR ''.'' \<and> c \<noteq> CHR ''-''"
  have d: "?h mod 100 div 10 < 10" "?h mod 10 < 10" by simp_all
  have "?h mod 10 = ?h mod 100 mod 10" by (simp add: mod_mod_cancel)
  then have h: "10 * (10 * (?h div 100) + ?h mod 100 div 10) + ?h mod 10 = ?h"
    by (rule digits_join [OF _ div_mult_mod_eq div_mult_mod_eq])
  have f: "filter ?P (decimal_text n) = decimal_text n" for n using decimal_plain [of n] by (simp add: filter_id_conv)
  have "filter ?P (print_2f N (Fin s m e)) = (decimal_text (?h div 100) @ [digit (?h mod 100 div 10)]) @ [digit (?h mod 10)]"
    using f digit_plain [OF d(1)] digit_plain [OF d(2)] by (simp add: Let_def)
  then have r: "read_digits (filter ?P (print_2f N (Fin s m e))) = ?h"
    by (simp only: read_snoc read_decimal digit_char [OF d(1)] digit_char [OF d(2)] add_diff_cancel_left' h)
  have "take 1 (print_2f N (Fin s m e)) = ''-'' \<longleftrightarrow> s"
  proof (cases s)
    case False
    have "decimal_text (?h div 100) \<noteq> []" by (subst decimal_text.simps) simp
    then show ?thesis using False decimal_plain [of "?h div 100"] by (cases "decimal_text (?h div 100)") (simp_all add: Let_def)
  qed (simp add: Let_def)
  then show ?thesis by (simp only: read_2f_def r)
qed

lemma print_error:
  assumes "f = Fin s m e"
  shows "\<bar>read_2f (print_2f N f) - f_val f\<bar> \<le> 1 / 200"
proof -
  have "of_nat (scale_num (100 * m) (- e)) / of_nat (2 ^ nat (- e)) = 100 * (of_nat m * 2 powi e :: rat)"
    by (simp add: scale_num_def two_powi)
  then have "\<bar>of_nat (hundredths m e) - 100 * (of_nat m * 2 powi e :: rat)\<bar> \<le> 1 / 2"
    using rne_div_error [of "2 ^ nat (- e)" "scale_num (100 * m) (- e)"] by (simp add: hundredths_def)
  moreover have "\<bar>(if s then - 1 else 1) * h / 100 - (if s then - 1 else 1) * x\<bar> \<le> 1 / 200"
    if "\<bar>h - 100 * x\<bar> \<le> 1 / 2" for h x :: rat
  proof -
    have "h / 100 - x \<le> 1 / 200 \<and> x - h / 100 \<le> 1 / 200" using that by (simp add: abs_le_iff, linarith)
    then have "\<bar>h / 100 - x\<bar> \<le> 1 / 200" "\<bar>x - h / 100\<bar> \<le> 1 / 200" unfolding abs_le_iff by linarith+
    then show ?thesis by (cases s) simp_all
  qed
  ultimately show ?thesis unfolding assms read_print_2f f_val.simps by blast
qed

text \<open>What is printed for a quotient of integers.\<close>

definition prints :: "string \<Rightarrow> rat \<Rightarrow> bool" where
  "prints t x \<longleftrightarrow> \<bar>read_2f t - x\<bar> \<le> 1 / 200 + \<bar>x\<bar> / 2 ^ 22"

lemma quotient_prints:
  assumes "b \<noteq> 0"
  shows "prints (print_2f N (float_div (float_of_int a) (float_of_int b))) (of_int a / of_int b)"
proof -
  obtain m e where A: "float_of_int a = Fin (a < 0) m e" using float_of_int_Fin [of a] by blast
  obtain m' e' where B: "float_of_int b = Fin (b < 0) m' e'" "m' \<noteq> 0" using float_of_int_Fin [of b] assms(1) by blast
  have "\<exists>s m e. float_div (float_of_int a) (float_of_int b) = Fin s m e"
    unfolding A B(1) using B(2) by (simp add: round_frac_def Let_def)
  then obtain s k l where q: "float_div (float_of_int a) (float_of_int b) = Fin s k l" by blast
  show ?thesis using print_error [OF q, of N] quotient_error [OF assms, of a] unfolding prints_def by linarith
qed

lemma speed_line_accurate:
  assumes "0 < sint iv" "sint iv < 2 ^ 21"
  shows "prints (print_2f N (speed_of iv db)) (of_int (sint db) / (1024 * of_int (sint iv)))"
    and "prints (print_2f N (pps_of iv dp)) (of_int (sint dp) / of_int (sint iv))"
proof -
  have "sint (iv * 1024) = sint iv * 1024"
    using assms by (simp add: sint_word_ariths signed_take_bit_int_eq_self)
  then show "prints (print_2f N (speed_of iv db)) (of_int (sint db) / (1024 * of_int (sint iv)))"
    using quotient_prints [of "sint iv * 1024" N "sint db"] assms(1) by (simp add: speed_of_def mult.commute)
  show "prints (print_2f N (pps_of iv dp)) (of_int (sint dp) / of_int (sint iv))"
    using quotient_prints [of "sint iv" N "sint dp"] assms(1) by (simp add: pps_of_def)
qed

text \<open>Three steps are a round.\<close>

lemma send_steps_round:
  obtains s1 s2 where "send_step c i (s, At_bytes) = Inr (s1, At_packets)"
    "send_step c i (s1, At_packets) = Inr (s2, At_rest)"
    "send_step c i (s2, At_rest) = (case spam_round c i s of Inl e \<Rightarrow> Inl e | Inr s' \<Rightarrow> Inr (s', At_bytes))"
  by (cases i) (simp add: send_step_def spam_round_def Let_def)

lemma threads_loop:
  "threads N c (concat (map (\<lambda>i. [Send i, Send i, Send i]) is)) ((s, At_bytes), t) =
     (case spam_loop c is s of Inl (r, _) \<Rightarrow> Inl (r, t) | Inr s' \<Rightarrow> Inr ((s', At_bytes), t))"
proof (induction "is" arbitrary: s)
  case (Cons i "is")
  obtain s1 s2 where "send_step c i (s, At_bytes) = Inr (s1, At_packets)"
    "send_step c i (s1, At_packets) = Inr (s2, At_rest)"
    "send_step c i (s2, At_rest) = (case spam_round c i s of Inl e \<Rightarrow> Inl e | Inr s' \<Rightarrow> Inr (s', At_bytes))"
    by (rule send_steps_round)
  then show ?case using Cons.IH by (cases "spam_round c i s") (simp_all split: prod.splits)
qed simp

text \<open>The counters after \<open>n\<close> steps of the loop.\<close>

definition bytes_after :: "nat \<Rightarrow> nat" where "bytes_after n = (n + 2) div 3"
definition packets_after :: "nat \<Rightarrow> nat" where "packets_after n = (n + 1) div 3"

definition progress :: "config \<Rightarrow> nat \<Rightarrow> spam \<times> send_pc \<Rightarrow> bool" where
  "progress c n sp \<longleftrightarrow> sent_byte (fst sp) = frame_len c * of_nat (bytes_after n) \<and>
     sent_packet (fst sp) = of_nat (packets_after n) \<and> sent (fst sp) = of_nat (n div 3) \<and>
     snd sp = (if n mod 3 = 0 then At_bytes else if n mod 3 = 1 then At_packets else At_rest)"

lemma progress0: "progress c 0 (spam0, At_bytes)"
  by (simp add: progress_def spam0_def bytes_after_def packets_after_def)

lemma step_counts:
  "bytes_after (n + 1) = bytes_after n + (if n mod 3 = 0 then 1 else 0)"
  "packets_after (n + 1) = packets_after n + (if n mod 3 = 1 then 1 else 0)"
  "(n + 1) div 3 = n div 3 + (if n mod 3 = 2 then 1 else 0)"
  "(n + 1) mod 3 = (if n mod 3 = 2 then 0 else n mod 3 + 1)"
proof -
  define k where "k = n div 3"
  have "n mod 3 < 3" "n = 3 * k + n mod 3" by (simp_all add: k_def)
  then consider "n = 3 * k" | "n = 3 * k + 1" | "n = 3 * k + 2" by linarith
  note cases = this
  have two: "Suc (Suc (3 * k)) mod 3 = 2" "Suc (Suc (3 * k)) div 3 = k" by presburger+
  show "bytes_after (n + 1) = bytes_after n + (if n mod 3 = 0 then 1 else 0)"
    using cases by cases (simp_all add: bytes_after_def two)
  show "packets_after (n + 1) = packets_after n + (if n mod 3 = 1 then 1 else 0)"
    using cases by cases (simp_all add: packets_after_def two)
  show "(n + 1) div 3 = n div 3 + (if n mod 3 = 2 then 1 else 0)"
    using cases by cases (simp_all add: two)
  show "(n + 1) mod 3 = (if n mod 3 = 2 then 0 else n mod 3 + 1)"
    using cases by cases (simp_all add: two)
qed

lemma send_step_progress:
  assumes "progress c n sp" "fst i = send_length c" "(n + 1) div 3 < packets c"
  shows "\<exists>sp'. send_step c i sp = Inr sp' \<and> progress c (n + 1) sp'"
proof -
  obtain s p where sp: "sp = (s, p)" by (cases sp)
  have "n mod 3 < 3" by simp
  then consider "n mod 3 = 0" | "n mod 3 = 1" | "n mod 3 = 2" by linarith
  then show ?thesis
  proof cases
    case 1
    then show ?thesis using assms(1) unfolding sp progress_def step_counts
      by (simp add: send_step_def distrib_left)
  next
    case 2
    then show ?thesis using assms(1) unfolding sp progress_def step_counts
      by (simp add: send_step_def)
  next
    case 3
    have k: "n div 3 < packets c" "Suc (n div 3) \<noteq> packets c"
      using assms(3) unfolding step_counts by (simp_all add: 3)
    have "sent s = of_nat (n div 3)" using assms(1) by (simp add: sp progress_def)
    then have "sent s + 1 \<noteq> count c" using last_packet [OF k(1)] k(2) by blast
    then show ?thesis using assms(1,2) 3 unfolding sp progress_def step_counts
      by (cases "wait_us (snd i) = 0") (simp_all add: send_step_def Let_def)
  qed
qed

lemma sends_run:
  assumes "progress c n sp" "\<And>i. i \<in> set is \<Longrightarrow> fst i = send_length c" "(n + length is) div 3 < packets c"
  shows "\<exists>sp'. (\<forall>N es t. threads N c (map Send is @ es) (sp, t) = threads N c es (sp', t)) \<and> progress c (n + length is) sp'"
  using assms
proof (induction "is" arbitrary: n sp)
  case Nil
  then show ?case by (intro exI [of _ sp]) simp
next
  case (Cons i "is")
  have "(n + 1) div 3 \<le> (n + length (i # is)) div 3" by (rule div_le_mono) simp
  then have "(n + 1) div 3 < packets c" using Cons.prems(3) by linarith
  from send_step_progress [OF Cons.prems(1) _ this, of i] Cons.prems(2) obtain sp1 where
    sp1: "send_step c i sp = Inr sp1" "progress c (n + 1) sp1" by auto
  from Cons.IH [OF sp1(2)] Cons.prems(2,3) obtain sp' where
    "\<forall>N es t. threads N c (map Send is @ es) (sp1, t) = threads N c es (sp', t)" "progress c (n + 1 + length is) sp'"
    by auto
  then show ?case using sp1(1) by (intro exI [of _ sp']) simp
qed

text \<open>One report: the statements of the thread with the steps of the loop between them.\<close>

definition report_turns :: "(u32 \<times> u32) list \<Rightarrow> (u32 \<times> u32) list \<Rightarrow> (u32 \<times> u32) list \<Rightarrow> (u32 \<times> u32) list \<Rightarrow>
    (u32 \<times> u32) list \<Rightarrow> turn list" where
  "report_turns A B C D E =
     Stat # map Send A @ Stat # map Send B @ Stat # map Send C @ Stat # map Send D @ Stat # map Send E @ [Stat]"

lemma threads_Stat:
  "threads N c (Stat # es) (s, t) = threads N c es (s, print_speed N (word_of_int (rate_stat_interval c)) (fst s) t)"
  by simp

lemma counted: "y \<le> x \<Longrightarrow> f * of_nat x - f * of_nat y = f * (of_nat (x - y) :: u32)"
  by (simp add: of_nat_diff right_diff_distrib)

lemma report_run:
  assumes "progress c n s" "pc t = Read_s_byte" "\<And>i. i \<in> set (A @ B @ C @ D @ E) \<Longrightarrow> fst i = send_length c"
    "(n + length (A @ B @ C @ D @ E)) div 3 < packets c"
  defines "p \<equiv> n + length A" and "q \<equiv> n + length (A @ B @ C)" and "r \<equiv> n + length (A @ B @ C @ D)"
  shows "\<exists>s' t'. threads N c (report_turns A B C D E) (s, t) = Inr (s', t') \<and>
    progress c (n + length (A @ B @ C @ D @ E)) s' \<and> pc t' = Read_s_byte \<and>
    naps t' = word_of_int (rate_stat_interval c) * 1000000 # naps t \<and>
    lines t' = speed_line N (word_of_int (rate_stat_interval c)) (frame_len c * of_nat (bytes_after q - bytes_after n))
      (of_nat (packets_after r - packets_after p)) # lines t"
proof -
  have le: "m div 3 < packets c" if "m \<le> n + length (A @ B @ C @ D @ E)" for m
    using div_le_mono [OF that, of 3] assms(4) by linarith
  have in_A: "\<And>i. i \<in> set A \<Longrightarrow> fst i = send_length c" and in_B: "\<And>i. i \<in> set B \<Longrightarrow> fst i = send_length c"
    and in_C: "\<And>i. i \<in> set C \<Longrightarrow> fst i = send_length c" and in_D: "\<And>i. i \<in> set D \<Longrightarrow> fst i = send_length c"
    and in_E: "\<And>i. i \<in> set E \<Longrightarrow> fst i = send_length c" using assms(3) by auto
  from sends_run [OF assms(1) in_A le [of "n + length A"]] obtain a where
    a: "\<And>N es t. threads N c (map Send A @ es) (s, t) = threads N c es (a, t)" "progress c (n + length A) a" by auto
  from sends_run [OF a(2) in_B le [of "n + length A + length B"]] obtain b where
    b: "\<And>N es t. threads N c (map Send B @ es) (a, t) = threads N c es (b, t)" "progress c (n + length A + length B) b" by auto
  from sends_run [OF b(2) in_C le [of "n + length A + length B + length C"]] obtain d where
    d: "\<And>N es t. threads N c (map Send C @ es) (b, t) = threads N c es (d, t)"
      "progress c (n + length A + length B + length C) d" by auto
  from sends_run [OF d(2) in_D le [of "n + length A + length B + length C + length D"]] obtain e where
    e: "\<And>N es t. threads N c (map Send D @ es) (d, t) = threads N c es (e, t)"
      "progress c (n + length A + length B + length C + length D) e" by auto
  from sends_run [OF e(2) in_E le [of "n + length A + length B + length C + length D + length E"]] obtain f where
    f: "\<And>N es t. threads N c (map Send E @ es) (e, t) = threads N c es (f, t)"
      "progress c (n + length A + length B + length C + length D + length E) f" by auto
  have mono: "bytes_after n \<le> bytes_after q" "packets_after p \<le> packets_after r"
    by (simp_all add: bytes_after_def packets_after_def p_def q_def r_def div_le_mono)
  have db: "sent_byte (fst d) - sent_byte (fst s) = frame_len c * of_nat (bytes_after q - bytes_after n)"
    using counted [OF mono(1)] d(2) assms(1) by (simp add: progress_def q_def add.assoc)
  have dp: "sent_packet (fst e) - sent_packet (fst a) = of_nat (packets_after r - packets_after p)"
    using mono(2) a(2) e(2) by (simp add: progress_def p_def r_def add.assoc of_nat_diff)
  show ?thesis
    using assms(2) f(2) unfolding report_turns_def db [symmetric] dp [symmetric]
    by (simp only: threads_Stat a(1) b(1) d(1) e(1) f(1)) (simp add: print_speed_def add.assoc)
qed

section \<open>Properties\<close>

text \<open>
  C25: What the statistics thread prints. However the steps of the sending loop fall between its
  statements, each report is a line with two rates: the bytes and the packets counted between the
  respective reads over the interval, as decimal text that is right up to half a hundredth and a relative
  error of \<open>2^-22\<close>, as long as the bytes of the interval fit 31 bits.
\<close>

theorem speed_report:
  assumes "progress c n s" "pc t = Read_s_byte" "\<And>i. i \<in> set (A @ B @ C @ D @ E) \<Longrightarrow> fst i = send_length c"
    "(n + length (A @ B @ C @ D @ E)) div 3 < packets c"
    "0 < rate_stat_interval c" "rate_stat_interval c < 2 ^ 21"
  defines "bytes \<equiv> unat (frame_len c) * (bytes_after (n + length (A @ B @ C)) - bytes_after n)"
    and "sends \<equiv> packets_after (n + length (A @ B @ C @ D)) - packets_after (n + length A)"
  assumes "bytes < 2 ^ 31" "sends < 2 ^ 31"
  shows "\<exists>s' t' kb pps. threads N c (report_turns A B C D E) (s, t) = Inr (s', t') \<and>
    progress c (n + length (A @ B @ C @ D @ E)) s' \<and> pc t' = Read_s_byte \<and>
    lines t' = (''sending rate: '' @ kb @ ''KB/s '' @ pps @ ''pps'' @ [CHR 0x0A]) # lines t \<and>
    prints kb (of_nat bytes / (1024 * of_int (rate_stat_interval c))) \<and>
    prints pps (of_nat sends / of_int (rate_stat_interval c))"
proof -
  let ?iv = "word_of_int (rate_stat_interval c) :: u32" and ?k = "bytes_after (n + length (A @ B @ C)) - bytes_after n"
  let ?db = "frame_len c * of_nat ?k" and ?dp = "of_nat sends :: u32"
  have iv: "sint ?iv = rate_stat_interval c"
    using assms(5,6) by (simp add: sint_sbintrunc' signed_take_bit_int_eq_self)
  have small: "sint (of_nat k :: u32) = int k" if "k < 2 ^ 31" for k
    using that by (simp add: signed_of_nat signed_take_bit_int_eq_self)
  have "?db = of_nat bytes" by (simp add: bytes_def)
  then have db: "sint ?db = int bytes" using small [OF assms(9)] by (simp only:)
  have dp: "sint ?dp = int sends" by (rule small [OF assms(10)])
  from speed_line_accurate(1) [of ?iv N ?db] speed_line_accurate(2) [of ?iv N ?dp] assms(5,6)
  have kb: "prints (print_2f N (speed_of ?iv ?db)) (of_nat bytes / (1024 * of_int (rate_stat_interval c)))"
    and pps: "prints (print_2f N (pps_of ?iv ?dp)) (of_nat sends / of_int (rate_stat_interval c))"
    unfolding iv db dp of_int_of_nat_eq by blast+
  from report_run [OF assms(1-4), of N] obtain s' t' where
    "threads N c (report_turns A B C D E) (s, t) = Inr (s', t')" "progress c (n + length (A @ B @ C @ D @ E)) s'"
    "pc t' = Read_s_byte" "lines t' = speed_line N ?iv ?db ?dp # lines t" unfolding sends_def by blast
  then show ?thesis using kb pps unfolding speed_line_def by blast
qed

text \<open>Both threads at their start, frames of 1000 bytes: 500 rounds during the sleep, one step more before the last read.\<close>

theorem speed_report_witness:
  "\<exists>s' t' kb pps. threads ''nan'' config0 (report_turns [] [] (replicate 1500 (1021, 70)) [(1021, 70)] []) ((spam0, At_bytes), speed0) =
       Inr (s', t') \<and>
     hd (lines t') = ''sending rate: '' @ kb @ ''KB/s '' @ pps @ ''pps'' @ [CHR 0x0A] \<and>
     prints kb (500000 / 1024) \<and> prints pps 500"
proof -
  have c: "send_length config0 = 1021" "packets config0 = 2 ^ 32" "rate_stat_interval config0 = 1" "frame_len config0 = 1000"
    by (simp_all add: config0_def send_length_def u8aRadiotapHeader_def u8aIeeeHeader_def packets_def)
  show ?thesis
    using speed_report [OF progress0 [of config0], of speed0 "[]" "[]" "replicate 1500 (1021, 70)" "[(1021, 70)]" "[]" "''nan''"]
    by (simp add: c speed0_def bytes_after_def packets_after_def) (metis list.sel(1))
qed

text \<open>
  An interval of zero, which is what \<open>atoi\<close> makes of a text that is no number, divides by zero:
  both rates print as infinite, or as not a number when nothing was sent, and the thread never sleeps.
\<close>

theorem speed_interval_zero:
  "naps (print_speed N 0 st (t\<lparr>pc := Sleep\<rparr>)) = 0 # naps t \<and>
   speed_line N 0 db dp =
     ''sending rate: '' @ (if db = 0 then N else if sint db < 0 then ''-inf'' else ''inf'') @ ''KB/s '' @
     (if dp = 0 then N else if sint dp < 0 then ''-inf'' else ''inf'') @ ''pps'' @ [CHR 0x0A]"
proof -
  have z: "print_2f N (float_div (float_of_int a) (float_of_int 0)) = (if a = 0 then N else if a < 0 then ''-inf'' else ''inf'')" for a
  proof -
    obtain m e where A: "float_of_int a = Fin (a < 0) m e" "m = 0 \<longleftrightarrow> a = 0" using float_of_int_Fin [of a] by blast
    have "float_of_int 0 = Fin False 0 0" by (simp add: float_of_int_def round_frac_def)
    then show ?thesis using A by simp
  qed
  have "print_2f N (speed_of 0 db) = (if db = 0 then N else if sint db < 0 then ''-inf'' else ''inf'')"
    "print_2f N (pps_of 0 dp) = (if dp = 0 then N else if sint dp < 0 then ''-inf'' else ''inf'')"
    using z [of "sint db"] z [of "sint dp"] by (simp_all add: speed_of_def pps_of_def signed_eq_0_iff)
  then show ?thesis by (simp add: speed_line_def print_speed_def)
qed

text \<open>
  The counter of bytes is an \<open>int\<close>. When an interval carries between \<open>2^31\<close> and \<open>2^32\<close> bytes, the
  difference is negative and so is the printed rate.
\<close>

theorem speed_goes_negative:
  assumes "0 < sint iv" "sint iv < 2 ^ 21" "2 ^ 31 \<le> k" "k < 2 ^ 32"
  shows "\<exists>kb. print_2f N (speed_of iv (of_nat k)) = ''-'' @ kb"
proof -
  have d: "sint (of_nat k :: u32) < 0"
  proof -
    have "sint (of_nat k :: u32) = signed_take_bit 31 (int k)" by (simp add: signed_of_nat)
    moreover have "k div 2 ^ 31 = 1" using assms(3,4) by (intro div_nat_eqI) simp_all
    then have "int k div 2 ^ 31 = 1" using zdiv_int [of k "2 ^ 31"] by simp
    then have "bit (int k) 31" unfolding bit_iff_odd by simp
    ultimately show ?thesis by (simp add: signed_take_bit_negative_iff)
  qed
  have "sint (iv * 1024) = sint iv * 1024"
    using assms(1,2) by (simp add: sint_word_ariths signed_take_bit_int_eq_self)
  then have b: "0 < sint (iv * 1024)" using assms(1) by simp
  obtain m e where A: "float_of_int (sint (of_nat k :: u32)) = Fin True m e"
    using float_of_int_Fin [of "sint (of_nat k :: u32)"] d by auto
  obtain m' e' where B: "float_of_int (sint (iv * 1024)) = Fin False m' e'" "m' \<noteq> 0"
    using float_of_int_Fin [of "sint (iv * 1024)"] b by auto
  show ?thesis using B(2) unfolding speed_of_def A B(1) by (simp add: round_frac_def Let_def)
qed

end
