(* ===== verification/Ath_Combinations.thy ===== *)
theory Ath_Combinations
  imports Ath_Init
begin

text \<open>
  The interface combinations that \<open>ath9k/init.c\<close> announces (\<open>if_limits\<close>, \<open>if_dfs_limits\<close>, \<open>if_comb\<close>) beside
  the eight beacon slots of \<open>ath9k.h\<close>. The build options are arguments. What a combination permits is
  the rule that cfg80211 documents for these structures.
\<close>

section \<open>The tables\<close>

type_synonym iface_limit = "nat \<times> iface_mode set"

definition if_limits :: "bool \<Rightarrow> iface_limit list" where
  "if_limits mesh =
     [(2048, {M_STATION, M_WDS}),
      (8, (if mesh then {M_MESH_POINT} else {}) \<union> {M_AP}),
      (1, {M_P2P_CLIENT, M_P2P_GO}),
      (1, {M_ADHOC})]"

definition if_dfs_limits :: "bool \<Rightarrow> iface_limit list" where
  "if_dfs_limits mesh = [(1, {M_AP} \<union> (if mesh then {M_MESH_POINT} else {}) \<union> {M_ADHOC})]"

datatype chan_width = WIDTH_20_NOHT | WIDTH_20

record iface_combination =
  limits :: "iface_limit list"
  max_interfaces :: nat
  num_different_channels :: nat
  beacon_int_infra_match :: bool
  radar_detect_widths :: "chan_width set"

definition if_comb :: "bool \<Rightarrow> bool \<Rightarrow> iface_combination list" where
  "if_comb mesh dfs_certified =
     \<lparr>limits = if_limits mesh, max_interfaces = 2048, num_different_channels = 1,
       beacon_int_infra_match = True, radar_detect_widths = {}\<rparr> #
     (if dfs_certified then
       [\<lparr>limits = if_dfs_limits mesh, max_interfaces = 1, num_different_channels = 1,
         beacon_int_infra_match = True, radar_detect_widths = {WIDTH_20_NOHT, WIDTH_20}\<rparr>]
      else [])"

definition ATH_BCBUF :: nat where "ATH_BCBUF = 8"

section \<open>What they permit\<close>

definition all_modes :: "iface_mode list" where
  "all_modes = [M_P2P_GO, M_P2P_CLIENT, M_AP, M_WDS, M_STATION, M_ADHOC, M_MESH_POINT]"

text \<open>How many interfaces of the types that satisfy \<open>P\<close>.\<close>

definition number :: "(iface_mode \<Rightarrow> nat) \<Rightarrow> (iface_mode \<Rightarrow> bool) \<Rightarrow> nat" where
  "number n P = sum_list (map n (filter P all_modes))"

text \<open>
  cfg80211's rule: no more interfaces than in all, no more of a limit's types than its maximum, and
  none of a type that no limit names.
\<close>

definition permits :: "iface_combination \<Rightarrow> (iface_mode \<Rightarrow> nat) \<Rightarrow> bool" where
  "permits c n \<longleftrightarrow> number n (\<lambda>_. True) \<le> max_interfaces c \<and>
     (\<forall>(m, ts) \<in> set (limits c). number n (\<lambda>t. t \<in> ts) \<le> m) \<and>
     number n (\<lambda>t. \<forall>(m, ts) \<in> set (limits c). t \<notin> ts) = 0"

text \<open>The type the driver sees: mac80211 gives it a P2P interface as station or access point.\<close>

fun driver_type :: "iface_mode \<Rightarrow> iftype" where
  "driver_type M_P2P_GO = IF_AP"
| "driver_type M_P2P_CLIENT = IF_STATION"
| "driver_type M_AP = IF_AP"
| "driver_type M_WDS = IF_WDS"
| "driver_type M_STATION = IF_STATION"
| "driver_type M_ADHOC = IF_ADHOC"
| "driver_type M_MESH_POINT = IF_MESH_POINT"

text \<open>Interfaces for which \<open>ath9k_add_interface\<close> takes a beacon slot.\<close>

definition beaconing :: "(iface_mode \<Rightarrow> nat) \<Rightarrow> nat" where
  "beaconing n = number n (\<lambda>t. ath9k_uses_beacons (driver_type t))"

lemma beaconing_sum: "beaconing n = n M_P2P_GO + n M_AP + n M_ADHOC + n M_MESH_POINT"
  by (simp add: beaconing_def number_def all_modes_def ath9k_uses_beacons_def)

lemma permits_limits:
  "permits (hd (if_comb mesh dfs)) n \<longleftrightarrow>
     number n (\<lambda>_. True) \<le> 2048 \<and> n M_WDS + n M_STATION \<le> 2048 \<and>
     n M_AP + (if mesh then n M_MESH_POINT else 0) \<le> 8 \<and> n M_P2P_GO + n M_P2P_CLIENT \<le> 1 \<and> n M_ADHOC \<le> 1 \<and>
     (mesh \<or> n M_MESH_POINT = 0)"
  by (cases mesh) (simp_all add: permits_def if_comb_def if_limits_def number_def all_modes_def)

lemma permits_dfs:
  "permits (if_comb mesh True ! 1) n \<Longrightarrow> n M_P2P_GO = 0 \<and> n M_AP + n M_ADHOC + n M_MESH_POINT \<le> 1"
  by (cases mesh) (simp_all add: permits_def if_comb_def if_dfs_limits_def number_def all_modes_def)

section \<open>Properties\<close>

text \<open>
  C31: The announced combinations permit up to ten interfaces that send beacons, and exactly that
  many can be reached, while there are eight beacon slots and buffers; where radar must be detected
  there is at most one.
\<close>

theorem beacon_slots_exceeded:
  "(\<forall>n. permits (hd (if_comb mesh dfs)) n \<longrightarrow> beaconing n \<le> ATH_BCBUF + 2) \<and>
   (\<exists>n. permits (hd (if_comb mesh dfs)) n \<and> beaconing n = ATH_BCBUF + 2) \<and>
   (\<forall>n. permits (if_comb mesh True ! 1) n \<longrightarrow> beaconing n \<le> 1)"
proof (intro conjI allI impI)
  fix n assume "permits (hd (if_comb mesh dfs)) n"
  then show "beaconing n \<le> ATH_BCBUF + 2"
    unfolding permits_limits beaconing_sum ATH_BCBUF_def by (cases mesh) auto
next
  let ?n = "(\<lambda>_. 0)(M_AP := 8, M_P2P_GO := 1, M_ADHOC := 1) :: iface_mode \<Rightarrow> nat"
  have "permits (hd (if_comb mesh dfs)) ?n" unfolding permits_limits by (simp add: number_def all_modes_def)
  moreover have "beaconing ?n = ATH_BCBUF + 2" by (simp add: beaconing_sum ATH_BCBUF_def)
  ultimately show "\<exists>n. permits (hd (if_comb mesh dfs)) n \<and> beaconing n = ATH_BCBUF + 2" by blast
next
  fix n assume "permits (if_comb mesh True ! 1) n"
  from permits_dfs [OF this] show "beaconing n \<le> 1" by (simp add: beaconing_sum)
qed

text \<open>The property at a station with eight access points.\<close>

theorem beacon_slots_exceeded_witness:
  "beaconing ((\<lambda>_. 0)(M_STATION := 3, M_AP := 8)) \<le> ATH_BCBUF + 2"
proof -
  have "permits (hd (if_comb True False)) ((\<lambda>_. 0)(M_STATION := 3, M_AP := 8))"
    unfolding permits_limits by (simp add: number_def all_modes_def)
  then show ?thesis using beacon_slots_exceeded [of True False] by blast
qed

end
