(* ===== verification/Spec2Isabelle.thy ===== *)
theory Spec2Isabelle
  imports Latency Packetspammer Set_Contention Char_Device Ath_Lifecycle Ath_Descdma Ath_Aggr Unlock_Protocol Timing_Test Contention_Smp Node_Protocol Node_Traffic Dump Ath_Irq_Protocol Speed_Stats Ath_Combinations
begin

text \<open>
  Verification library of the UCSMA rate-control project: a modified \<open>ath9k\<close> wireless driver, a
  set of kernel modules that implement unlocking CSMA and measure it, and a traffic generator.

  \<^bold>\<open>The program.\<close> Every node runs the driver (\<open>ath9k/main.c\<close>, \<open>ath9k/init.c\<close>) and the unlock
  module (\<open>kernel-module/unlock.c\<close>). The nodes share a GPIO line. When the line falls, the
  interrupt handler \<open>unlock_r_irq_handler\<close> looks at the time since the last signal, sets the
  contention window from the length of the driver's transmit buffer list (\<open>txbuf_fff\<close>, exported by
  \<open>ath9k_tx\<close>), relays the pulse, keeps the chip quiet for a random back-off by setting the
  force-quiet bit, and arms a timer that raises the next signal should no other node do so. The
  other modules log (\<open>unlock_with_log.c\<close>, \<open>record_gpio_event.c\<close>, \<open>gpio_timeline.c\<close>), measure
  latency (\<open>gpio-irq-latency-test.c\<close>, \<open>interrupt_test_node1.c\<close>, \<open>interrupt_test_node2.c\<close>), open the gate
  (\<open>flip_quiet_coll_bit.c\<close>) and print the contention registers (\<open>set_contention_window.c\<close>).
  \<open>ath9k/buffer_number.c\<close> offers the number of free buffers to user space, where
  \<open>packetspammer\<close> reads it to pace the frames it injects.

  \<^bold>\<open>Conventions.\<close> A handler is a function in the state monad (\<open>Ucsma_Prelude\<close>): \<open>res m s\<close> is
  what it returns, \<open>exec m s\<close> the state it leaves. C integers are words of their width; the
  target is a 32-bit big-endian machine, so \<open>int\<close> and \<open>unsigned long\<close> have 32 bits. Errors are
  values: a sum with a fault type, an option, or the negative result code of the source. What the
  kernel, the chip or user space supplies (times, random words, results of requests, options) is an
  argument. Names follow the source.

  \<^bold>\<open>The theories.\<close>
  \<^item> \<open>Ucsma_Prelude\<close>: machine types, \<open>timespec\<close>, lock histories (\<open>held\<close>), the monad's rules, and the
    calculus \<open>keeps\<close>/\<open>shifts\<close> of fields a handler leaves alone or moves by a constant.
  \<^item> \<open>Registers\<close>: the read, write and read-modify-write hooks of \<open>ath9k/init.c\<close> with their
    serialising lock, under the locale \<open>register_bus\<close>. Registers are plain storage; offsets and
    masks of the chip's headers are the parameter \<open>chip\<close>, and \<open>ar9331\<close> is an instance.
  \<^item> \<open>Registers_Smp\<close>, \<open>Contention_Smp\<close>: the same hooks step by step, on several processors or
    interrupted in the middle: linearisation under the lock, what is lost without it, and the two
    unsynchronised callers of the window loop.
  \<^item> \<open>Contention\<close>: both ladders from buffer length to window (locale \<open>cw_policy\<close>, monotone and bounded)
    and the loop \<open>edit_contentionWindow\<close>.
  \<^item> \<open>Unlock_Timing\<close>, \<open>Unlock\<close>, \<open>Unlock_Module\<close>: \<open>unlock.c\<close>. Arithmetic of the debounce test and of
    the next period; both handlers; loading, unloading, a step relation of the loaded module
    (\<open>ustep\<close>, \<open>ureach\<close>) with its invariant; runs of interrupts.
  \<^item> \<open>Unlock_Protocol\<close>: the protocol of one node as a small machine (\<open>proto\<close>), the locale
    \<open>unlock_node\<close> of its implementations, refinement by \<open>unlock.c\<close> and by \<open>unlock_with_log.c\<close>, and
    a network of nodes that hear each other's pulse.
  \<^item> \<open>Event_Log\<close>: the two logging modules as bounded recorders (locale \<open>recorder\<close>).
  \<^item> \<open>Kernel_Resources\<close>, \<open>Kernel_Modules\<close>: the kernel's table of resources; modules that give back
    what they take (locales \<open>loadable\<close> and \<open>kernel_module\<close>, the first a consequence of the second);
    load and unload of seven modules.
  \<^item> \<open>Timing_Test\<close>: the cost of reading the clock, \<open>kernel_timing_test.c\<close>.
  \<^item> \<open>Latency\<close>: the latency tests and the quiet-bit timer: bounds, termination, statistics.
  \<^item> \<open>Set_Contention\<close>, \<open>Char_Device\<close>: the register printer; the character device and its reader.
  \<^item> \<open>Radiotap\<close>, \<open>Packetspammer\<close>, \<open>Dump\<close>: the radiotap iterator with memory faults; command line, frame and
    sending loop of the generator; its hexadecimal dump with the buffers on the stack.
  \<^item> \<open>Speed_Stats\<close>: the second thread of the generator, statement by statement beside the sending
    loop, with single precision division and the decimal text it prints.
  \<^item> \<open>Ath_State\<close>, \<open>Ath_Locks\<close>: state of the driver, calls and locks as a trace; the calculus
    \<open>uses\<close> (which locks a handler takes and gives back, and in which order of nesting).
  \<^item> \<open>Ath_Power\<close>, \<open>Ath_Reset\<close>, \<open>Ath_Interrupt\<close>, \<open>Ath_Tx\<close>, \<open>Ath_Iface\<close>, \<open>Ath_Config\<close>: the functions of
    \<open>ath9k/main.c\<close> by subject. The counted wakeup, with the sleep timer that runs
    between its users, is the locale \<open>use_counter\<close>; its steps are \<open>ps_step\<close>.
  \<^item> \<open>Ath_Intr\<close>: what handler, tasklet, reset, start and stop do to the interrupts, on an abstraction of
    the driver's state (\<open>irq_view\<close>), with the reference count that the chip's functions keep
    (\<open>counts_interrupts\<close>).
  \<^item> \<open>Ath_Irq_Protocol\<close>: the same for every other callback, timer and notifier (\<open>view_moves\<close>), and the
    protocol of all of them as a step relation (\<open>irq_step\<close>, \<open>irq_reach\<close>).
  \<^item> \<open>Ath_Regd\<close>: the notifier of the regulatory domain, the power test per channel and the entropy
    source of \<open>ath9k/init.c\<close>.
  \<^item> \<open>Ath_Ops\<close>: the callback table, interrupt, tasklet, work and timer as events (locale
    \<open>event_driven\<close>), with the property that spans all of them.
  \<^item> \<open>Ath_Descdma\<close>: \<open>ath_descdma_setup\<close> of \<open>init.c\<close>, the layout of buffer descriptors that must not
    cross a page on older chips.
  \<^item> \<open>Ath_Init\<close>, \<open>Ath_Lifecycle\<close>: bring-up of the device with every error label of \<open>ath9k_init_softc\<close>
    and \<open>ath9k_init_device\<close>, capabilities, tear-down, the module's own hooks; then their effect on
    the table of resources, failed probes included.
  \<^item> \<open>Ath_Combinations\<close>: the interface combinations that \<open>init.c\<close> announces, beside the beacon slots.
  \<^item> \<open>Node_System\<close>: the driver, the unlock module and the character device on one state: the
    registers, the exported buffer list and the counter they share.
  \<^item> \<open>Node_Protocol\<close>: this whole node refines the protocol of \<open>Unlock_Protocol\<close>; a network of whole
    nodes.
  \<^item> \<open>Node_Traffic\<close>: the generator on a node, paced by the driver's list through the device.
  \<^item> \<open>Ath_Aggr\<close>: the arithmetic macros of \<open>ath9k/ath9k.h\<close>: block-ack window, delimiters, rings.

  \<^bold>\<open>The driver's environment.\<close> \<open>main.c\<close> calls functions of other files, of the chip's code and
  of mac80211 that the repository does not hold. A call is a value of \<open>call\<close>, and its meaning is
  the parameter \<open>world D\<close>, any function of the call and the state to a result and a new state.
  Where a property needs that these functions leave a field of \<open>main.c\<close> alone, it says so by
  \<open>frames D f\<close>; the instance \<open>dev0\<close>, a chip that succeeds at once, shows that this can hold.
  Calls and lock operations are recorded in \<open>trace\<close>; a lock taken twice or released without being held
  makes the history invalid, so balance of the locks is a property of the trace. An event runs to
  its end before the next one starts; steps of different processors are interleaved for the register
  hooks and for the loop over the contention windows only. Which fields a handler leaves alone is
  proved once for every projection that is \<open>steady\<close> (\<open>Ath_Power\<close>), and used for the use count,
  the exported pointer and the configuration.

  \<^bold>\<open>Bring-up.\<close> What the outcome of a bring-up depends on is the record \<open>init_env\<close>: result codes of
  the requests made, capabilities of the chip, what the calibration data hold. Resources taken from
  the kernel and given back by name live in the table of \<open>Kernel_Resources\<close>; device-managed memory,
  which the kernel frees by itself, is not in it. The bus glue that calls \<open>ath9k_init_device\<close>
  is not in the repository.

  \<^bold>\<open>What the lemmas show.\<close> For the unlock module: the invariant of its reachable states (lock
  free, timer armed, one window in eight queues, gate open), the debounce, the whole effect of an
  accepted signal, bounds of the delay, the starvation after a silent second, clean load and
  unload. For the logs and tests: what is recorded, that nothing leaves its array, that they
  end. For the iterator: memory safety and termination for every header, agreement with
  the standard layout where no padding occurs. For the generator: header, frame and count. For the
  driver: no leaked lock or wakeup over any run of events, no cycle of contexts that wait for each other's lock; the chip awake and its
  sleep timer off while it is used; what the interrupt handler answers and does on every path; the
  interrupt protocol between handler, tasklet and reset; the survey, the primary station, the
  summary over the interfaces, key slots, chain masks and the EIFS register. For the protocol:
  both modules refine it, and in a network where every node hears the pulse each node relays it
  exactly once. For bring-up and tear-down: a device that came up gives everything back; a failed
  probe leaves what the missing labels leave and nothing else; queues, transmit
  power and capabilities are those of the configuration. For descriptor areas: every buffer
  has its own descriptors, none across a page where that matters, and the area asked for is
  enough up to a size, which is shown to be sharp by a counterexample. For the macros: slots of the
  block-ack window, the minimal delimiter, time units. For several processors: under the lock the
  hooks are equivalent to whole calls in the order of their returns, and all of them finish; without
  it an update can be lost; two callers of the window loop leave a window of one of them in each queue,
  not always the same. For the interrupts: off only while the tasklet or a reset is to come, and on again
  after at most two steps, whatever callbacks run in between, unless the receive logic once failed to
  start or the device became idle while a reset was due; what these two do is shown as well. For the whole node: after its first frame it answers every
  signal, and the window and the count seen by user space are those of the driver's list; a signal
  before that blocks it; whatever its driver and its users do, it behaves on the line like the abstract
  protocol, and a network of such nodes relays a burst once; the pause of the generator follows the
  driver's list. For the statistics thread: what it
  prints is the rate of the rounds between its reads up to rounding, under any interleaving. For the dump: text only, inside its buffers.

  \<^bold>\<open>Bounds and termination.\<close> No fuel is used, and every definition but one is total. The iterator ends because
  each pass moves the table index on (measure: table entries left), the walk over extended bitmaps
  because the position grows towards the declared length, the polling loop of node 1 because
  its counter grows to a million, \<open>fill_chainmask\<close> because the chip's mask is halved. The search
  for a descriptor that does not cross a page is defined by recursion on the place left; the
  length of the area is a partial function of the size of a buffer, since the source's loop does not end for
  every size, and is shown to end for sizes below a page. The
  sending loop is a fold over the results of its injections and has an explicit value for
  still running; it ends after \<open>count\<close> rounds, or \<open>2^32\<close> when that is zero.

  \<^bold>\<open>Not modelled.\<close> Wake-on-wireless and debug options, which are off; debug
  prints; the bus glue and the files of the driver that the repository does not hold; values of
  single precision that no quotient of two \<open>int\<close>s reaches (subnormal or too large);
  \<open>kernel-module/buffer_number.c\<close>, which names an undefined counter;
  \<open>kernel-module/set_contention_window.c\<close> is identical to the modelled file.
\<close>

end
